(* ===== verification/Prelude.thy ===== *)
theory Prelude
  imports Main "HOL-Library.Word"
begin

text \<open>
  Shared vocabulary of the development: the C integer types, the faults a C statement
  can run into, the result type of a modelled function, and the arithmetic macros of
  \<^verbatim>\<open>spdk_fs/fs.h\<close>.

  A C function that can only return is modelled by a plain HOL function. One that can
  trip an \<^verbatim>\<open>assert\<close>, call \<^verbatim>\<open>abort\<close> or reach an undefined operation returns
  \<open>'a res\<close>: \<open>Inl\<close> names the fault, \<open>Inr\<close> carries the ordinary result (which may itself be
  a C error code).
\<close>

section \<open>C integers\<close>

type_synonym u8 = "8 word"
type_synonym u32 = "32 word"
type_synonym u64 = "64 word"

text \<open>Storing a \<^verbatim>\<open>uint64_t\<close> in an \<^verbatim>\<open>int\<close> and using it again in
  \<^verbatim>\<open>size_t\<close> arithmetic: truncation to 32 bits, then sign extension.\<close>

definition c_int :: "u64 \<Rightarrow> u64" where
  "c_int x = scast (ucast x :: u32)"

text \<open>\<^verbatim>\<open>#define UPPER_DIV(a,b) (a - 1) / b + 1\<close> on \<^verbatim>\<open>size_t\<close> operands.\<close>

definition upper_div :: "u64 \<Rightarrow> u64 \<Rightarrow> u64" where
  "upper_div a b = (a - 1) div b + 1"

section \<open>Faults and results\<close>

datatype fault =
    Assert_failed     \<comment> \<open>an \<open>assert\<close> that does not hold\<close>
  | Null_deref        \<comment> \<open>a null or never assigned pointer is dereferenced\<close>
  | Out_of_bounds     \<comment> \<open>an array is indexed outside its bounds\<close>
  | Type_confusion    \<comment> \<open>a \<open>void *\<close> is used at a type it was not stored at\<close>
  | Uninit_read       \<comment> \<open>a local is read before it was written\<close>
  | Shift_overflow    \<comment> \<open>a shift by at least the width of its operand\<close>
  | Div_by_zero       \<comment> \<open>an integer division by zero\<close>
  | Stale_context     \<comment> \<open>a request is made while one that timed out still holds a dead frame\<close>
  | No_return         \<comment> \<open>a loop that does not terminate\<close>

type_synonym 'a res = "fault + 'a"

definition bind_res :: "'a res \<Rightarrow> ('a \<Rightarrow> 'b res) \<Rightarrow> 'b res" where
  "bind_res r f = (case r of Inl e \<Rightarrow> Inl e | Inr x \<Rightarrow> f x)"

lemma bind_res_simps [simp]:
  "bind_res (Inl e) f = Inl e"
  "bind_res (Inr x) f = f x"
  by (simp_all add: bind_res_def)

lemma bind_res_Inr_iff: "bind_res r f = Inr y \<longleftrightarrow> (\<exists>x. r = Inr x \<and> f x = Inr y)"
  by (cases r) simp_all

section \<open>Arithmetic facts\<close>

lemma unat_upper_div:
  assumes "0 < unat a" and "0 < unat b"
  shows "unat (upper_div a b) = (unat a - 1) div unat b + 1"
proof -
  have a: "unat (a - 1) = unat a - 1"
    using assms(1) by (simp add: unat_minus_one unat_gt_0)
  have "(unat a - 1) div unat b \<le> unat a - 1"
    by (rule div_le_dividend)
  moreover have "unat a < 2 ^ 64"
    using unsigned_less [of a] by simp
  ultimately have "(unat a - 1) div unat b + 1 < 2 ^ 64"
    using assms(1) by linarith
  then show ?thesis
    by (simp add: upper_div_def unat_word_ariths a)
qed

lemma upper_div_covers:
  assumes "0 < unat a" and "0 < unat b"
  shows "unat a \<le> unat (upper_div a b) * unat b"
    and "(unat (upper_div a b) - 1) * unat b < unat a"
proof -
  have m: "(unat a - 1) div unat b * unat b + (unat a - 1) mod unat b = unat a - 1"
    by simp
  have "(unat a - 1) mod unat b < unat b"
    using assms(2) by simp
  with m assms(1) have "unat a \<le> (unat a - 1) div unat b * unat b + unat b"
    by linarith
  then show "unat a \<le> unat (upper_div a b) * unat b"
    by (simp add: unat_upper_div [OF assms])
  have "(unat a - 1) div unat b * unat b \<le> unat a - 1"
    using m by linarith
  with assms(1) have "(unat a - 1) div unat b * unat b < unat a"
    by linarith
  then show "(unat (upper_div a b) - 1) * unat b < unat a"
    by (simp add: unat_upper_div [OF assms])
qed

lemma c_int_small:
  assumes "unat x < 2 ^ 31"
  shows "c_int x = x"
proof -
  have "unat (take_bit 31 x) = unat x"
    using assms by (simp add: unsigned_take_bit_eq take_bit_nat_eq_self)
  then have "take_bit 31 x = x"
    by (simp add: word_unat_eq_iff)
  then have low: "bit x n \<Longrightarrow> n < 31" for n
    by (metis bit_take_bit_iff)
  show ?thesis
    by (rule bit_word_eqI) (auto simp: c_int_def bit_simps min_def dest: low)
qed

section \<open>Masks\<close>

lemma nat_le_mask_iff: "(x::nat) \<le> mask k \<longleftrightarrow> x < 2 ^ k"
proof -
  have "0 < (2::nat) ^ k" by simp
  then show ?thesis unfolding mask_nat_def by linarith
qed

lemma unat_mask: "unat (mask n :: 'a::len word) = mask (min LENGTH('a) n)"
  by (simp flip: take_bit_minus_one_eq_mask
      add: unsigned_take_bit_eq unsigned_minus_1_eq_mask min.commute)

lemma word_le_mask_iff: "i \<le> mask n \<longleftrightarrow> take_bit n i = (i :: 'a::len word)"
proof -
  have "i \<le> mask n \<longleftrightarrow> unat i < 2 ^ min LENGTH('a) n"
    by (simp add: word_le_nat_alt unat_mask nat_le_mask_iff)
  also have "\<dots> \<longleftrightarrow> unat i < 2 ^ n"
    using order_less_le_trans [OF unsigned_less [of i] power_increasing [of "LENGTH('a)" n "2 :: nat"]]
    by (cases "LENGTH('a) \<le> n") (auto simp: min_def)
  also have "\<dots> \<longleftrightarrow> take_bit n i = i"
    by (simp add: word_unat_eq_iff unsigned_take_bit_eq take_bit_nat_eq_self_iff)
  finally show ?thesis .
qed

text \<open>Two 64-bit words agree below bit \<open>n\<close>.\<close>

lemma take_bit_eq_iff: "take_bit n i = take_bit n (j :: u64) \<longleftrightarrow> (\<forall>k<n. bit i k = bit j k)"
proof -
  have "\<not> bit i k \<and> \<not> bit j k" if "64 \<le> k" for k
    using that by (auto dest: bit_imp_le_length)
  then show ?thesis
    by (simp add: bit_eq_iff bit_simps) (meson not_less)
qed

end
