(* ===== verification/Interfaces.thy ===== *)
theory Interfaces
  imports Prelude
begin

text \<open>
  The contracts between components, as locales. Each is interpreted on the model of the
  component that provides it; the lemmas proved here once are what the clients use.

  \<^item> \<open>pointer_map\<close>: a map from 64-bit keys to non-null pointers with C-style results,
    provided by \<^verbatim>\<open>radix_tree.c\<close> and used by \<^verbatim>\<open>io_mm.c\<close>;
  \<^item> \<open>slot_table\<close>: a bounded table of numbered slots that are claimed and released,
    provided by the descriptor table of \<^verbatim>\<open>monopoly_ops.c\<close> and the buffer table of
    \<^verbatim>\<open>io_mm.c\<close>;
  \<^item> \<open>simulation\<close>: an implementation whose calls do what a specification says, call by call,
    provided by the calls on an open file;
  \<^item> \<open>loose_simulation\<close>: the same for a specification that leaves some results open and clients that
    react to what they get, provided by the whole file system.
\<close>

section \<open>Pointer maps\<close>

text \<open>C returns a possibly null pointer where the specification returns an option.\<close>

definition ptr_of :: "u64 option \<Rightarrow> u64" where
  "ptr_of v = (case v of None \<Rightarrow> 0 | Some x \<Rightarrow> x)"

lemma ptr_of_simps [simp]: "ptr_of None = 0" "ptr_of (Some x) = x"
  by (simp_all add: ptr_of_def)

definition EEXIST :: int where "EEXIST = 17"

datatype map_op = Put u64 u64 | Del u64

text \<open>A sequence of updates on an implementation, and on the map it stands for: an
  insertion under a key in use is refused and leaves the map alone.\<close>

fun map_run ::
  "('m \<Rightarrow> u64 \<Rightarrow> u64 \<Rightarrow> (int \<times> 'm) res) \<Rightarrow> ('m \<Rightarrow> u64 \<Rightarrow> (u64 \<times> 'm) res) \<Rightarrow> map_op list \<Rightarrow> 'm \<Rightarrow> 'm res"
where
  "map_run ins del [] m = Inr m"
| "map_run ins del (Put k v # ops) m = bind_res (ins m k v) (\<lambda>(e, m'). map_run ins del ops m')"
| "map_run ins del (Del k # ops) m = bind_res (del m k) (\<lambda>(x, m'). map_run ins del ops m')"

fun spec_run :: "map_op list \<Rightarrow> (u64 \<Rightarrow> u64 option) \<Rightarrow> u64 \<Rightarrow> u64 option" where
  "spec_run [] f = f"
| "spec_run (Put k v # ops) f = spec_run ops (if f k = None then f(k \<mapsto> v) else f)"
| "spec_run (Del k # ops) f = spec_run ops (f(k := None))"

locale pointer_map =
  fixes empty :: "'m"
    and lookup :: "'m \<Rightarrow> u64 \<Rightarrow> u64 res"
    and insert :: "'m \<Rightarrow> u64 \<Rightarrow> u64 \<Rightarrow> (int \<times> 'm) res"
    and delete :: "'m \<Rightarrow> u64 \<Rightarrow> (u64 \<times> 'm) res"
    and abs :: "'m \<Rightarrow> u64 \<Rightarrow> u64 option"
    and invar :: "'m \<Rightarrow> bool"
  assumes invar_empty: "invar empty"
    and abs_empty: "abs empty = Map.empty"
    and abs_nonnull: "invar m \<Longrightarrow> abs m k = Some x \<Longrightarrow> x \<noteq> 0"
    and lookup_abs: "invar m \<Longrightarrow> lookup m k = Inr (ptr_of (abs m k))"
    and insert_new: "invar m \<Longrightarrow> abs m k = None \<Longrightarrow> x \<noteq> 0 \<Longrightarrow>
          \<exists>m'. insert m k x = Inr (0, m') \<and> invar m' \<and> abs m' = (abs m)(k \<mapsto> x)"
    and insert_used: "invar m \<Longrightarrow> abs m k = Some y \<Longrightarrow> insert m k x = Inr (- EEXIST, m)"
    and delete_abs: "invar m \<Longrightarrow>
          \<exists>m'. delete m k = Inr (ptr_of (abs m k), m') \<and> invar m' \<and> abs m' = (abs m)(k := None)"
begin

lemma lookup_found: "invar m \<Longrightarrow> abs m k = Some x \<Longrightarrow> lookup m k = Inr x \<and> x \<noteq> 0"
  by (simp add: lookup_abs abs_nonnull)

lemma lookup_missing: "invar m \<Longrightarrow> abs m k = None \<Longrightarrow> lookup m k = Inr 0"
  by (simp add: lookup_abs)

lemma lookup_null_iff: "invar m \<Longrightarrow> lookup m k = Inr 0 \<longleftrightarrow> abs m k = None"
  by (cases "abs m k") (auto simp: lookup_abs dest: abs_nonnull)

text \<open>Inserting under a fresh key and deleting it again gives the map back, and the item.\<close>

lemma insert_delete:
  assumes "invar m" and "abs m k = None" and "x \<noteq> 0"
  shows "\<exists>m1 m2. insert m k x = Inr (0, m1) \<and> delete m1 k = Inr (x, m2) \<and> invar m2 \<and> abs m2 = abs m"
proof -
  obtain m1 where m1: "insert m k x = Inr (0, m1)" "invar m1" "abs m1 = (abs m)(k \<mapsto> x)"
    using insert_new [OF assms] by blast
  obtain m2 where "delete m1 k = Inr (ptr_of (abs m1 k), m2)" "invar m2" "abs m2 = (abs m1)(k := None)"
    using delete_abs [OF m1(2)] by blast
  with m1 assms(2) show ?thesis
    by (auto simp: fun_upd_idem)
qed

text \<open>A whole sequence of updates runs without a fault and refines the map updates.\<close>

lemma run_refines:
  "invar m \<Longrightarrow> (\<forall>k v. Put k v \<in> set ops \<longrightarrow> v \<noteq> 0) \<Longrightarrow>
     \<exists>m'. map_run insert delete ops m = Inr m' \<and> invar m' \<and> abs m' = spec_run ops (abs m)"
proof (induction ops arbitrary: m)
  case Nil
  then show ?case by simp
next
  case (Cons op ops)
  show ?case
  proof (cases op)
    case (Put k v)
    then have v: "v \<noteq> 0" using Cons.prems(2) by auto
    obtain e m1 where "insert m k v = Inr (e, m1)" "invar m1"
        "abs m1 = (if abs m k = None then (abs m)(k \<mapsto> v) else abs m)"
      using insert_new [OF Cons.prems(1) _ v, of k] insert_used [OF Cons.prems(1), of k]
        Cons.prems(1) by (cases "abs m k") auto
    then show ?thesis
      using Cons.IH [of m1] Cons.prems(2) Put by auto
  next
    case (Del k)
    obtain m1 where "delete m k = Inr (ptr_of (abs m k), m1)" "invar m1" "abs m1 = (abs m)(k := None)"
      using delete_abs [OF Cons.prems(1)] by blast
    then show ?thesis
      using Cons.IH [of m1] Cons.prems(2) Del by (auto simp del: fun_upd_apply)
  qed
qed

end

section \<open>Tables of numbered slots\<close>

datatype slot_req = Claim | Release nat

text \<open>A history of requests against a table; \<open>None\<close> as soon as a slot that is not in use
  is released. A claim that fails leaves the table as it is.\<close>

fun slot_run ::
  "('s \<Rightarrow> (nat \<times> 's) option) \<Rightarrow> (nat \<Rightarrow> 's \<Rightarrow> 's) \<Rightarrow> ('s \<Rightarrow> nat set) \<Rightarrow> slot_req list \<Rightarrow> 's \<Rightarrow> 's option"
where
  "slot_run claim release live [] s = Some s"
| "slot_run claim release live (Claim # rs) s =
     slot_run claim release live rs (case claim s of None \<Rightarrow> s | Some (i, s') \<Rightarrow> s')"
| "slot_run claim release live (Release i # rs) s =
     (if i \<in> live s then slot_run claim release live rs (release i s) else None)"

locale slot_table =
  fixes claim :: "'s \<Rightarrow> (nat \<times> 's) option"
    and release :: "nat \<Rightarrow> 's \<Rightarrow> 's"
    and live :: "'s \<Rightarrow> nat set"
    and cap :: nat
    and invar :: "'s \<Rightarrow> bool"
  assumes live_bound: "invar s \<Longrightarrow> live s \<subseteq> {..<cap}"
    and claim_fresh: "invar s \<Longrightarrow> claim s = Some (i, s') \<Longrightarrow>
          i < cap \<and> i \<notin> live s \<and> live s' = insert i (live s) \<and> invar s'"
    and release_live: "invar s \<Longrightarrow> i \<in> live s \<Longrightarrow>
          live (release i s) = live s - {i} \<and> invar (release i s)"
begin

lemma finite_live: "invar s \<Longrightarrow> finite (live s)"
  using live_bound finite_subset by blast

lemma card_live_le: "invar s \<Longrightarrow> card (live s) \<le> cap"
  using card_mono [OF _ live_bound] by fastforce

lemma claim_full: "invar s \<Longrightarrow> card (live s) = cap \<Longrightarrow> claim s = None"
proof (rule ccontr)
  assume inv: "invar s" and full: "card (live s) = cap" and "claim s \<noteq> None"
  then obtain i s' where c: "claim s = Some (i, s')" by auto
  have "i \<notin> live s" "live s' = insert i (live s)" "invar s'"
    using claim_fresh [OF inv c] by auto
  then show False
    using card_live_le [of s'] finite_live [OF inv] full by simp
qed

text \<open>Two slots claimed one after the other differ.\<close>

lemma claim_distinct:
  assumes "invar s" and "claim s = Some (i, s1)" and "claim s1 = Some (j, s2)"
  shows "i \<noteq> j" and "card (live s2) = card (live s) + 2"
proof -
  have 1: "i \<notin> live s" "live s1 = insert i (live s)" "invar s1"
    using claim_fresh [OF assms(1,2)] by auto
  have 2: "j \<notin> live s1" "live s2 = insert j (live s1)"
    using claim_fresh [OF 1(3) assms(3)] by auto
  show "i \<noteq> j" using 1 2 by auto
  show "card (live s2) = card (live s) + 2"
    using 1 2 finite_live [OF assms(1)] by auto
qed

lemma release_claimed:
  assumes "invar s" and "claim s = Some (i, s1)"
  shows "live (release i s1) = live s" and "invar (release i s1)"
proof -
  have "i \<notin> live s" "live s1 = insert i (live s)" "invar s1"
    using claim_fresh [OF assms] by auto
  then show "live (release i s1) = live s" "invar (release i s1)"
    using release_live [of s1 i] by auto
qed

lemma run_invar:
  "invar s \<Longrightarrow> slot_run claim release live rs s = Some s' \<Longrightarrow> invar s'"
proof (induction rs arbitrary: s)
  case Nil
  then show ?case by simp
next
  case (Cons r rs)
  show ?case
  proof (cases r)
    case Claim
    have "invar (case claim s of None \<Rightarrow> s | Some (i, s') \<Rightarrow> s')"
      using Cons.prems(1) claim_fresh by (auto split: option.splits)
    then show ?thesis using Cons Claim by simp
  next
    case (Release i)
    then have "i \<in> live s" "slot_run claim release live rs (release i s) = Some s'"
      using Cons.prems(2) by (simp_all split: if_splits)
    then show ?thesis using Cons.IH Cons.prems(1) release_live by blast
  qed
qed

end

section \<open>Simulations\<close>

text \<open>A sequence of calls on an implementation, which stops at the first fault, and on a specification,
  which is \<open>None\<close> as soon as a call is made that it says nothing about. Both collect the results.\<close>

fun run_calls :: "('o \<Rightarrow> 's \<Rightarrow> ('r \<times> 's) res) \<Rightarrow> 'o list \<Rightarrow> 's \<Rightarrow> ('r list \<times> 's) res" where
  "run_calls impl [] s = Inr ([], s)"
| "run_calls impl (c # cs) s =
     bind_res (impl c s) (\<lambda>(r, s1). bind_res (run_calls impl cs s1) (\<lambda>(rs, s2). Inr (r # rs, s2)))"

fun spec_calls :: "('o \<Rightarrow> 'a \<Rightarrow> ('r \<times> 'a) option) \<Rightarrow> 'o list \<Rightarrow> 'a \<Rightarrow> ('r list \<times> 'a) option" where
  "spec_calls spec [] a = Some ([], a)"
| "spec_calls spec (c # cs) a =
     (case spec c a of
        None \<Rightarrow> None
      | Some (r, a1) \<Rightarrow> (case spec_calls spec cs a1 of None \<Rightarrow> None | Some (rs, a2) \<Rightarrow> Some (r # rs, a2)))"

locale simulation =
  fixes spec :: "'o \<Rightarrow> 'a \<Rightarrow> ('r \<times> 'a) option"
    and impl :: "'o \<Rightarrow> 's \<Rightarrow> ('r \<times> 's) res"
    and rel :: "'a \<Rightarrow> 's \<Rightarrow> bool"
  assumes sim_step: "rel a s \<Longrightarrow> spec c a = Some (r, a') \<Longrightarrow> \<exists>s'. impl c s = Inr (r, s') \<and> rel a' s'"
begin

text \<open>What the specification allows, the implementation does, with the same results.\<close>

lemma calls_refine:
  "rel a s \<Longrightarrow> spec_calls spec cs a = Some (rs, a') \<Longrightarrow> \<exists>s'. run_calls impl cs s = Inr (rs, s') \<and> rel a' s'"
proof (induction cs arbitrary: a s rs)
  case Nil
  then show ?case by simp
next
  case (Cons c cs)
  obtain r a1 rs1 where spec: "spec c a = Some (r, a1)" "spec_calls spec cs a1 = Some (rs1, a')" "rs = r # rs1"
    using Cons.prems(2) by (auto split: option.splits)
  obtain s1 where s1: "impl c s = Inr (r, s1)" "rel a1 s1"
    using sim_step [OF Cons.prems(1) spec(1)] by blast
  then show ?case
    using Cons.IH [OF s1(2) spec(2)] spec(3) by auto
qed

end

text \<open>A client chooses its next call from the results it has got, and may stop. The specification may
  leave results open: a client is served when all its calls are allowed whatever the specification
  answers.\<close>

fun run_client :: "('o \<Rightarrow> 's \<Rightarrow> ('r \<times> 's) res) \<Rightarrow> ('r list \<Rightarrow> 'o option) \<Rightarrow> nat \<Rightarrow> 'r list \<Rightarrow> 's \<Rightarrow> ('r list \<times> 's) res"
where
  "run_client impl client 0 rs s = Inr (rs, s)"
| "run_client impl client (Suc n) rs s =
     (case client rs of
        None \<Rightarrow> Inr (rs, s)
      | Some c \<Rightarrow> bind_res (impl c s) (\<lambda>(r, s1). run_client impl client n (rs @ [r]) s1))"

fun client_served ::
  "('o \<Rightarrow> 'a \<Rightarrow> bool) \<Rightarrow> ('o \<Rightarrow> 'a \<Rightarrow> 'r \<Rightarrow> 'a \<Rightarrow> bool) \<Rightarrow> ('r list \<Rightarrow> 'o option) \<Rightarrow> nat \<Rightarrow> 'r list \<Rightarrow> 'a \<Rightarrow> bool"
where
  "client_served allowed spec client 0 rs a = True"
| "client_served allowed spec client (Suc n) rs a =
     (case client rs of
        None \<Rightarrow> True
      | Some c \<Rightarrow> allowed c a \<and> (\<forall>r a1. spec c a r a1 \<longrightarrow> client_served allowed spec client n (rs @ [r]) a1))"

fun client_result ::
  "('o \<Rightarrow> 'a \<Rightarrow> 'r \<Rightarrow> 'a \<Rightarrow> bool) \<Rightarrow> ('r list \<Rightarrow> 'o option) \<Rightarrow> nat \<Rightarrow> 'r list \<Rightarrow> 'a \<Rightarrow> 'r list \<Rightarrow> 'a \<Rightarrow> bool"
where
  "client_result spec client 0 rs a rs' a' = (rs' = rs \<and> a' = a)"
| "client_result spec client (Suc n) rs a rs' a' =
     (case client rs of
        None \<Rightarrow> rs' = rs \<and> a' = a
      | Some c \<Rightarrow> (\<exists>r a1. spec c a r a1 \<and> client_result spec client n (rs @ [r]) a1 rs' a'))"

locale loose_simulation =
  fixes allowed :: "'o \<Rightarrow> 'a \<Rightarrow> bool"
    and lspec :: "'o \<Rightarrow> 'a \<Rightarrow> 'r \<Rightarrow> 'a \<Rightarrow> bool"
    and limpl :: "'o \<Rightarrow> 's \<Rightarrow> ('r \<times> 's) res"
    and lrel :: "'a \<Rightarrow> 's \<Rightarrow> bool"
  assumes loose_step: "lrel a s \<Longrightarrow> allowed c a \<Longrightarrow> \<exists>r a' s'. limpl c s = Inr (r, s') \<and> lspec c a r a' \<and> lrel a' s'"
begin

lemma client_refine:
  "lrel a s \<Longrightarrow> client_served allowed lspec client n rs a \<Longrightarrow>
     \<exists>rs' a' s'. run_client limpl client n rs s = Inr (rs', s') \<and> client_result lspec client n rs a rs' a' \<and> lrel a' s'"
proof (induction n arbitrary: rs a s)
  case 0
  then show ?case by auto
next
  case (Suc n)
  show ?case
  proof (cases "client rs")
    case None
    then show ?thesis using Suc.prems(1) by auto
  next
    case (Some c)
    then obtain r a1 s1 where s1: "limpl c s = Inr (r, s1)" "lspec c a r a1" "lrel a1 s1"
      using loose_step [OF Suc.prems(1), of c] Suc.prems(2) by auto
    then have "client_served allowed lspec client n (rs @ [r]) a1" using Suc.prems(2) Some by simp
    from Suc.IH [OF s1(3) this] obtain rs' a' s' where
      "run_client limpl client n (rs @ [r]) s1 = Inr (rs', s')" "client_result lspec client n (rs @ [r]) a1 rs' a'"
      "lrel a' s'" by blast
    then show ?thesis using Some s1(1,2) by auto
  qed
qed

end

sublocale simulation \<subseteq> loose_simulation "\<lambda>c a. spec c a \<noteq> None" "\<lambda>c a r a'. spec c a = Some (r, a')" impl rel
proof
  fix a s c
  assume "rel a s" and "spec c a \<noteq> None"
  then show "\<exists>r a' s'. impl c s = Inr (r, s') \<and> spec c a = Some (r, a') \<and> rel a' s'"
    using sim_step by fastforce
qed

end
