(* ===== verification/Fs_Types.thy ===== *)
theory Fs_Types
  imports Interfaces
begin

text \<open>
  The structures of \<^verbatim>\<open>spdk_fs/fs.h\<close> and \<^verbatim>\<open>simple_fs/blob_op.c\<close>, and the boundary to the SPDK
  blobstore library. The library is a parameter of the model: an abstract state \<open>'b\<close> and
  the record of the calls the code makes on it. An asynchronous call submits a request; a
  poll of the thread may deliver the completion of the outstanding request. Nothing is
  assumed about these functions here; a property that relies on the library names what it
  relies on.
\<close>

section \<open>Persistent contexts\<close>

record spdkfs_file_persist_ctx =
  i_uid :: u32
  i_gid :: u32
  i_atime :: u64
  i_mtime :: u64
  i_ctime :: u64
  f_size :: u64
  i_writecount :: u32
  f_blob_id :: u64
  f_dirty :: bool

record spdkfs_dir_persist_ctx =
  d_mode :: u32
  d_atime :: u64
  d_mtime :: u64
  d_ctime :: u64
  d_dirent_count :: u64
  d_size :: u64
  d_blob_id :: u64

text \<open>The value of an extended attribute is the memory image of one of the two structures, or
  bytes that neither this code nor its types describe. \<open>xattr_len\<close> is its length: the
  \<^verbatim>\<open>sizeof\<close> of the two structures on the 64-bit ABI.\<close>

datatype xattr_value =
    File_ctx spdkfs_file_persist_ctx
  | Dir_ctx spdkfs_dir_persist_ctx
  | Raw "u8 list"

definition sizeof_file_ctx :: u64 where "sizeof_file_ctx = 64"

definition sizeof_dir_ctx :: u64 where "sizeof_dir_ctx = 56"

fun xattr_len :: "xattr_value \<Rightarrow> u64" where
  "xattr_len (File_ctx p) = sizeof_file_ctx"
| "xattr_len (Dir_ctx p) = sizeof_dir_ctx"
| "xattr_len (Raw bs) = of_nat (length bs)"

section \<open>The blobstore library\<close>

text \<open>A \<^verbatim>\<open>struct spdk_blob *\<close> is its address, 0 when null.\<close>

type_synonym blob = u64
type_synonym blob_id = u64

datatype request =
    Bs_create_blob
  | Bs_open_blob blob_id
  | Bs_delete_blob blob_id
  | Blob_close blob
  | Blob_io_read blob u64 u64            \<comment> \<open>offset and length in io units\<close>
  | Blob_io_write blob u64 u64 "u8 list" \<comment> \<open>and the memory at the buffer\<close>
  | Blob_resize blob u64
  | Blob_sync_md blob
  | Bs_unload
  | Subsystem_fini

text \<open>What a completion callback receives: the error number, the id or handle of the blob when
  the request has one, and the bytes the library put into the buffer of a read.\<close>

record completion =
  bserrno :: int
  c_blobid :: blob_id
  c_blob :: blob
  c_data :: "u8 list"

record 'b spdk =
  submit :: "request \<Rightarrow> 'b \<Rightarrow> 'b"
  poll_lib :: "'b \<Rightarrow> 'b \<times> completion option"
  num_clusters :: "'b \<Rightarrow> blob \<Rightarrow> u64"
  cluster_size :: "'b \<Rightarrow> u64"
  io_unit_size :: "'b \<Rightarrow> u64"
  get_id :: "'b \<Rightarrow> blob \<Rightarrow> blob_id"
  set_xattr :: "blob \<Rightarrow> string \<Rightarrow> xattr_value \<Rightarrow> 'b \<Rightarrow> 'b"
  free_io_channel :: "'b \<Rightarrow> 'b"
  get_xattr :: "'b \<Rightarrow> blob \<Rightarrow> string \<Rightarrow> xattr_value option"

text \<open>\<open>lib_completes L k b c b'\<close>: from the state \<open>b\<close> the library stays silent for \<open>k\<close> polls and
  delivers the completion \<open>c\<close> with the next, which leaves it in \<open>b'\<close>.\<close>

fun lib_completes :: "'b spdk \<Rightarrow> nat \<Rightarrow> 'b \<Rightarrow> completion \<Rightarrow> 'b \<Rightarrow> bool" where
  "lib_completes L 0 b c b' \<longleftrightarrow> poll_lib L b = (b', Some c)"
| "lib_completes L (Suc k) b c b' \<longleftrightarrow>
     snd (poll_lib L b) = None \<and> lib_completes L k (fst (poll_lib L b)) c b'"

text \<open>The library stays silent for \<open>n\<close> polls.\<close>

fun lib_silent :: "'b spdk \<Rightarrow> nat \<Rightarrow> 'b \<Rightarrow> bool" where
  "lib_silent L 0 b \<longleftrightarrow> True"
| "lib_silent L (Suc n) b \<longleftrightarrow> snd (poll_lib L b) = None \<and> lib_silent L n (fst (poll_lib L b))"

section \<open>Operation contexts\<close>

text \<open>\<^verbatim>\<open>struct fs_blob_ctx\<close> and \<^verbatim>\<open>struct blob_rw_ctx\<close>; both point to a \<^verbatim>\<open>done\<close> flag on the stack of
  the caller, which is the field \<open>done_flag\<close> of the thread below.\<close>

record fs_blob_ctx =
  fs_errno :: int
  op_blob :: blob
  op_blob_id :: blob_id

record blob_rw_ctx =
  blob_errno :: int
  rw_blob :: blob
  rw_offset :: u64
  rw_size :: u64
  rw_buffer :: "u8 list"
  rw_read :: bool

text \<open>The functions that are sent to the thread as messages, and the completion callbacks.\<close>

datatype msg = Alloc_blob | Open_blob | Close_blob | Io_blob | Resize_blob | Unlink_blob | Unload_bs_fn | Stop_subsystem

datatype callback =
    Create_blob_finished
  | Open_blob_finished
  | Delete_blob_finished
  | Open_blob_complete
  | Close_blob_complete
  | Io_blob_complete
  | Resize_blob_complete
  | Spdk_blob_sync_complete
  | Unload_complete_cb
  | Stop_subsystem_complete_cb
  | Cleanup_finished_cb

record 'b thread =
  lib :: 'b
  message :: "msg option"
  waiting :: "callback option"
  fs_ctx :: fs_blob_ctx
  rw_ctx :: blob_rw_ctx
  done_flag :: bool

end
