(* ===== verification/Poller.thy ===== *)
theory Poller
  imports Fs_Types
begin

text \<open>
  \<^verbatim>\<open>simple_fs/thread_poller.c\<close>: every blobstore operation sends a function to the thread and
  polls the thread until the operation's \<^verbatim>\<open>done\<close> flag is set, at most
  \<^verbatim>\<open>POLLER_MAX_TIME\<close> times. The model is generic in the state, in the effect of sending the
  message, in the poll (which may fault) and in the flag.
\<close>

definition POLLER_MAX_TIME :: nat where "POLLER_MAX_TIME = 100000000"

text \<open>The \<^verbatim>\<open>do ... while\<close> loop, from \<open>poller_count\<close>; the result is the final count and state.\<close>

function poll_loop :: "('s \<Rightarrow> 's res) \<Rightarrow> ('s \<Rightarrow> bool) \<Rightarrow> nat \<Rightarrow> 's \<Rightarrow> (nat \<times> 's) res" where
  "poll_loop poll is_done count s =
     (case poll s of
        Inl f \<Rightarrow> Inl f
      | Inr s' \<Rightarrow>
          if \<not> is_done s' \<and> Suc count < POLLER_MAX_TIME
          then poll_loop poll is_done (Suc count) s'
          else Inr (Suc count, s'))"
  by pat_completeness auto
termination
  by (relation "measure (\<lambda>(poll, is_done, count, s). POLLER_MAX_TIME - count)") auto

declare poll_loop.simps [simp del]

definition generic_poller ::
  "('s \<Rightarrow> 's) \<Rightarrow> ('s \<Rightarrow> 's res) \<Rightarrow> ('s \<Rightarrow> bool) \<Rightarrow> 's \<Rightarrow> (bool \<times> 's) res" where
  "generic_poller send poll is_done s =
     bind_res (poll_loop poll is_done 0 (send s)) (\<lambda>(count, s').
       Inr (if \<not> is_done s' \<and> POLLER_MAX_TIME \<le> count then False else True, s'))"

section \<open>The loop as an iteration\<close>

fun polls :: "('s \<Rightarrow> 's res) \<Rightarrow> nat \<Rightarrow> 's \<Rightarrow> 's res" where
  "polls poll 0 s = Inr s"
| "polls poll (Suc n) s = bind_res (poll s) (polls poll n)"

text \<open>The flag is down after every one of the first \<open>n\<close> polls.\<close>

definition undone_for :: "('s \<Rightarrow> 's res) \<Rightarrow> ('s \<Rightarrow> bool) \<Rightarrow> nat \<Rightarrow> 's \<Rightarrow> bool" where
  "undone_for poll is_done n s \<longleftrightarrow>
     (\<forall>k \<in> {1..n}. \<exists>s'. polls poll k s = Inr s' \<and> \<not> is_done s')"

lemma undone_Suc:
  "undone_for poll is_done (Suc n) s \<longleftrightarrow>
     (\<exists>s'. poll s = Inr s' \<and> \<not> is_done s' \<and> undone_for poll is_done n s')"
proof
  assume u: "undone_for poll is_done (Suc n) s"
  have "(1::nat) \<in> {1..Suc n}" by simp
  then obtain s' where s': "poll s = Inr s'" "\<not> is_done s'"
    using u unfolding undone_for_def by (auto simp: bind_res_Inr_iff dest!: bspec [of _ _ 1])
  have "\<exists>t. polls poll k s' = Inr t \<and> \<not> is_done t" if "k \<in> {1..n}" for k
  proof -
    have "Suc k \<in> {1..Suc n}" using that by simp
    then have "\<exists>t. polls poll (Suc k) s = Inr t \<and> \<not> is_done t"
      using u unfolding undone_for_def by (rule bspec [rotated])
    then show ?thesis using s'(1) by simp
  qed
  then show "\<exists>s'. poll s = Inr s' \<and> \<not> is_done s' \<and> undone_for poll is_done n s'"
    using s' by (auto simp: undone_for_def)
next
  assume "\<exists>s'. poll s = Inr s' \<and> \<not> is_done s' \<and> undone_for poll is_done n s'"
  then obtain s' where s': "poll s = Inr s'" "\<not> is_done s'" "undone_for poll is_done n s'" by blast
  have "\<exists>t. polls poll k s = Inr t \<and> \<not> is_done t" if "k \<in> {1..Suc n}" for k
  proof (cases "k = 1")
    case False
    then have "k = Suc (k - 1)" "k - 1 \<in> {1..n}" using that by auto
    then obtain j where "k = Suc j" "j \<in> {1..n}" by blast
    then show ?thesis using s' by (auto simp: undone_for_def)
  qed (use s' in simp)
  then show "undone_for poll is_done (Suc n) s" by (auto simp: undone_for_def)
qed

lemma poll_loop_skip:
  "undone_for poll is_done n s \<Longrightarrow> count + n < POLLER_MAX_TIME \<Longrightarrow> polls poll n s = Inr s' \<Longrightarrow>
     poll_loop poll is_done count s = poll_loop poll is_done (count + n) s'"
proof (induction n arbitrary: count s)
  case 0
  then show ?case by simp
next
  case (Suc n)
  then obtain t where t: "poll s = Inr t" "\<not> is_done t" "undone_for poll is_done n t"
    by (auto simp: undone_Suc)
  then show ?case
    using Suc.IH [OF t(3), of "Suc count"] Suc.prems
    by (subst poll_loop.simps) simp
qed

lemma polls_Suc_end: "polls poll (Suc n) s = bind_res (polls poll n s) poll"
proof (induction n arbitrary: s)
  case 0
  then show ?case by (cases "poll s") simp_all
next
  case (Suc n)
  then show ?case by (cases "poll s") simp_all
qed

lemma polls_add: "polls poll (m + n) s = bind_res (polls poll m s) (polls poll n)"
proof (induction m arbitrary: s)
  case (Suc m)
  then show ?case by (cases "poll s") simp_all
qed simp

lemma undone_add:
  "undone_for poll is_done m s \<Longrightarrow> polls poll m s = Inr s' \<Longrightarrow> undone_for poll is_done n s' \<Longrightarrow>
     undone_for poll is_done (m + n) s"
proof (induction m arbitrary: s)
  case (Suc m)
  then show ?case by (auto simp: undone_Suc)
qed simp

lemma undone_snoc:
  assumes "undone_for poll is_done n s" and "polls poll (Suc n) s = Inr t" and "\<not> is_done t"
  shows "undone_for poll is_done (Suc n) s"
  using assms unfolding undone_for_def by (auto simp del: polls.simps simp: le_Suc_eq)

lemma undone_0 [simp]: "undone_for poll is_done 0 s"
  by (simp add: undone_for_def)

lemma undone_polls:
  assumes "undone_for poll is_done (Suc n) s"
  shows "\<exists>s'. polls poll (Suc n) s = Inr s' \<and> \<not> is_done s'"
proof -
  have "Suc n \<in> {1..Suc n}" by simp
  then show ?thesis
    using assms unfolding undone_for_def by blast
qed

lemma undone_mono: "undone_for poll is_done n s \<Longrightarrow> m \<le> n \<Longrightarrow> undone_for poll is_done m s"
  by (auto simp: undone_for_def)

lemma undone_never: "(\<And>t. poll t = Inr (f t)) \<Longrightarrow> (\<And>t. \<not> is_done (f t)) \<Longrightarrow>
    undone_for poll is_done n s"
proof (induction n arbitrary: s)
  case 0
  then show ?case by (simp add: undone_for_def)
qed (simp add: undone_Suc)

lemma poller_max_pos [simp]: "0 < POLLER_MAX_TIME"
  by (simp add: POLLER_MAX_TIME_def)

lemma poller_done_aux:
  assumes "undone_for poll is_done n (send s)" and "polls poll (Suc n) (send s) = Inr s'"
    and "is_done s'" and "n < POLLER_MAX_TIME"
  shows "generic_poller send poll is_done s = Inr (True, s')"
proof -
  obtain t where t: "polls poll n (send s) = Inr t" "poll t = Inr s'"
    using assms(2) unfolding polls_Suc_end bind_res_Inr_iff by blast
  have "poll_loop poll is_done 0 (send s) = poll_loop poll is_done n t"
    using poll_loop_skip [OF assms(1) _ t(1), of 0] assms(4) by simp
  also have "\<dots> = Inr (Suc n, s')"
    using t(2) assms(3) by (subst poll_loop.simps) simp
  finally show ?thesis
    using assms(3) by (simp add: generic_poller_def)
qed

lemma poller_gives_up_exists:
  assumes "undone_for poll is_done POLLER_MAX_TIME (send s)"
  shows "\<exists>s'. polls poll POLLER_MAX_TIME (send s) = Inr s'
           \<and> generic_poller send poll is_done s = Inr (False, s')"
proof -
  define n where "n = POLLER_MAX_TIME - 1"
  have n: "POLLER_MAX_TIME = Suc n"
    by (simp add: n_def)
  obtain s' where s': "polls poll (Suc n) (send s) = Inr s'" "\<not> is_done s'"
    using undone_polls [of poll is_done n "send s"] assms n by auto
  then obtain t where t: "polls poll n (send s) = Inr t" "poll t = Inr s'"
    unfolding polls_Suc_end bind_res_Inr_iff by blast
  have "undone_for poll is_done n (send s)"
    using undone_mono [OF assms] n by simp
  then have "poll_loop poll is_done 0 (send s) = poll_loop poll is_done n t"
    using poll_loop_skip [of poll is_done n "send s" 0 t] t(1) n by simp
  also have "\<dots> = Inr (Suc n, s')"
    using t(2) n by (subst poll_loop.simps) simp
  finally show ?thesis
    using s' n by (simp add: generic_poller_def)
qed

lemma poller_gives_up_aux:
  assumes "undone_for poll is_done POLLER_MAX_TIME (send s)"
    and "polls poll POLLER_MAX_TIME (send s) = Inr s'"
  shows "generic_poller send poll is_done s = Inr (False, s')"
  using poller_gives_up_exists [of poll is_done send s, OF assms(1)] assms(2) by auto

section \<open>Properties\<close>

text \<open>The poller polls until the flag is up: if that takes \<open>n + 1\<close> polls, no more than
  \<open>POLLER_MAX_TIME\<close>, it returns true in exactly the state those polls lead to. A flag that is
  already up when the poller is entered does not matter: the first poll always happens.\<close>

theorem poller_returns_when_done:
  assumes "undone_for poll is_done n (send s)" and "polls poll (Suc n) (send s) = Inr s'"
    and "is_done s'" and "n < POLLER_MAX_TIME"
  shows "generic_poller send poll is_done s = Inr (True, s')"
  using assms by (rule poller_done_aux [where send = send])

theorem poller_returns_when_done_witness:
  "generic_poller (\<lambda>s. s) (\<lambda>s. Inr (Suc s)) (\<lambda>s. 3 \<le> s) (0 :: nat) = Inr (True, 3)"
  by (rule poller_returns_when_done [where n = 2])
    (simp_all add: numeral_2_eq_2 numeral_3_eq_3 undone_Suc, simp_all add: undone_for_def POLLER_MAX_TIME_def)

text \<open>The bound: if the flag stays down for \<open>POLLER_MAX_TIME\<close> polls, the poller gives up
  after exactly that many and returns false. The operation it waited for is still outstanding in
  the state it returns.\<close>

theorem poller_gives_up:
  assumes "undone_for poll is_done POLLER_MAX_TIME (send s)"
  shows "\<exists>s'. polls poll POLLER_MAX_TIME (send s) = Inr s'
           \<and> generic_poller send poll is_done s = Inr (False, s')"
  using assms by (rule poller_gives_up_exists [where send = send])

theorem poller_gives_up_witness:
  "\<exists>s'. polls Inr POLLER_MAX_TIME (0 :: nat) = Inr s'
     \<and> generic_poller (\<lambda>s. s) Inr (\<lambda>_. False) 0 = Inr (False, s')"
  by (rule poller_gives_up) (rule undone_never, simp_all)

end
