(* ===== verification/Mem_Store.thy ===== *)
theory Mem_Store
  imports Fs_Types
begin

text \<open>
  A small in-memory blobstore: one concrete value of the library parameter, on which the
  hypotheses of the properties are shown to be satisfiable. It executes every request when it
  is submitted and delivers the completion with the next poll. It does not model the SPDK
  library; nothing is proved from it but the examples.
\<close>

record mem_bs =
  bs_data :: "blob_id \<Rightarrow> u8 list option"
  bs_xattr :: "blob_id \<Rightarrow> string \<Rightarrow> xattr_value option"
  bs_next :: blob_id
  bs_pending :: "completion option"

definition mem_empty :: mem_bs where
  "mem_empty = \<lparr>bs_data = Map.empty, bs_xattr = (\<lambda>_. Map.empty), bs_next = 1, bs_pending = None\<rparr>"

definition answer :: "int \<Rightarrow> blob_id \<Rightarrow> u8 list \<Rightarrow> completion option" where
  "answer e i bs = Some \<lparr>bserrno = e, c_blobid = i, c_blob = i, c_data = bs\<rparr>"

text \<open>\<open>u\<close> is the io unit and \<open>cl\<close> the cluster size, both in bytes; a blob's handle is its id.\<close>

fun mem_submit :: "nat \<Rightarrow> nat \<Rightarrow> request \<Rightarrow> mem_bs \<Rightarrow> mem_bs" where
  "mem_submit u cl Bs_create_blob b =
     b\<lparr>bs_data := (bs_data b)(bs_next b \<mapsto> []), bs_next := bs_next b + 1,
       bs_pending := answer 0 (bs_next b) []\<rparr>"
| "mem_submit u cl (Bs_open_blob i) b =
     b\<lparr>bs_pending := (if bs_data b i = None then answer (- 2) 0 [] else answer 0 i [])\<rparr>"
| "mem_submit u cl (Bs_delete_blob i) b =
     b\<lparr>bs_pending := answer (if bs_data b i = None then - 2 else 0) i [], bs_data := (bs_data b)(i := None)\<rparr>"
| "mem_submit u cl (Blob_close i) b = b\<lparr>bs_pending := answer 0 i []\<rparr>"
| "mem_submit u cl (Blob_sync_md i) b = b\<lparr>bs_pending := answer 0 i []\<rparr>"
| "mem_submit u cl Bs_unload b = b\<lparr>bs_pending := answer 0 0 []\<rparr>"
| "mem_submit u cl Subsystem_fini b = b\<lparr>bs_pending := answer 0 0 []\<rparr>"
| "mem_submit u cl (Blob_resize i n) b =
     b\<lparr>bs_data := (bs_data b)(i := map_option (\<lambda>d. take (unat n * cl) d @ replicate (unat n * cl - length d) 0) (bs_data b i)),
       bs_pending := answer 0 i []\<rparr>"
| "mem_submit u cl (Blob_io_read i off n) b =
     (case bs_data b i of
        None \<Rightarrow> b\<lparr>bs_pending := answer (- 2) i []\<rparr>
      | Some d \<Rightarrow>
          if length d < (unat off + unat n) * u then b\<lparr>bs_pending := answer (- 22) i []\<rparr>
          else b\<lparr>bs_pending := answer 0 i (take (unat n * u) (drop (unat off * u) d))\<rparr>)"
| "mem_submit u cl (Blob_io_write i off n bs) b =
     (case bs_data b i of
        None \<Rightarrow> b\<lparr>bs_pending := answer (- 2) i []\<rparr>
      | Some d \<Rightarrow>
          if length d < (unat off + unat n) * u then b\<lparr>bs_pending := answer (- 22) i []\<rparr>
          else b\<lparr>bs_pending := answer 0 i [],
                 bs_data := (bs_data b)(i \<mapsto> take (unat off * u) d @ bs @ drop (unat off * u + length bs) d)\<rparr>)"

definition mem_lib :: "nat \<Rightarrow> nat \<Rightarrow> mem_bs spdk" where
  "mem_lib u cl = \<lparr>submit = mem_submit u cl,
     poll_lib = (\<lambda>b. (b\<lparr>bs_pending := None\<rparr>, bs_pending b)),
     num_clusters = (\<lambda>b i. case bs_data b i of None \<Rightarrow> 0 | Some d \<Rightarrow> of_nat (length d div cl)),
     cluster_size = (\<lambda>_. of_nat cl),
     io_unit_size = (\<lambda>_. of_nat u),
     get_id = (\<lambda>b i. i),
     set_xattr = (\<lambda>i n v b. b\<lparr>bs_xattr := (bs_xattr b)(i := (bs_xattr b i)(n \<mapsto> v))\<rparr>),
     free_io_channel = (\<lambda>b. b), get_xattr = (\<lambda>b i n. bs_xattr b i n)\<rparr>"

lemma mem_lib_simps [simp]:
  "submit (mem_lib u cl) = mem_submit u cl"
  "poll_lib (mem_lib u cl) b = (b\<lparr>bs_pending := None\<rparr>, bs_pending b)"
  "cluster_size (mem_lib u cl) b = of_nat cl"
  "io_unit_size (mem_lib u cl) b = of_nat u"
  "get_id (mem_lib u cl) b i = i"
  "num_clusters (mem_lib u cl) b i = (case bs_data b i of None \<Rightarrow> 0 | Some d \<Rightarrow> of_nat (length d div cl))"
  "set_xattr (mem_lib u cl) i n v b = b\<lparr>bs_xattr := (bs_xattr b)(i := (bs_xattr b i)(n \<mapsto> v))\<rparr>"
  "get_xattr (mem_lib u cl) b i n = bs_xattr b i n"
  "free_io_channel (mem_lib u cl) b = b"
  by (simp_all add: mem_lib_def)

lemma mem_completes:
  assumes "bs_pending b = Some c"
  shows "lib_completes (mem_lib u cl) 0 b c (b\<lparr>bs_pending := None\<rparr>)"
  using assms by simp

text \<open>A library that never answers.\<close>

definition dead_lib :: "unit spdk" where
  "dead_lib = \<lparr>submit = (\<lambda>_ b. b), poll_lib = (\<lambda>b. (b, None)), num_clusters = (\<lambda>_ _. 1),
     cluster_size = (\<lambda>_. 1024), io_unit_size = (\<lambda>_. 512), get_id = (\<lambda>_ i. i),
     set_xattr = (\<lambda>_ _ _ b. b), free_io_channel = (\<lambda>b. b), get_xattr = (\<lambda>_ _ _. None)\<rparr>"

lemma dead_lib_simps [simp]:
  "submit dead_lib r b = b" "poll_lib dead_lib b = (b, None)" "io_unit_size dead_lib b = 512"
  by (simp_all add: dead_lib_def)

text \<open>A library that answers every request with the error \<open>- e\<close>; the state is the pending answer.\<close>

definition full_lib :: "int \<Rightarrow> int option spdk" where
  "full_lib e = \<lparr>submit = (\<lambda>_ _. Some e),
     poll_lib = (\<lambda>b. (None, map_option (\<lambda>e. \<lparr>bserrno = - e, c_blobid = 0, c_blob = 0, c_data = []\<rparr>) b)),
     num_clusters = (\<lambda>_ _. 1), cluster_size = (\<lambda>_. 1024), io_unit_size = (\<lambda>_. 512), get_id = (\<lambda>_ i. i),
     set_xattr = (\<lambda>_ _ _ b. b), free_io_channel = (\<lambda>b. b), get_xattr = (\<lambda>_ _ _. None)\<rparr>"

lemma dead_lib_silent: "lib_silent dead_lib n b"
  by (induction n) simp_all

end
