(* ===== verification/Blob_Op.thy ===== *)
theory Blob_Op
  imports Poller Mem_Store
begin

text \<open>
  \<^verbatim>\<open>simple_fs/blob_op.c\<close> and the callbacks of \<^verbatim>\<open>simple_fs/super.c\<close>: the synchronous
  operations on blobs, built from asynchronous requests to the blobstore library. Each
  operation puts its context and its \<^verbatim>\<open>done\<close> flag on the stack, sends a function to the thread
  and runs the poller; the function makes a request, whose completion callback fills the
  context and raises the flag or makes the next request of a chain.

  A poll of the thread runs the pending message, if there is one, and then delivers at most
  one completion. A request that the library completes within the call is one that completes
  in the same poll. An operation that starts while an earlier one, given up by the poller, is
  still outstanding is a fault: the completion of the earlier one writes to a dead stack frame.
\<close>

section \<open>Requests and callbacks\<close>

definition make_request :: "'b spdk \<Rightarrow> request \<Rightarrow> callback \<Rightarrow> 'b thread \<Rightarrow> 'b thread res" where
  "make_request L r cb th =
     (if waiting th \<noteq> None then Inl Stale_context
      else Inr (th\<lparr>lib := submit L r (lib th), waiting := Some cb\<rparr>))"

definition io_blob :: "'b spdk \<Rightarrow> 'b thread \<Rightarrow> 'b thread res" where
  "io_blob L th =
     (let ctx = rw_ctx th; io_unit = io_unit_size L (lib th);
          off = rw_offset ctx div io_unit; n = upper_div (rw_size ctx) io_unit
      in if io_unit = 0 then Inl Div_by_zero
         else if rw_read ctx then
           make_request L (Blob_io_read (rw_blob ctx) off n) Io_blob_complete th
         else if length (rw_buffer ctx) < unat n * unat io_unit then Inl Out_of_bounds
         else make_request L
           (Blob_io_write (rw_blob ctx) off n (take (unat n * unat io_unit) (rw_buffer ctx)))
           Io_blob_complete th)"

definition resize_blob :: "'b spdk \<Rightarrow> 'b thread \<Rightarrow> 'b thread res" where
  "resize_blob L th =
     (let ctx = rw_ctx th; resize_unit = cluster_size L (lib th)
      in if rw_size ctx = 0 then Inl Assert_failed
         else if resize_unit = 0 then Inl Div_by_zero
         else make_request L (Blob_resize (rw_blob ctx) (upper_div (rw_size ctx) resize_unit))
           Resize_blob_complete th)"

text \<open>The other functions that are sent to the thread. The file system allocates and frees a blob through
  the table of its operations, which \<^verbatim>\<open>load_fs_operations\<close> of \<^verbatim>\<open>super.c\<close> stores in it.\<close>

definition simple_fs_alloc_blob :: "'b spdk \<Rightarrow> 'b thread \<Rightarrow> 'b thread res" where
  "simple_fs_alloc_blob L th =
     make_request L Bs_create_blob Create_blob_finished th"

definition simple_fs_free_blob :: "'b spdk \<Rightarrow> 'b thread \<Rightarrow> 'b thread res" where
  "simple_fs_free_blob L th =
     make_request L (Bs_delete_blob (op_blob_id (fs_ctx th))) Delete_blob_finished th"

record 'b spdk_fs_operations =
  op_alloc_blob :: "'b thread \<Rightarrow> 'b thread res"
  op_free_blob :: "'b thread \<Rightarrow> 'b thread res"

definition simple_fs_operations :: "'b spdk \<Rightarrow> 'b spdk_fs_operations" where
  "simple_fs_operations L = \<lparr>op_alloc_blob = simple_fs_alloc_blob L, op_free_blob = simple_fs_free_blob L\<rparr>"

definition alloc_blob :: "'b spdk \<Rightarrow> 'b thread \<Rightarrow> 'b thread res" where
  "alloc_blob L th =
     op_alloc_blob (simple_fs_operations L) th"

definition open_blob :: "'b spdk \<Rightarrow> 'b thread \<Rightarrow> 'b thread res" where
  "open_blob L th =
     make_request L (Bs_open_blob (op_blob_id (fs_ctx th))) Open_blob_complete th"

definition close_blob :: "'b spdk \<Rightarrow> 'b thread \<Rightarrow> 'b thread res" where
  "close_blob L th =
     make_request L (Blob_close (op_blob (fs_ctx th))) Close_blob_complete th"

definition unlink_blob :: "'b spdk \<Rightarrow> 'b thread \<Rightarrow> 'b thread res" where
  "unlink_blob L th =
     op_free_blob (simple_fs_operations L) th"

definition unload_bs_fn :: "'b spdk \<Rightarrow> 'b thread \<Rightarrow> 'b thread res" where
  "unload_bs_fn L th =
     make_request L Bs_unload Unload_complete_cb (th\<lparr>lib := free_io_channel L (lib th)\<rparr>)"

definition stop_subsystem :: "'b spdk \<Rightarrow> 'b thread \<Rightarrow> 'b thread res" where
  "stop_subsystem L th =
     make_request L Subsystem_fini Stop_subsystem_complete_cb th"

fun run_msg :: "'b spdk \<Rightarrow> msg \<Rightarrow> 'b thread \<Rightarrow> 'b thread res" where
  "run_msg L Alloc_blob = alloc_blob L"
| "run_msg L Open_blob = open_blob L"
| "run_msg L Close_blob = close_blob L"
| "run_msg L Io_blob = io_blob L"
| "run_msg L Resize_blob = resize_blob L"
| "run_msg L Unlink_blob = unlink_blob L"
| "run_msg L Unload_bs_fn = unload_bs_fn L"
| "run_msg L Stop_subsystem = stop_subsystem L"

lemmas msg_defs [simp] = simple_fs_operations_def simple_fs_alloc_blob_def simple_fs_free_blob_def alloc_blob_def open_blob_def
  close_blob_def unlink_blob_def unload_bs_fn_def stop_subsystem_def

definition set_fs_errno :: "int \<Rightarrow> 'b thread \<Rightarrow> 'b thread" where
  "set_fs_errno e th = th\<lparr>fs_ctx := (fs_ctx th)\<lparr>fs_errno := e\<rparr>\<rparr>"

definition set_op_blob :: "blob \<Rightarrow> 'b thread \<Rightarrow> 'b thread" where
  "set_op_blob blb th = th\<lparr>fs_ctx := (fs_ctx th)\<lparr>op_blob := blb\<rparr>\<rparr>"

definition set_blob_errno :: "int \<Rightarrow> 'b thread \<Rightarrow> 'b thread" where
  "set_blob_errno e th = th\<lparr>rw_ctx := (rw_ctx th)\<lparr>blob_errno := e\<rparr>\<rparr>"

definition raise_done :: "'b thread \<Rightarrow> 'b thread" where
  "raise_done th = th\<lparr>done_flag := True\<rparr>"

text \<open>By the time a read completes the library has put its bytes into the buffer.\<close>

definition fill_buffer :: "u8 list \<Rightarrow> 'b thread \<Rightarrow> 'b thread res" where
  "fill_buffer bs th =
     (if \<not> rw_read (rw_ctx th) then Inr th
      else if length (rw_buffer (rw_ctx th)) < length bs then Inl Out_of_bounds
      else Inr (th\<lparr>rw_ctx := (rw_ctx th)\<lparr>rw_buffer := bs @ drop (length bs) (rw_buffer (rw_ctx th))\<rparr>\<rparr>))"

text \<open>The completion callbacks.\<close>

definition create_blob_finished :: "'b spdk \<Rightarrow> completion \<Rightarrow> 'b thread \<Rightarrow> 'b thread res" where
  "create_blob_finished L c th =
     (if bserrno c \<noteq> 0 then Inr (raise_done (set_fs_errno (bserrno c) th))
      else make_request L (Bs_open_blob (c_blobid c)) Open_blob_finished th)"

definition open_blob_finished :: "completion \<Rightarrow> 'b thread \<Rightarrow> 'b thread res" where
  "open_blob_finished c th =
     (if bserrno c \<noteq> 0 then Inr (raise_done (set_fs_errno (bserrno c) th))
      else Inr (raise_done (set_fs_errno (bserrno c) (set_op_blob (c_blob c) th))))"

definition delete_blob_finished :: "completion \<Rightarrow> 'b thread \<Rightarrow> 'b thread res" where
  "delete_blob_finished c th =
     Inr (raise_done (if bserrno c \<noteq> 0 then set_fs_errno (bserrno c) th else th))"

definition open_blob_complete :: "completion \<Rightarrow> 'b thread \<Rightarrow> 'b thread res" where
  "open_blob_complete c th =
     Inr (raise_done (set_op_blob (c_blob c) (set_fs_errno (bserrno c) th)))"

definition close_blob_complete :: "completion \<Rightarrow> 'b thread \<Rightarrow> 'b thread res" where
  "close_blob_complete c th =
     Inr (raise_done (set_fs_errno (bserrno c) th))"

definition io_blob_complete :: "completion \<Rightarrow> 'b thread \<Rightarrow> 'b thread res" where
  "io_blob_complete c th =
     bind_res (fill_buffer (c_data c) th) (\<lambda>th. Inr (raise_done (set_blob_errno (bserrno c) th)))"

definition resize_blob_complete :: "'b spdk \<Rightarrow> completion \<Rightarrow> 'b thread \<Rightarrow> 'b thread res" where
  "resize_blob_complete L c th =
     (let th = set_blob_errno (bserrno c) th
      in if bserrno c \<noteq> 0 then Inr (raise_done th)
         else make_request L (Blob_sync_md (rw_blob (rw_ctx th))) Spdk_blob_sync_complete th)"

definition spdk_blob_sync_complete :: "completion \<Rightarrow> 'b thread \<Rightarrow> 'b thread res" where
  "spdk_blob_sync_complete c th =
     Inr (raise_done (set_blob_errno (bserrno c) th))"

definition unload_complete_cb :: "completion \<Rightarrow> 'b thread \<Rightarrow> 'b thread res" where
  "unload_complete_cb c th =
     Inr (raise_done th)"

definition cleanup_finished_cb :: "completion \<Rightarrow> 'b thread \<Rightarrow> 'b thread res" where
  "cleanup_finished_cb c th =
     Inr (raise_done th)"

definition stop_subsystem_complete_cb :: "completion \<Rightarrow> 'b thread \<Rightarrow> 'b thread res" where
  "stop_subsystem_complete_cb c th =
     Inr (raise_done th)"

fun run_cb :: "'b spdk \<Rightarrow> callback \<Rightarrow> completion \<Rightarrow> 'b thread \<Rightarrow> 'b thread res" where
  "run_cb L Create_blob_finished = create_blob_finished L"
| "run_cb L Open_blob_finished = open_blob_finished"
| "run_cb L Delete_blob_finished = delete_blob_finished"
| "run_cb L Open_blob_complete = open_blob_complete"
| "run_cb L Close_blob_complete = close_blob_complete"
| "run_cb L Io_blob_complete = io_blob_complete"
| "run_cb L Resize_blob_complete = resize_blob_complete L"
| "run_cb L Spdk_blob_sync_complete = spdk_blob_sync_complete"
| "run_cb L Unload_complete_cb = unload_complete_cb"
| "run_cb L Stop_subsystem_complete_cb = stop_subsystem_complete_cb"
| "run_cb L Cleanup_finished_cb = cleanup_finished_cb"

lemmas callback_defs [simp] = create_blob_finished_def open_blob_finished_def delete_blob_finished_def
  open_blob_complete_def close_blob_complete_def io_blob_complete_def resize_blob_complete_def
  spdk_blob_sync_complete_def unload_complete_cb_def stop_subsystem_complete_cb_def
  cleanup_finished_cb_def

section \<open>Polling the thread\<close>

definition run_message :: "'b spdk \<Rightarrow> 'b thread \<Rightarrow> 'b thread res" where
  "run_message L th =
     (case message th of None \<Rightarrow> Inr th | Some m \<Rightarrow> run_msg L m (th\<lparr>message := None\<rparr>))"

definition run_completion :: "'b spdk \<Rightarrow> 'b thread \<Rightarrow> 'b thread res" where
  "run_completion L th =
     (case poll_lib L (lib th) of
        (b, None) \<Rightarrow> Inr (th\<lparr>lib := b\<rparr>)
      | (b, Some c) \<Rightarrow>
          (case waiting th of
             None \<Rightarrow> Inr (th\<lparr>lib := b\<rparr>)
           | Some cb \<Rightarrow> run_cb L cb c (th\<lparr>lib := b, waiting := None\<rparr>)))"

definition thread_poll :: "'b spdk \<Rightarrow> 'b thread \<Rightarrow> 'b thread res" where
  "thread_poll L th = bind_res (run_message L th) (run_completion L)"

definition send_msg :: "msg \<Rightarrow> 'b thread \<Rightarrow> 'b thread" where
  "send_msg m th = th\<lparr>message := Some m\<rparr>"

definition run_op :: "'b spdk \<Rightarrow> msg \<Rightarrow> 'b thread \<Rightarrow> (bool \<times> 'b thread) res" where
  "run_op L m th = generic_poller (send_msg m) (thread_poll L) done_flag th"

section \<open>The operations\<close>

text \<open>
  \<open>blob_create\<close>, \<open>blob_open\<close>, \<open>blob_close\<close> and \<open>blob_unlink\<close> never initialise \<^verbatim>\<open>done\<close>: what the
  stack holds is the parameter \<open>done0\<close>. \<open>blob\<close> is the content of \<^verbatim>\<open>*blob\<close> at the call.
\<close>

definition blob_create :: "'b spdk \<Rightarrow> bool \<Rightarrow> blob \<Rightarrow> 'b thread \<Rightarrow> (bool \<times> blob \<times> 'b thread) res" where
  "blob_create L done0 blob th =
     bind_res (run_op L Alloc_blob
       (th\<lparr>fs_ctx := \<lparr>fs_errno = 0, op_blob = blob, op_blob_id = 0\<rparr>, done_flag := done0\<rparr>)) (\<lambda>(ok, th').
       if op_blob (fs_ctx th') = 0 then Inl Assert_failed
       else Inr (fs_errno (fs_ctx th') = 0, op_blob (fs_ctx th'), th'))"

definition blob_open ::
  "'b spdk \<Rightarrow> bool \<Rightarrow> blob \<Rightarrow> blob_id \<Rightarrow> 'b thread \<Rightarrow> (bool \<times> blob \<times> 'b thread) res" where
  "blob_open L done0 blob i th =
     bind_res (run_op L Open_blob
       (th\<lparr>fs_ctx := \<lparr>fs_errno = 0, op_blob = blob, op_blob_id = i\<rparr>, done_flag := done0\<rparr>)) (\<lambda>(ok, th').
       Inr (fs_errno (fs_ctx th') = 0, op_blob (fs_ctx th'), th'))"

definition blob_close :: "'b spdk \<Rightarrow> bool \<Rightarrow> blob \<Rightarrow> 'b thread \<Rightarrow> (bool \<times> 'b thread) res" where
  "blob_close L done0 blob th =
     bind_res (run_op L Close_blob
       (th\<lparr>fs_ctx := \<lparr>fs_errno = 0, op_blob = blob, op_blob_id = 0\<rparr>, done_flag := done0\<rparr>)) (\<lambda>(ok, th').
       Inr (fs_errno (fs_ctx th') = 0, th'))"

definition blob_unlink :: "'b spdk \<Rightarrow> bool \<Rightarrow> blob_id \<Rightarrow> 'b thread \<Rightarrow> (bool \<times> 'b thread) res" where
  "blob_unlink L done0 i th =
     bind_res (run_op L Unlink_blob
       (th\<lparr>fs_ctx := \<lparr>fs_errno = 0, op_blob = 0, op_blob_id = i\<rparr>, done_flag := done0\<rparr>)) (\<lambda>(ok, th').
       Inr (fs_errno (fs_ctx th') = 0, th'))"

text \<open>The result of \<open>generic_blob_io\<close> includes the memory at the buffer afterwards.\<close>

definition generic_blob_io ::
  "'b spdk \<Rightarrow> blob \<Rightarrow> u64 \<Rightarrow> u64 \<Rightarrow> u8 list \<Rightarrow> bool \<Rightarrow> 'b thread \<Rightarrow> (bool \<times> u8 list \<times> 'b thread) res" where
  "generic_blob_io L blob sz offset buffer is_read th =
     bind_res (run_op L Io_blob
       (th\<lparr>rw_ctx := \<lparr>blob_errno = 0, rw_blob = blob, rw_offset = offset, rw_size = sz,
                       rw_buffer = buffer, rw_read = is_read\<rparr>, done_flag := False\<rparr>)) (\<lambda>(ok, th').
       Inr (blob_errno (rw_ctx th') = 0, rw_buffer (rw_ctx th'), th'))"

definition generic_blob_resize :: "'b spdk \<Rightarrow> blob \<Rightarrow> u64 \<Rightarrow> 'b thread \<Rightarrow> (bool \<times> 'b thread) res" where
  "generic_blob_resize L blob sz th =
     bind_res (run_op L Resize_blob
       (th\<lparr>rw_ctx := \<lparr>blob_errno = 0, rw_blob = blob, rw_offset = 0, rw_size = sz,
                       rw_buffer = [], rw_read = False\<rparr>, done_flag := False\<rparr>)) (\<lambda>(ok, th').
       Inr (blob_errno (rw_ctx th') = 0, th'))"

section \<open>Waiting for one request\<close>

definition idle :: "'b thread \<Rightarrow> bool" where
  "idle th \<longleftrightarrow> message th = None \<and> waiting th = None"

text \<open>The library after \<open>n\<close> polls.\<close>

fun lib_after :: "'b spdk \<Rightarrow> nat \<Rightarrow> 'b \<Rightarrow> 'b" where
  "lib_after L 0 b = b"
| "lib_after L (Suc n) b = lib_after L n (fst (poll_lib L b))"

lemma lib_completes_iff:
  "lib_completes L k b c b' \<longleftrightarrow> lib_silent L k b \<and> poll_lib L (lib_after L k b) = (b', Some c)"
  by (induction k arbitrary: b) auto

lemma poll_silent:
  assumes "message th = None" and "snd (poll_lib L (lib th)) = None"
  shows "thread_poll L th = Inr (th\<lparr>lib := fst (poll_lib L (lib th))\<rparr>)"
  using assms by (cases "poll_lib L (lib th)") (simp add: thread_poll_def run_message_def run_completion_def)

lemma polls_silent:
  "message th = None \<Longrightarrow> lib_silent L n (lib th) \<Longrightarrow>
     polls (thread_poll L) n th = Inr (th\<lparr>lib := lib_after L n (lib th)\<rparr>)"
  by (induction n arbitrary: th) (simp_all add: poll_silent)

lemma undone_silent:
  "message th = None \<Longrightarrow> lib_silent L n (lib th) \<Longrightarrow> \<not> done_flag th \<Longrightarrow>
     undone_for (thread_poll L) done_flag n th"
  by (induction n arbitrary: th) (simp_all add: poll_silent undone_Suc)

lemma poll_completion:
  assumes "message th = None" and "waiting th = Some cb" and "poll_lib L (lib th) = (b', Some c)"
  shows "thread_poll L th = run_cb L cb c (th\<lparr>lib := b', waiting := None\<rparr>)"
  using assms by (simp add: thread_poll_def run_message_def run_completion_def)

lemma polls_completion:
  assumes "message th = None" and "waiting th = Some cb" and "lib_completes L k (lib th) c b'"
  shows "polls (thread_poll L) (Suc k) th = run_cb L cb c (th\<lparr>lib := b', waiting := None\<rparr>)"
proof -
  have "polls (thread_poll L) k th = Inr (th\<lparr>lib := lib_after L k (lib th)\<rparr>)"
    using assms by (simp add: lib_completes_iff polls_silent)
  then show ?thesis
    using assms poll_completion [of "th\<lparr>lib := lib_after L k (lib th)\<rparr>" cb L b' c]
    by (simp only: polls_Suc_end bind_res_simps) (simp add: lib_completes_iff)
qed

text \<open>The first poll runs the message before it looks for a completion.\<close>

lemma poll_message:
  assumes "run_msg L m (th\<lparr>message := None\<rparr>) = Inr th1" and "message th1 = None"
  shows "thread_poll L (send_msg m th) = thread_poll L th1"
  using assms by (simp add: thread_poll_def run_message_def send_msg_def)

lemma polls_message:
  assumes "run_msg L m (th\<lparr>message := None\<rparr>) = Inr th1" and "message th1 = None"
  shows "polls (thread_poll L) (Suc n) (send_msg m th) = polls (thread_poll L) (Suc n) th1"
    and "undone_for (thread_poll L) done_flag n (send_msg m th) =
         undone_for (thread_poll L) done_flag n th1"
  using poll_message [OF assms] by (simp, cases n, simp_all add: undone_Suc)

section \<open>The contract of an operation\<close>

text \<open>
  An operation that makes one request when its message runs. \<open>ready\<close> is what the message
  function needs of the context, \<open>issue\<close> the library after the calls it makes, the last of which
  is the request, and \<open>cb\<close> the callback it registers.
\<close>

locale request_op =
  fixes L :: "'b spdk" and m :: msg and cb :: callback
    and issue :: "'b thread \<Rightarrow> 'b" and ready :: "'b thread \<Rightarrow> bool"
  assumes run: "idle th \<Longrightarrow> ready th \<Longrightarrow>
    run_msg L m th = Inr (th\<lparr>lib := issue th, waiting := Some cb\<rparr>)"
begin

definition started :: "'b thread \<Rightarrow> 'b thread" where
  "started th = th\<lparr>lib := issue th, waiting := Some cb\<rparr>"

lemma started_simps [simp]:
  "lib (started th) = issue th" "waiting (started th) = Some cb"
  "message (started th) = message th" "done_flag (started th) = done_flag th"
  by (simp_all add: started_def)

lemma start:
  assumes "idle th" and "ready th"
  shows "run_msg L m (th\<lparr>message := None\<rparr>) = Inr (started th)" and "message (started th) = None"
proof -
  have "th\<lparr>message := None\<rparr> = th" using assms(1) by (simp add: idle_def)
  then show "run_msg L m (th\<lparr>message := None\<rparr>) = Inr (started th)"
    using run [OF assms] by (simp add: started_def)
  show "message (started th) = None" using assms(1) by (simp add: idle_def)
qed

lemma gives_up:
  assumes "idle th" and "ready th" and "\<not> done_flag th"
    and "lib_silent L POLLER_MAX_TIME (issue th)"
  shows "run_op L m th = Inr (False,
    (started th)\<lparr>lib := lib_after L POLLER_MAX_TIME (issue th)\<rparr>)"
proof -
  note st = start [OF assms(1,2)]
  obtain n where n: "POLLER_MAX_TIME = Suc n" using poller_max_pos not0_implies_Suc by blast
  have u: "undone_for (thread_poll L) done_flag POLLER_MAX_TIME (send_msg m th)"
    using undone_silent [of "started th" L POLLER_MAX_TIME] assms st by (simp add: polls_message [OF st])
  have "polls (thread_poll L) POLLER_MAX_TIME (send_msg m th) =
      Inr ((started th)\<lparr>lib := lib_after L POLLER_MAX_TIME (issue th)\<rparr>)"
    using polls_message(1) [OF st, of n] polls_silent [of "started th" L POLLER_MAX_TIME] assms st n
    by simp
  with poller_gives_up_aux [of "thread_poll L" done_flag "send_msg m" th, OF u] show ?thesis
    by (simp add: run_op_def)
qed

text \<open>If the flag happens to be up already, one silent poll is enough for the poller.\<close>

lemma returns_early:
  assumes "idle th" and "ready th" and "done_flag th"
    and "snd (poll_lib L (issue th)) = None"
  shows "run_op L m th = Inr (True,
    (started th)\<lparr>lib := fst (poll_lib L (issue th))\<rparr>)"
proof -
  note st = start [OF assms(1,2)]
  have "polls (thread_poll L) (Suc 0) (send_msg m th) =
      Inr ((started th)\<lparr>lib := fst (poll_lib L (issue th))\<rparr>)"
    using polls_message(1) [OF st, of 0] poll_silent [of "started th" L] assms st by simp
  then show ?thesis
    using poller_done_aux [of "thread_poll L" done_flag 0 "send_msg m" th] assms
    by (simp add: run_op_def)
qed

end

locale single_op = request_op +
  assumes finish: "run_cb L cb c th = Inr th' \<Longrightarrow> done_flag th'"
begin

lemma completes:
  assumes "idle th" and "ready th" and "\<not> done_flag th"
    and "lib_completes L k (issue th) c b'" and "k < POLLER_MAX_TIME"
    and "run_cb L cb c (th\<lparr>lib := b'\<rparr>) = Inr th'"
  shows "run_op L m th = Inr (True, th')"
proof -
  note st = start [OF assms(1,2)]
  have eq: "(started th)\<lparr>lib := b', waiting := None\<rparr> = th\<lparr>lib := b'\<rparr>"
    using assms(1) by (simp add: started_def idle_def)
  have "polls (thread_poll L) (Suc k) (send_msg m th) = Inr th'"
    using polls_message(1) [OF st, of k] polls_completion [of "started th" cb L k c b'] st assms eq by simp
  moreover have "undone_for (thread_poll L) done_flag k (send_msg m th)"
    using undone_silent [of "started th" L k] assms st
    by (simp add: polls_message [OF st] lib_completes_iff)
  ultimately show ?thesis
    using poller_done_aux [of "thread_poll L" done_flag k "send_msg m" th th'] finish [OF assms(6)] assms(5)
    by (simp add: run_op_def)
qed

end

text \<open>An operation whose first completion, when it succeeds, makes a second request.\<close>

locale chained_op = request_op +
  fixes cb2 :: callback and req2 :: "completion \<Rightarrow> 'a thread \<Rightarrow> request"
    and upd :: "completion \<Rightarrow> 'a thread \<Rightarrow> 'a thread"
  assumes chain: "bserrno c = 0 \<Longrightarrow> waiting th = None \<Longrightarrow>
      run_cb L cb c th = Inr ((upd c th)\<lparr>lib := submit L (req2 c th) (lib th), waiting := Some cb2\<rparr>)"
    and upd_frame: "message (upd c th) = message th" "done_flag (upd c th) = done_flag th"
    and fail: "bserrno c \<noteq> 0 \<Longrightarrow> run_cb L cb c th = Inr th' \<Longrightarrow> done_flag th'"
    and finish: "run_cb L cb2 c th = Inr th' \<Longrightarrow> done_flag th'"
begin

lemma completes_fail:
  assumes "idle th" and "ready th" and "\<not> done_flag th"
    and "lib_completes L k (issue th) c b'" and "k < POLLER_MAX_TIME"
    and "bserrno c \<noteq> 0" and "run_cb L cb c (th\<lparr>lib := b'\<rparr>) = Inr th'"
  shows "run_op L m th = Inr (True, th')"
proof -
  note st = start [OF assms(1,2)]
  have eq: "(started th)\<lparr>lib := b', waiting := None\<rparr> = th\<lparr>lib := b'\<rparr>"
    using assms(1) by (simp add: started_def idle_def)
  have "polls (thread_poll L) (Suc k) (send_msg m th) = Inr th'"
    using polls_message(1) [OF st, of k] polls_completion [of "started th" cb L k c b'] st assms eq by simp
  moreover have "undone_for (thread_poll L) done_flag k (send_msg m th)"
    using undone_silent [of "started th" L k] assms st
    by (simp add: polls_message [OF st] lib_completes_iff)
  ultimately show ?thesis
    using poller_done_aux [of "thread_poll L" done_flag k "send_msg m" th th'] fail [OF assms(6,7)] assms(5)
    by (simp add: run_op_def)
qed

lemma completes:
  assumes "idle th" and "ready th" and "\<not> done_flag th"
    and "lib_completes L k1 (issue th) c1 b1" and "bserrno c1 = 0"
    and "lib_completes L k2 (submit L (req2 c1 (th\<lparr>lib := b1\<rparr>)) b1) c2 b2"
    and "k1 + k2 + 1 < POLLER_MAX_TIME"
    and "run_cb L cb2 c2 ((upd c1 (th\<lparr>lib := b1\<rparr>))\<lparr>lib := b2, waiting := None\<rparr>) = Inr th'"
  shows "run_op L m th = Inr (True, th')"
proof -
  note st = start [OF assms(1,2)]
  have eq: "(started th)\<lparr>lib := b1, waiting := None\<rparr> = th\<lparr>lib := b1\<rparr>"
    using assms(1) by (simp add: started_def idle_def)
  define t where "t = (upd c1 (th\<lparr>lib := b1\<rparr>))
    \<lparr>lib := submit L (req2 c1 (th\<lparr>lib := b1\<rparr>)) b1, waiting := Some cb2\<rparr>"
  have t: "message t = None" "waiting t = Some cb2" "\<not> done_flag t"
      "lib t = submit L (req2 c1 (th\<lparr>lib := b1\<rparr>)) b1"
    using assms(1,3) by (simp_all add: t_def upd_frame idle_def)
  have p1: "polls (thread_poll L) (Suc k1) (started th) = Inr t"
    using polls_completion [of "started th" cb L k1 c1 b1] st assms eq chain [OF assms(5), of "th\<lparr>lib := b1\<rparr>"]
    by (simp add: t_def idle_def)
  have u1: "undone_for (thread_poll L) done_flag (Suc k1) (started th)"
    using undone_snoc [OF undone_silent [of "started th" L k1] p1] assms st t(3)
    by (simp add: lib_completes_iff)
  have "undone_for (thread_poll L) done_flag k2 t"
    using undone_silent [of t L k2] t assms(6) by (simp add: lib_completes_iff)
  then have "undone_for (thread_poll L) done_flag (Suc k1 + k2) (started th)"
    using undone_add [OF u1 p1] by blast
  then have u: "undone_for (thread_poll L) done_flag (Suc k1 + k2) (send_msg m th)"
    by (simp only: polls_message [OF st])
  have "polls (thread_poll L) (Suc k1 + Suc k2) (started th) = polls (thread_poll L) (Suc k2) t"
    using p1 by (simp only: polls_add bind_res_simps)
  also have "\<dots> = Inr th'"
    using polls_completion [OF t(1,2), of L k2 c2 b2] t(4) assms(6,8) by (simp add: t_def)
  finally have "polls (thread_poll L) (Suc (Suc k1 + k2)) (send_msg m th) = Inr th'"
    using polls_message(1) [OF st, of "Suc k1 + k2"] by simp
  then show ?thesis
    using poller_done_aux [of "thread_poll L" done_flag "Suc k1 + k2" "send_msg m" th th'] u
      finish [OF assms(8)] assms(7)
    by (simp add: run_op_def)
qed

end

section \<open>The operations meet the contract\<close>

lemmas op_defs = make_request_def idle_def raise_done_def set_fs_errno_def set_op_blob_def
  set_blob_errno_def fill_buffer_def bind_res_Inr_iff

interpretation open_op: single_op L Open_blob Open_blob_complete
    "\<lambda>th. submit L (Bs_open_blob (op_blob_id (fs_ctx th))) (lib th)" "\<lambda>_. True" for L
  by unfold_locales (auto simp: op_defs)

interpretation close_op: single_op L Close_blob Close_blob_complete
    "\<lambda>th. submit L (Blob_close (op_blob (fs_ctx th))) (lib th)" "\<lambda>_. True" for L
  by unfold_locales (auto simp: op_defs)

interpretation unlink_op: single_op L Unlink_blob Delete_blob_finished
    "\<lambda>th. submit L (Bs_delete_blob (op_blob_id (fs_ctx th))) (lib th)" "\<lambda>_. True" for L
  by unfold_locales (auto simp: op_defs)

interpretation unload_op: single_op L Unload_bs_fn Unload_complete_cb
    "\<lambda>th. submit L Bs_unload (free_io_channel L (lib th))" "\<lambda>_. True" for L
  by unfold_locales (auto simp: op_defs)

interpretation stop_op: single_op L Stop_subsystem Stop_subsystem_complete_cb
    "\<lambda>th. submit L Subsystem_fini (lib th)" "\<lambda>_. True" for L
  by unfold_locales (auto simp: op_defs)

text \<open>What \<open>io_blob\<close> asks the library for, and when it can.\<close>

definition io_request :: "'b spdk \<Rightarrow> 'b thread \<Rightarrow> request" where
  "io_request L th =
     (let ctx = rw_ctx th; io_unit = io_unit_size L (lib th);
          off = rw_offset ctx div io_unit; n = upper_div (rw_size ctx) io_unit
      in if rw_read ctx then Blob_io_read (rw_blob ctx) off n
         else Blob_io_write (rw_blob ctx) off n (take (unat n * unat io_unit) (rw_buffer ctx)))"

definition io_ready :: "'b spdk \<Rightarrow> 'b thread \<Rightarrow> bool" where
  "io_ready L th \<longleftrightarrow> io_unit_size L (lib th) \<noteq> 0 \<and>
     (rw_read (rw_ctx th) \<or>
      unat (upper_div (rw_size (rw_ctx th)) (io_unit_size L (lib th))) * unat (io_unit_size L (lib th))
        \<le> length (rw_buffer (rw_ctx th)))"

interpretation io_op: single_op L Io_blob Io_blob_complete
    "\<lambda>th. submit L (io_request L th) (lib th)" "io_ready L" for L
  by unfold_locales
    (auto simp: op_defs io_blob_def io_request_def io_ready_def Let_def split: if_splits)

interpretation create_op: chained_op L Alloc_blob Create_blob_finished
    "\<lambda>th. submit L Bs_create_blob (lib th)" "\<lambda>_. True"
    Open_blob_finished "\<lambda>c th. Bs_open_blob (c_blobid c)" "\<lambda>_ th. th" for L
  by unfold_locales (auto simp: op_defs split: if_splits)

interpretation resize_op: chained_op L Resize_blob Resize_blob_complete
    "\<lambda>th. submit L (Blob_resize (rw_blob (rw_ctx th)) (upper_div (rw_size (rw_ctx th)) (cluster_size L (lib th)))) (lib th)"
    "\<lambda>th. rw_size (rw_ctx th) \<noteq> 0 \<and> cluster_size L (lib th) \<noteq> 0"
    Spdk_blob_sync_complete "\<lambda>c th. Blob_sync_md (rw_blob (rw_ctx th))" "\<lambda>c. set_blob_errno (bserrno c)" for L
  by unfold_locales (auto simp: op_defs resize_blob_def Let_def split: if_splits)

section \<open>Operations on an idle thread\<close>

text \<open>Nothing is outstanding and the library is in the state \<open>b\<close>.\<close>

definition settled :: "'b \<Rightarrow> 'b thread \<Rightarrow> bool" where
  "settled b th \<longleftrightarrow> idle th \<and> lib th = b"

lemma settled_simps [simp]:
  "settled b (th\<lparr>fs_ctx := x\<rparr>) = settled b th" "settled b (th\<lparr>rw_ctx := y\<rparr>) = settled b th"
  "settled b (th\<lparr>done_flag := d\<rparr>) = settled b th"
  by (simp_all add: settled_def idle_def)

lemma settled_lib [simp]: "idle th \<Longrightarrow> settled b (th\<lparr>lib := b\<rparr>)"
  by (simp add: settled_def idle_def)

lemma idle_upd [simp]:
  "idle (th\<lparr>fs_ctx := x\<rparr>) = idle th" "idle (th\<lparr>rw_ctx := y\<rparr>) = idle th"
  "idle (th\<lparr>done_flag := d\<rparr>) = idle th" "idle (th\<lparr>lib := b\<rparr>) = idle th"
  by (simp_all add: idle_def)

definition idle_thread :: "'b \<Rightarrow> 'b thread" where
  "idle_thread b = \<lparr>lib = b, message = None, waiting = None,
     fs_ctx = \<lparr>fs_errno = 0, op_blob = 0, op_blob_id = 0\<rparr>,
     rw_ctx = \<lparr>blob_errno = 0, rw_blob = 0, rw_offset = 0, rw_size = 0, rw_buffer = [], rw_read = False\<rparr>,
     done_flag = False\<rparr>"

lemma idle_thread [simp]: "idle (idle_thread b)" "lib (idle_thread b) = b" "settled b (idle_thread b)"
  by (simp_all add: idle_thread_def idle_def settled_def)

lemmas cb_defs = raise_done_def set_fs_errno_def set_op_blob_def set_blob_errno_def

lemma blob_write_correct_aux:
  assumes "idle th" and "u = io_unit_size L (lib th)" and "u \<noteq> 0"
    and "n = upper_div sz u" and "unat n * unat u \<le> length buf"
    and "lib_completes L k
      (submit L (Blob_io_write blob (off div u) n (take (unat n * unat u) buf)) (lib th)) c b'"
    and "k < POLLER_MAX_TIME"
  shows "\<exists>th'. generic_blob_io L blob sz off buf False th = Inr (bserrno c = 0, buf, th') \<and> settled b' th'"
proof -
  let ?th = "th\<lparr>rw_ctx := \<lparr>blob_errno = 0, rw_blob = blob, rw_offset = off, rw_size = sz,
    rw_buffer = buf, rw_read = False\<rparr>, done_flag := False\<rparr>"
  have "run_op L Io_blob ?th = Inr (True, raise_done (set_blob_errno (bserrno c) (?th\<lparr>lib := b'\<rparr>)))"
    using assms
    by (intro io_op.completes [where c = c and b' = b' and k = k])
      (simp_all add: io_ready_def io_request_def fill_buffer_def Let_def)
  then show ?thesis
    using assms(1) by (simp add: generic_blob_io_def cb_defs)
qed

lemma blob_read_correct_aux:
  assumes "idle th" and "u = io_unit_size L (lib th)" and "u \<noteq> 0"
    and "lib_completes L k (submit L (Blob_io_read blob (off div u) (upper_div sz u)) (lib th)) c b'"
    and "k < POLLER_MAX_TIME" and "length (c_data c) \<le> length buf"
  shows "\<exists>th'. generic_blob_io L blob sz off buf True th =
      Inr (bserrno c = 0, c_data c @ drop (length (c_data c)) buf, th') \<and> settled b' th'"
proof -
  let ?th = "th\<lparr>rw_ctx := \<lparr>blob_errno = 0, rw_blob = blob, rw_offset = off, rw_size = sz,
    rw_buffer = buf, rw_read = True\<rparr>, done_flag := False\<rparr>"
  let ?th' = "raise_done (set_blob_errno (bserrno c) (?th\<lparr>lib := b', rw_ctx := (rw_ctx ?th)
    \<lparr>rw_buffer := c_data c @ drop (length (c_data c)) buf\<rparr>\<rparr>))"
  have "run_op L Io_blob ?th = Inr (True, ?th')"
    using assms
    by (intro io_op.completes [where c = c and b' = b' and k = k])
      (simp_all add: io_ready_def io_request_def fill_buffer_def Let_def)
  then show ?thesis
    using assms(1) by (simp add: generic_blob_io_def cb_defs)
qed

lemma blob_resize_correct_aux:
  assumes "idle th" and "sz \<noteq> 0" and "cl = cluster_size L (lib th)" and "cl \<noteq> 0"
    and "lib_completes L k1 (submit L (Blob_resize blob (upper_div sz cl)) (lib th)) c1 b1"
    and "bserrno c1 = 0 \<Longrightarrow> lib_completes L k2 (submit L (Blob_sync_md blob) b1) c2 b2"
    and "k1 + k2 + 1 < POLLER_MAX_TIME"
  shows "\<exists>th'. generic_blob_resize L blob sz th = Inr (bserrno c1 = 0 \<and> bserrno c2 = 0, th') \<and>
       settled (if bserrno c1 = 0 then b2 else b1) th'"
proof -
  let ?th = "th\<lparr>rw_ctx := \<lparr>blob_errno = 0, rw_blob = blob, rw_offset = 0, rw_size = sz,
    rw_buffer = [], rw_read = False\<rparr>, done_flag := False\<rparr>"
  show ?thesis
  proof (cases "bserrno c1 = 0")
    case True
    let ?th' = "raise_done (set_blob_errno (bserrno c2) ((set_blob_errno 0 (?th\<lparr>lib := b1\<rparr>))\<lparr>lib := b2, waiting := None\<rparr>))"
    have "run_op L Resize_blob ?th = Inr (True, ?th')"
      using assms True
      by (intro resize_op.completes
            [where ?c1.0 = c1 and ?k1.0 = k1 and ?k2.0 = k2 and ?b1.0 = b1 and ?c2.0 = c2 and ?b2.0 = b2])
        (simp_all add: cb_defs)
    then show ?thesis
      using assms(1) True by (simp add: generic_blob_resize_def cb_defs settled_def idle_def)
  next
    case False
    have "run_op L Resize_blob ?th = Inr (True, raise_done (set_blob_errno (bserrno c1) (?th\<lparr>lib := b1\<rparr>)))"
      using assms False
      by (intro resize_op.completes_fail [where c = c1 and k = k1 and b' = b1]) simp_all
    then show ?thesis
      using assms(1) False by (simp add: generic_blob_resize_def cb_defs)
  qed
qed

lemma blob_create_correct_aux:
  assumes "idle th" and "lib_completes L k1 (submit L Bs_create_blob (lib th)) c1 b1" and "bserrno c1 = 0"
    and "lib_completes L k2 (submit L (Bs_open_blob (c_blobid c1)) b1) c2 b2"
    and "k1 + k2 + 1 < POLLER_MAX_TIME"
    and "blb = (if bserrno c2 = 0 then c_blob c2 else blob)"
  shows "if blb = 0 then blob_create L False blob th = Inl Assert_failed
    else \<exists>th'. blob_create L False blob th = Inr (bserrno c2 = 0, blb, th') \<and> settled b2 th'"
proof -
  let ?th = "th\<lparr>fs_ctx := \<lparr>fs_errno = 0, op_blob = blob, op_blob_id = 0\<rparr>, done_flag := False\<rparr>"
  let ?th' = "raise_done (set_fs_errno (bserrno c2)
    ((if bserrno c2 = 0 then set_op_blob (c_blob c2) else (\<lambda>t. t)) (?th\<lparr>lib := b2, waiting := None\<rparr>)))"
  have "run_op L Alloc_blob ?th = Inr (True, ?th')"
    using assms
    by (intro create_op.completes
          [where ?c1.0 = c1 and ?k1.0 = k1 and ?k2.0 = k2 and ?b1.0 = b1 and ?c2.0 = c2 and ?b2.0 = b2])
      (simp_all add: cb_defs)
  then show ?thesis
    using assms(1,6) by (simp add: blob_create_def cb_defs settled_def idle_def)
qed

lemma blob_create_fails_aux:
  assumes "idle th" and "lib_completes L k (submit L Bs_create_blob (lib th)) c b" and "bserrno c \<noteq> 0"
    and "k < POLLER_MAX_TIME"
  shows "if blob = 0 then blob_create L False blob th = Inl Assert_failed
    else \<exists>th'. blob_create L False blob th = Inr (False, blob, th') \<and> settled b th'"
proof -
  let ?th = "th\<lparr>fs_ctx := \<lparr>fs_errno = 0, op_blob = blob, op_blob_id = 0\<rparr>, done_flag := False\<rparr>"
  have "run_op L Alloc_blob ?th = Inr (True, raise_done (set_fs_errno (bserrno c) (?th\<lparr>lib := b\<rparr>)))"
    using assms by (intro create_op.completes_fail [where c = c and k = k and b' = b]) simp_all
  then show ?thesis
    using assms(1,3) by (cases "blob = 0") (simp_all add: blob_create_def cb_defs settled_def idle_def)
qed

lemma blob_open_correct_aux:
  assumes "idle th" and "lib_completes L k (submit L (Bs_open_blob i) (lib th)) c b" and "k < POLLER_MAX_TIME"
  shows "\<exists>th'. blob_open L False blob i th = Inr (bserrno c = 0, c_blob c, th') \<and> settled b th'"
proof -
  let ?th = "th\<lparr>fs_ctx := \<lparr>fs_errno = 0, op_blob = blob, op_blob_id = i\<rparr>, done_flag := False\<rparr>"
  have "run_op L Open_blob ?th =
      Inr (True, raise_done (set_op_blob (c_blob c) (set_fs_errno (bserrno c) (?th\<lparr>lib := b\<rparr>))))"
    using assms by (intro open_op.completes [where c = c and k = k and b' = b]) simp_all
  then show ?thesis
    using assms(1) by (simp add: blob_open_def cb_defs)
qed

lemma blob_close_unlink_correct_aux:
  assumes "idle th"
    and "lib_completes L k (submit L r (lib th)) c b" and "k < POLLER_MAX_TIME"
    and "r = Blob_close x \<and> op = blob_close L False x \<or> r = Bs_delete_blob x \<and> op = blob_unlink L False x"
  shows "\<exists>th'. op th = Inr (bserrno c = 0, th') \<and> settled b th'"
  using assms(4)
proof (elim disjE conjE)
  let ?th = "th\<lparr>fs_ctx := \<lparr>fs_errno = 0, op_blob = x, op_blob_id = 0\<rparr>, done_flag := False\<rparr>"
  assume r: "r = Blob_close x" and op: "op = blob_close L False x"
  have "run_op L Close_blob ?th = Inr (True, raise_done (set_fs_errno (bserrno c) (?th\<lparr>lib := b\<rparr>)))"
    using assms r by (intro close_op.completes [where c = c and k = k and b' = b]) simp_all
  then show ?thesis
    using assms(1) by (simp add: blob_close_def cb_defs op)
next
  let ?th = "th\<lparr>fs_ctx := \<lparr>fs_errno = 0, op_blob = 0, op_blob_id = x\<rparr>, done_flag := False\<rparr>"
  assume r: "r = Bs_delete_blob x" and op: "op = blob_unlink L False x"
  have "run_op L Unlink_blob ?th = Inr (True, raise_done
      (if bserrno c \<noteq> 0 then set_fs_errno (bserrno c) (?th\<lparr>lib := b\<rparr>) else ?th\<lparr>lib := b\<rparr>))"
    using assms r by (intro unlink_op.completes [where c = c and k = k and b' = b]) simp_all
  then show ?thesis
    using assms(1) by (simp add: blob_unlink_def cb_defs op)
qed

section \<open>Properties\<close>

text \<open>C22. \<open>generic_blob_io\<close> on a write: if the library completes the request within the
  poller's bound, the call returns whether that completion carried no error, the request asked
  for was exactly \<open>offset / io_unit\<close>, \<open>UPPER_DIV(size, io_unit)\<close> and the bytes at the buffer,
  and nothing is left outstanding.\<close>

theorem blob_write_correct:
  assumes "idle th" and "u = io_unit_size L (lib th)" and "u \<noteq> 0"
    and "n = upper_div sz u" and "unat n * unat u \<le> length buf"
    and "lib_completes L k
      (submit L (Blob_io_write blob (off div u) n (take (unat n * unat u) buf)) (lib th)) c b'"
    and "k < POLLER_MAX_TIME"
  shows "\<exists>th'. generic_blob_io L blob sz off buf False th = Inr (bserrno c = 0, buf, th') \<and> settled b' th'"
  using assms by (rule blob_write_correct_aux)

theorem blob_write_correct_witness:
  "\<exists>th'. generic_blob_io (mem_lib 4 8) 1 4 4 [1, 2, 3, 4, 5] False
        (idle_thread (mem_empty\<lparr>bs_data := [1 \<mapsto> [0, 0, 0, 0, 0, 0, 0, 0]]\<rparr>)) = Inr (True, [1, 2, 3, 4, 5], th') \<and>
      settled (mem_empty\<lparr>bs_data := [1 \<mapsto> [0, 0, 0, 0, 1, 2, 3, 4]]\<rparr>) th'"
  using blob_write_correct [of "idle_thread (mem_empty\<lparr>bs_data := [1 \<mapsto> [0, 0, 0, 0, 0, 0, 0, 0]]\<rparr>)" 4 "mem_lib 4 8"
      1 4 "[1, 2, 3, 4, 5]" 0 1 4 "\<lparr>bserrno = 0, c_blobid = 1, c_blob = 1, c_data = []\<rparr>"
      "mem_empty\<lparr>bs_data := [1 \<mapsto> [0, 0, 0, 0, 1, 2, 3, 4]]\<rparr>"]
  by (simp add: upper_div_def mem_empty_def answer_def)





text \<open>\<open>generic_blob_resize\<close>: the library is asked for the least number of clusters that
  holds \<open>size\<close> bytes; a resize that succeeds is followed by a metadata sync, one that fails is
  not, and the call returns true exactly when both completed without an error.\<close>

theorem blob_resize_correct:
  assumes "idle th" and "sz \<noteq> 0" and "cl = cluster_size L (lib th)" and "cl \<noteq> 0"
    and "lib_completes L k1 (submit L (Blob_resize blob (upper_div sz cl)) (lib th)) c1 b1"
    and "bserrno c1 = 0 \<Longrightarrow> lib_completes L k2 (submit L (Blob_sync_md blob) b1) c2 b2"
    and "k1 + k2 + 1 < POLLER_MAX_TIME"
  shows "\<exists>th'. generic_blob_resize L blob sz th = Inr (bserrno c1 = 0 \<and> bserrno c2 = 0, th') \<and>
       settled (if bserrno c1 = 0 then b2 else b1) th'"
  using assms by (rule blob_resize_correct_aux)

theorem blob_resize_correct_witness:
  "\<exists>th'. generic_blob_resize (mem_lib 4 8) 1 5 (idle_thread (mem_empty\<lparr>bs_data := [1 \<mapsto> []]\<rparr>)) = Inr (True, th') \<and>
     settled (mem_empty\<lparr>bs_data := [1 \<mapsto> replicate 8 0]\<rparr>) th'"
  using blob_resize_correct [of "idle_thread (mem_empty\<lparr>bs_data := [1 \<mapsto> []]\<rparr>)" 5 8 "mem_lib 4 8" 0 1
      "\<lparr>bserrno = 0, c_blobid = 1, c_blob = 1, c_data = []\<rparr>" "mem_empty\<lparr>bs_data := [1 \<mapsto> replicate 8 0]\<rparr>" 0
      "\<lparr>bserrno = 0, c_blobid = 1, c_blob = 1, c_data = []\<rparr>" "mem_empty\<lparr>bs_data := [1 \<mapsto> replicate 8 0]\<rparr>"]
  by (simp add: upper_div_def mem_empty_def answer_def POLLER_MAX_TIME_def)



text \<open>When the creation fails no open is requested, the call returns false and the handle is
  left as it was; a caller whose handle was null fails the assertion instead of seeing false.\<close>

theorem blob_create_fails:
  assumes "idle th" and "lib_completes L k (submit L Bs_create_blob (lib th)) c b" and "bserrno c \<noteq> 0"
    and "k < POLLER_MAX_TIME"
  shows "if blob = 0 then blob_create L False blob th = Inl Assert_failed
    else \<exists>th'. blob_create L False blob th = Inr (False, blob, th') \<and> settled b th'"
  using assms by (rule blob_create_fails_aux)

theorem blob_create_fails_witness:
  "\<exists>th'. blob_create (full_lib 28) False 77 (idle_thread (Some 0)) = Inr (False, 77, th') \<and>
     settled None th'"
  using blob_create_fails [of "idle_thread (Some 0)" "full_lib 28" 0
      "\<lparr>bserrno = - 28, c_blobid = 0, c_blob = 0, c_data = []\<rparr>" None 77]
  by (simp add: full_lib_def POLLER_MAX_TIME_def)

text \<open>\<open>blob_open\<close> asks for the blob with the given id and returns the handle that the library
  delivers (also when the open fails) together with whether there was no error, provided the
  uninitialised flag happened to be down.\<close>

theorem blob_open_correct:
  assumes "idle th" and "lib_completes L k (submit L (Bs_open_blob i) (lib th)) c b" and "k < POLLER_MAX_TIME"
  shows "\<exists>th'. blob_open L False blob i th = Inr (bserrno c = 0, c_blob c, th') \<and> settled b th'"
  using assms by (rule blob_open_correct_aux)

theorem blob_open_correct_witness:
  "\<exists>th'. blob_open (mem_lib 4 8) False 77 3 (idle_thread (mem_empty\<lparr>bs_data := [3 \<mapsto> []]\<rparr>)) = Inr (True, 3, th') \<and>
     settled (mem_empty\<lparr>bs_data := [3 \<mapsto> []]\<rparr>) th'"
  using blob_open_correct [of "idle_thread (mem_empty\<lparr>bs_data := [3 \<mapsto> []]\<rparr>)" "mem_lib 4 8" 0 3
      "\<lparr>bserrno = 0, c_blobid = 3, c_blob = 3, c_data = []\<rparr>" "mem_empty\<lparr>bs_data := [3 \<mapsto> []]\<rparr>" 77]
  by (simp add: mem_empty_def answer_def)

text \<open>With the flag left up by whatever was on the stack before, \<open>blob_open\<close> returns after a
  single poll if the library is not done by then: it reports success and gives back the
  caller's own uninitialised handle, while the open is still outstanding.\<close>

theorem blob_open_uninitialised_flag:
  assumes "idle th" and "snd (poll_lib L (submit L (Bs_open_blob i) (lib th))) = None"
  shows "\<exists>th'. blob_open L True blob i th = Inr (True, blob, th') \<and> waiting th' = Some Open_blob_complete"
proof -
  let ?th = "th\<lparr>fs_ctx := \<lparr>fs_errno = 0, op_blob = blob, op_blob_id = i\<rparr>, done_flag := True\<rparr>"
  obtain b where "run_op L Open_blob ?th = Inr (True, ?th\<lparr>waiting := Some Open_blob_complete, lib := b\<rparr>)"
    using open_op.returns_early [of ?th L, unfolded open_op.started_def] assms by simp
  then show ?thesis
    by (simp add: blob_open_def)
qed

theorem blob_open_uninitialised_flag_witness:
  "\<exists>th'. blob_open dead_lib True 77 3 (idle_thread ()) = Inr (True, 77, th') \<and> waiting th' = Some Open_blob_complete"
  by (rule blob_open_uninitialised_flag) simp_all

text \<open>\<open>blob_close\<close> and \<open>blob_unlink\<close> make exactly one request, for the handle or id they were
  given, and return whether it completed without an error.\<close>

theorem blob_close_unlink_correct:
  assumes "idle th"
    and "lib_completes L k (submit L r (lib th)) c b" and "k < POLLER_MAX_TIME"
    and "r = Blob_close x \<and> op = blob_close L False x \<or> r = Bs_delete_blob x \<and> op = blob_unlink L False x"
  shows "\<exists>th'. op th = Inr (bserrno c = 0, th') \<and> settled b th'"
  using assms by (rule blob_close_unlink_correct_aux)

theorem blob_close_unlink_correct_witness:
  "\<exists>th'. blob_unlink (mem_lib 4 8) False 3 (idle_thread (mem_empty\<lparr>bs_data := [3 \<mapsto> []]\<rparr>)) = Inr (True, th') \<and>
     settled mem_empty th'"
  using blob_close_unlink_correct [of "idle_thread (mem_empty\<lparr>bs_data := [3 \<mapsto> []]\<rparr>)" "mem_lib 4 8" 0
      "Bs_delete_blob 3" "\<lparr>bserrno = 0, c_blobid = 3, c_blob = 3, c_data = []\<rparr>" mem_empty 3
      "blob_unlink (mem_lib 4 8) False 3"]
  by (simp add: mem_empty_def answer_def)

end
