(* ===== verification/File.thy ===== *)
theory File
  imports Blob_Op
begin

text \<open>
  The file operations of \<^verbatim>\<open>simple_fs/file.c\<close>. A file is its in-memory structure; the
  structure its \<^verbatim>\<open>file_persist\<close> points to is kept by value, since it is reached through that
  pointer only. \<open>spdk_set_thread\<close> has no effect here: the model has one thread.
\<close>

section \<open>State\<close>

record spdkfs_file =
  f_blob :: blob
  f_pos :: u64
  file_persist :: spdkfs_file_persist_ctx

definition file_xattr :: string where "file_xattr = ''file_persistent''"

text \<open>Storing an extended attribute of the blob.\<close>

definition put_xattr :: "'b spdk \<Rightarrow> blob \<Rightarrow> string \<Rightarrow> xattr_value \<Rightarrow> 'b thread \<Rightarrow> 'b thread" where
  "put_xattr L blb name v th = th\<lparr>lib := set_xattr L blb name v (lib th)\<rparr>"

section \<open>Operations\<close>

definition get_blob_size :: "'b spdk \<Rightarrow> blob \<Rightarrow> 'b thread \<Rightarrow> u64" where
  "get_blob_size L blb th = num_clusters L (lib th) blb * cluster_size L (lib th)"

text \<open>The result is the number returned, the file, the memory at the buffer and the thread.\<close>

definition simple_fs_read ::
  "'b spdk \<Rightarrow> spdkfs_file \<Rightarrow> u64 \<Rightarrow> u8 list \<Rightarrow> 'b thread \<Rightarrow>
     (u64 \<times> spdkfs_file \<times> u8 list \<times> 'b thread) res" where
  "simple_fs_read L file sz buffer th =
     (if sz mod 512 \<noteq> 0 then Inl Assert_failed
      else if f_size (file_persist file) < f_pos file + sz then Inr (0, file, buffer, th)
      else bind_res (generic_blob_io L (f_blob file) sz (f_pos file) buffer True th) (\<lambda>(ret, buffer', th').
        if ret then Inr (sz, file\<lparr>f_pos := f_pos file + sz\<rparr>, buffer',
                         put_xattr L (f_blob file) file_xattr (File_ctx (file_persist file)) th')
        else Inr (0, file, buffer', th')))"

text \<open>The first statement of \<open>simple_fs_write\<close>: grow the blob by one cluster if the write does
  not fit; the outcome of the resize is ignored.\<close>

definition write_reserve :: "'b spdk \<Rightarrow> spdkfs_file \<Rightarrow> u64 \<Rightarrow> 'b thread \<Rightarrow> 'b thread res" where
  "write_reserve L file sz th =
     (let file_max_size = get_blob_size L (f_blob file) th
      in if file_max_size < f_pos file + sz
         then bind_res (generic_blob_resize L (f_blob file) (file_max_size + cluster_size L (lib th)) th)
                (\<lambda>(ret, th'). Inr th')
         else Inr th)"

definition write_persist :: "spdkfs_file \<Rightarrow> spdkfs_file" where
  "write_persist file =
     (let p = file_persist file;
          p' = (if f_size p < f_pos file then p\<lparr>f_size := f_pos file\<rparr> else p)
      in file\<lparr>file_persist := p'\<lparr>i_writecount := i_writecount p' + 1\<rparr>\<rparr>)"

definition simple_fs_write ::
  "'b spdk \<Rightarrow> spdkfs_file \<Rightarrow> u64 \<Rightarrow> u8 list \<Rightarrow> 'b thread \<Rightarrow>
     (u64 \<times> spdkfs_file \<times> u8 list \<times> 'b thread) res" where
  "simple_fs_write L file sz buffer th =
     bind_res (write_reserve L file sz th) (\<lambda>th1.
       let file1 = write_persist file
       in bind_res (generic_blob_io L (f_blob file) sz (f_pos file) buffer False th1) (\<lambda>(ret, buffer', th2).
            if ret then Inr (sz, file1\<lparr>f_pos := f_pos file + sz\<rparr>, buffer',
                             put_xattr L (f_blob file) file_xattr (File_ctx (file_persist file1)) th2)
            else Inr (0, file1, buffer', th2)))"

text \<open>
  \<open>simple_fs_open\<close> reads \<^verbatim>\<open>len\<close>, which the library sets only when the attribute exists. An
  attribute of the right length that is not a file context is read as one by the code.
\<close>

definition simple_fs_open :: "'b spdk \<Rightarrow> spdkfs_file \<Rightarrow> 'b thread \<Rightarrow> spdkfs_file res" where
  "simple_fs_open L file th =
     (case get_xattr L (lib th) (f_blob file) file_xattr of
        None \<Rightarrow> Inl Uninit_read
      | Some v \<Rightarrow>
          if xattr_len v \<noteq> sizeof_file_ctx then Inl Assert_failed
          else (case v of
                  File_ctx p \<Rightarrow> Inr (file\<lparr>file_persist := p\<rparr>)
                | Dir_ctx p \<Rightarrow> Inl Type_confusion
                | Raw bs \<Rightarrow> Inl Type_confusion))"

text \<open>\<open>garbage\<close> is what the memory from \<^verbatim>\<open>malloc\<close> holds, \<open>now\<close> the result of \<^verbatim>\<open>time\<close>.\<close>

definition simple_fs_create ::
  "'b spdk \<Rightarrow> spdkfs_file_persist_ctx \<Rightarrow> u64 \<Rightarrow> spdkfs_file \<Rightarrow> 'b thread \<Rightarrow> spdkfs_file \<times> 'b thread" where
  "simple_fs_create L garbage now file th =
     (let p = garbage\<lparr>f_size := 0, f_blob_id := get_id L (lib th) (f_blob file),
                      i_writecount := 0, i_ctime := now\<rparr>
      in (file\<lparr>file_persist := p\<rparr>, put_xattr L (f_blob file) file_xattr (File_ctx p) th))"

definition simple_fs_close :: "'b spdk \<Rightarrow> bool \<Rightarrow> spdkfs_file \<Rightarrow> 'b thread \<Rightarrow> 'b thread res" where
  "simple_fs_close L done0 file th =
     bind_res (blob_close L done0 (f_blob file)
        (put_xattr L (f_blob file) file_xattr (File_ctx (file_persist file)) th)) (\<lambda>(ret, th'). Inr th')"

definition simple_fs_release :: "spdkfs_file \<Rightarrow> spdkfs_file" where
  "simple_fs_release file = file"

text \<open>The table through which every open file is used: \<^verbatim>\<open>monopoly_ops.c\<close> binds it to a file before its
  first use (\<^verbatim>\<open>bind_file_ops\<close>), and there is no other. Its seek operation is null.\<close>

record 'b spdk_file_operations =
  op_lseek :: "(spdkfs_file \<Rightarrow> u64 \<Rightarrow> int \<Rightarrow> spdkfs_file) option"
  op_read :: "spdkfs_file \<Rightarrow> u64 \<Rightarrow> u8 list \<Rightarrow> 'b thread \<Rightarrow> (u64 \<times> spdkfs_file \<times> u8 list \<times> 'b thread) res"
  op_write :: "spdkfs_file \<Rightarrow> u64 \<Rightarrow> u8 list \<Rightarrow> 'b thread \<Rightarrow> (u64 \<times> spdkfs_file \<times> u8 list \<times> 'b thread) res"
  op_open :: "spdkfs_file \<Rightarrow> 'b thread \<Rightarrow> spdkfs_file res"
  op_close :: "bool \<Rightarrow> spdkfs_file \<Rightarrow> 'b thread \<Rightarrow> 'b thread res"
  op_create :: "spdkfs_file_persist_ctx \<Rightarrow> u64 \<Rightarrow> spdkfs_file \<Rightarrow> 'b thread \<Rightarrow> spdkfs_file \<times> 'b thread"
  op_release :: "spdkfs_file \<Rightarrow> spdkfs_file"

definition simplefs_file_ops :: "'b spdk \<Rightarrow> 'b spdk_file_operations" where
  "simplefs_file_ops L = \<lparr>op_lseek = None, op_read = simple_fs_read L, op_write = simple_fs_write L,
     op_open = simple_fs_open L, op_close = simple_fs_close L, op_create = simple_fs_create L,
     op_release = simple_fs_release\<rparr>"

lemma file_ops [simp]:
  "op_read (simplefs_file_ops L) = simple_fs_read L" "op_write (simplefs_file_ops L) = simple_fs_write L"
  "op_open (simplefs_file_ops L) = simple_fs_open L" "op_close (simplefs_file_ops L) = simple_fs_close L"
  "op_create (simplefs_file_ops L) = simple_fs_create L"
  by (simp_all add: simplefs_file_ops_def)

section \<open>Facts about the blob operations\<close>

lemma idle_put_xattr [simp]: "idle (put_xattr L blb name v th) = idle th"
  by (simp add: put_xattr_def idle_def)

lemma lib_put_xattr [simp]: "lib (put_xattr L blb name v th) = set_xattr L blb name v (lib th)"
  by (simp add: put_xattr_def)

lemma settled_put_xattr [simp]:
  "settled b th \<Longrightarrow> settled (set_xattr L blb name v b) (put_xattr L blb name v th)"
  by (simp add: settled_def)

lemma settledD: "settled b th \<Longrightarrow> idle th \<and> lib th = b"
  by (simp add: settled_def)

text \<open>The library completes, within the poller's bound, the request that the blob operation makes:
  a write with error \<open>e\<close>, a read with error \<open>e\<close> and the bytes \<open>bs\<close>, a resize and its sync.\<close>

definition write_done ::
  "'b spdk \<Rightarrow> 'b \<Rightarrow> blob \<Rightarrow> u64 \<Rightarrow> u64 \<Rightarrow> u8 list \<Rightarrow> int \<Rightarrow> 'b \<Rightarrow> bool" where
  "write_done L b blob off sz buf e b' \<longleftrightarrow>
     (let u = io_unit_size L b; n = upper_div sz u
      in u \<noteq> 0 \<and> unat n * unat u \<le> length buf \<and>
         (\<exists>k<POLLER_MAX_TIME. \<exists>c. bserrno c = e \<and> lib_completes L k
            (submit L (Blob_io_write blob (off div u) n (take (unat n * unat u) buf)) b) c b'))"

definition read_done ::
  "'b spdk \<Rightarrow> 'b \<Rightarrow> blob \<Rightarrow> u64 \<Rightarrow> u64 \<Rightarrow> int \<Rightarrow> u8 list \<Rightarrow> 'b \<Rightarrow> bool" where
  "read_done L b blob off sz e bs b' \<longleftrightarrow>
     (let u = io_unit_size L b
      in u \<noteq> 0 \<and> (\<exists>k<POLLER_MAX_TIME. \<exists>c. bserrno c = e \<and> c_data c = bs \<and>
           lib_completes L k (submit L (Blob_io_read blob (off div u) (upper_div sz u)) b) c b'))"

definition resize_done :: "'b spdk \<Rightarrow> 'b \<Rightarrow> blob \<Rightarrow> u64 \<Rightarrow> bool \<Rightarrow> 'b \<Rightarrow> bool" where
  "resize_done L b blob n ok b' \<longleftrightarrow>
     (\<exists>k1 k2 c1 c2 b1 b2. k1 + k2 + 1 < POLLER_MAX_TIME \<and>
        lib_completes L k1 (submit L (Blob_resize blob n) b) c1 b1 \<and>
        (bserrno c1 = 0 \<longrightarrow> lib_completes L k2 (submit L (Blob_sync_md blob) b1) c2 b2) \<and>
        ok = (bserrno c1 = 0 \<and> bserrno c2 = 0) \<and> b' = (if bserrno c1 = 0 then b2 else b1))"

lemma blob_write_done:
  assumes "idle th" and "write_done L (lib th) blob off sz buf e b'"
  shows "\<exists>th'. generic_blob_io L blob sz off buf False th = Inr (e = 0, buf, th') \<and> settled b' th'"
proof -
  let ?u = "io_unit_size L (lib th)" and ?n = "upper_div sz (io_unit_size L (lib th))"
  obtain k c where "k < POLLER_MAX_TIME" "bserrno c = e" "?u \<noteq> 0" "unat ?n * unat ?u \<le> length buf"
    "lib_completes L k (submit L (Blob_io_write blob (off div ?u) ?n (take (unat ?n * unat ?u) buf)) (lib th)) c b'"
    using assms(2) unfolding write_done_def Let_def by auto
  then show ?thesis
    using blob_write_correct_aux [of th ?u L ?n sz buf k blob off c b'] assms(1) by simp
qed

lemma blob_read_done:
  assumes "idle th" and "read_done L (lib th) blob off sz e bs b'" and "length bs \<le> length buf"
  shows "\<exists>th'. generic_blob_io L blob sz off buf True th = Inr (e = 0, bs @ drop (length bs) buf, th')
    \<and> settled b' th'"
proof -
  let ?u = "io_unit_size L (lib th)"
  obtain k c where "k < POLLER_MAX_TIME" "bserrno c = e" "c_data c = bs" "?u \<noteq> 0"
    "lib_completes L k (submit L (Blob_io_read blob (off div ?u) (upper_div sz ?u)) (lib th)) c b'"
    using assms(2) unfolding read_done_def Let_def by auto
  then show ?thesis
    using blob_read_correct_aux [of th ?u L k blob off sz c b' buf] assms(1,3) by simp
qed

lemma blob_resize_done:
  assumes "idle th" and "sz \<noteq> 0" and "cluster_size L (lib th) \<noteq> 0"
    and "resize_done L (lib th) blob (upper_div sz (cluster_size L (lib th))) ok b'"
  shows "\<exists>th'. generic_blob_resize L blob sz th = Inr (ok, th') \<and> settled b' th'"
proof -
  obtain k1 k2 c1 c2 b1 b2 where "k1 + k2 + 1 < POLLER_MAX_TIME"
    "lib_completes L k1 (submit L (Blob_resize blob (upper_div sz (cluster_size L (lib th)))) (lib th)) c1 b1"
    "bserrno c1 = 0 \<longrightarrow> lib_completes L k2 (submit L (Blob_sync_md blob) b1) c2 b2"
    "ok = (bserrno c1 = 0 \<and> bserrno c2 = 0)" "b' = (if bserrno c1 = 0 then b2 else b1)"
    using assms(4) unfolding resize_done_def by (elim exE conjE) (rule that)
  then show ?thesis
    using blob_resize_correct_aux [of th sz "cluster_size L (lib th)" L k1 blob c1 b1 k2 c2 b2] assms(1-3)
    by simp
qed

text \<open>A library that completes at once.\<close>

lemma write_done_now:
  assumes "io_unit_size L b = u" and "u \<noteq> 0" and "unat (upper_div sz u) * unat u \<le> length buf"
    and "poll_lib L (submit L (Blob_io_write blob (off div u) (upper_div sz u)
           (take (unat (upper_div sz u) * unat u) buf)) b) = (b', Some c)" and "bserrno c = e"
  shows "write_done L b blob off sz buf e b'"
  unfolding write_done_def Let_def
  using assms by (intro conjI exI [of _ 0] exI [of _ c]) simp_all

lemma read_done_now:
  assumes "io_unit_size L b = u" and "u \<noteq> 0"
    and "poll_lib L (submit L (Blob_io_read blob (off div u) (upper_div sz u)) b) = (b', Some c)"
    and "bserrno c = e" and "c_data c = bs"
  shows "read_done L b blob off sz e bs b'"
  unfolding read_done_def Let_def
  using assms by (intro conjI exI [of _ 0] exI [of _ c]) simp_all

lemma resize_done_now:
  assumes "poll_lib L (submit L (Blob_resize blob n) b) = (b1, Some c1)" and "bserrno c1 = 0"
    and "poll_lib L (submit L (Blob_sync_md blob) b1) = (b', Some c2)" and "bserrno c2 = 0"
  shows "resize_done L b blob n True b'"
  unfolding resize_done_def
  using assms
  by (intro exI [of _ "0 :: nat"] exI [of _ c1] exI [of _ c2] exI [of _ b1] exI [of _ b'])
    (simp add: POLLER_MAX_TIME_def)

section \<open>Facts about the file operations\<close>

lemma write_persist_simps [simp]:
  "f_size (file_persist (write_persist f)) = max (f_size (file_persist f)) (f_pos f)"
  "i_writecount (file_persist (write_persist f)) = i_writecount (file_persist f) + 1"
  "f_blob (write_persist f) = f_blob f" "f_pos (write_persist f) = f_pos f"
  by (auto simp: write_persist_def Let_def max_def)

text \<open>Every write that returns, whatever the library did.\<close>

lemma write_result:
  assumes "simple_fs_write L f sz buf th = Inr (r, f', buf', th')"
  shows "f_size (file_persist f') = max (f_size (file_persist f)) (f_pos f)"
    and "f_blob f' = f_blob f"
    and "i_writecount (file_persist f') = i_writecount (file_persist f) + 1"
    and "r = sz \<and> f_pos f' = f_pos f + sz \<or> r = 0 \<and> f_pos f' = f_pos f"
  using assms unfolding simple_fs_write_def bind_res_Inr_iff
  by (auto simp: Let_def bind_res_Inr_iff split: if_splits)

lemma write_no_growth:
  assumes "idle th" and "f_pos f + sz \<le> get_blob_size L (f_blob f) th"
    and "write_done L (lib th) (f_blob f) (f_pos f) sz buf e b'"
  shows "\<exists>th'. simple_fs_write L f sz buf th =
       Inr (if e = 0 then (sz, (write_persist f)\<lparr>f_pos := f_pos f + sz\<rparr>, buf,
                 put_xattr L (f_blob f) file_xattr (File_ctx (file_persist (write_persist f))) th')
            else (0, write_persist f, buf, th')) \<and> settled b' th'"
proof -
  obtain th' where "generic_blob_io L (f_blob f) sz (f_pos f) buf False th = Inr (e = 0, buf, th')" "settled b' th'"
    using blob_write_done [OF assms(1,3)] by blast
  then show ?thesis
    using assms(2) by (auto simp: simple_fs_write_def write_reserve_def Let_def not_less)
qed

lemma write_growth:
  assumes "idle th" and "get_blob_size L (f_blob f) th < f_pos f + sz"
    and "cl = cluster_size L (lib th)" and "cl \<noteq> 0" and "get_blob_size L (f_blob f) th + cl \<noteq> 0"
    and "resize_done L (lib th) (f_blob f) (upper_div (get_blob_size L (f_blob f) th + cl) cl) ok b1"
    and "write_done L b1 (f_blob f) (f_pos f) sz buf e b'"
  shows "\<exists>th'. simple_fs_write L f sz buf th =
       Inr (if e = 0 then (sz, (write_persist f)\<lparr>f_pos := f_pos f + sz\<rparr>, buf,
                 put_xattr L (f_blob f) file_xattr (File_ctx (file_persist (write_persist f))) th')
            else (0, write_persist f, buf, th')) \<and> settled b' th'"
proof -
  obtain th1 where 1: "generic_blob_resize L (f_blob f) (get_blob_size L (f_blob f) th + cl) th = Inr (ok, th1)"
      "settled b1 th1"
    using blob_resize_done [OF assms(1,5)] assms(3,4,6) by metis
  obtain th' where "generic_blob_io L (f_blob f) sz (f_pos f) buf False th1 = Inr (e = 0, buf, th')" "settled b' th'"
    using blob_write_done [of th1 L "f_blob f" "f_pos f" sz buf e b'] assms(7) 1(2) by (auto simp: settled_def)
  then show ?thesis
    using assms(2,3) 1(1) by (auto simp: simple_fs_write_def write_reserve_def Let_def)
qed

lemma unat_one_more:
  fixes n cl :: u64
  assumes "(unat n + 1) * unat cl < 2 ^ 64"
  shows "unat (n * cl + cl) = unat n * unat cl + unat cl"
proof -
  have "unat n * unat cl + unat cl < 2 ^ 64" using assms by (simp add: algebra_simps)
  then show ?thesis
    by (simp add: unat_word_ariths take_bit_nat_eq_self flip: take_bit_eq_mod)
qed

text \<open>Growing by one cluster asks for exactly one cluster more.\<close>

lemma one_cluster_more:
  assumes "cl \<noteq> 0" and "(unat n + 1) * unat cl < 2 ^ 64"
  shows "upper_div (n * cl + cl) cl = n + 1"
proof -
  have cl: "0 < unat cl" using assms(1) by (simp add: unat_gt_0)
  have lt: "unat n * unat cl + unat cl < 2 ^ 64" using assms(2) by (simp add: algebra_simps)
  note e = unat_one_more [OF assms(2)]
  have "unat n < unat n * unat cl + unat cl" using cl
    by (cases "unat cl") auto
  then have n1: "unat n + 1 < 2 ^ 64" using lt
    by (metis add.commute add_le_cancel_left cl le_less_trans less_eq_Suc_le mult.right_neutral
        mult_le_mono2 add_mono plus_1_eq_Suc One_nat_def)
  have "unat (upper_div (n * cl + cl) cl) = (unat n * unat cl + unat cl - 1) div unat cl + 1"
    using unat_upper_div [of "n * cl + cl" cl] cl e by simp
  also have "(unat n * unat cl + unat cl - 1) div unat cl = unat n"
    using cl by (intro div_nat_eqI) (auto simp: algebra_simps)
  also have "unat n + 1 = unat (n + 1)"
    using n1 by (simp add: unat_word_ariths take_bit_nat_eq_self flip: take_bit_eq_mod)
  finally show ?thesis by (simp add: word_unat_eq_iff)
qed

section \<open>Properties\<close>

definition example_persist :: spdkfs_file_persist_ctx where
  "example_persist = \<lparr>i_uid = 0, i_gid = 0, i_atime = 0, i_mtime = 0, i_ctime = 0, f_size = 512,
     i_writecount = 3, f_blob_id = 1, f_dirty = False\<rparr>"

definition example_file :: spdkfs_file where
  "example_file = \<lparr>f_blob = 1, f_pos = 512, file_persist = example_persist\<rparr>"

definition example_disk :: mem_bs where
  "example_disk = mem_empty\<lparr>bs_data := [1 \<mapsto> replicate 1024 0]\<rparr>"

lemmas example_defs = example_persist_def example_file_def example_disk_def mem_empty_def answer_def

lemma example_write_done: "write_done (mem_lib 512 1024) example_disk 1 512 512 (replicate 512 7) 0
    (example_disk\<lparr>bs_data := [1 \<mapsto> replicate 512 0 @ replicate 512 7]\<rparr>)"
  by (rule write_done_now [where u = 512 and c = "\<lparr>bserrno = 0, c_blobid = 1, c_blob = 1, c_data = []\<rparr>"])
    (simp_all add: example_disk_def mem_empty_def answer_def upper_div_def)

lemma example_read_done: "read_done (mem_lib 512 1024) example_disk 1 0 512 0 (replicate 512 0) example_disk"
  by (rule read_done_now [where u = 512 and c = "\<lparr>bserrno = 0, c_blobid = 1, c_blob = 1, c_data = replicate 512 0\<rparr>"])
    (simp_all add: example_disk_def mem_empty_def answer_def upper_div_def)

lemma example_blob_size: "get_blob_size (mem_lib 512 1024) 1 (idle_thread example_disk) = 1024"
  by (simp add: get_blob_size_def example_disk_def)

lemma example_write:
  "\<exists>f' th'. simple_fs_write (mem_lib 512 1024) example_file 512 (replicate 512 7) (idle_thread example_disk) =
     Inr (512, f', replicate 512 7, th')"
  using write_no_growth [of "idle_thread example_disk" example_file 512 "mem_lib 512 1024" "replicate 512 7" 0]
    example_write_done example_blob_size
  by (fastforce simp: example_file_def)



text \<open>A write that does not fit asks the library for exactly one cluster more than the blob
  has, however large the write is, and then writes whatever came of the resize: its error, if
  any, is not looked at.\<close>

theorem file_write_grows:
  assumes "idle th" and "cl = cluster_size L (lib th)" and "n = num_clusters L (lib th) (f_blob f)"
    and "n * cl < f_pos f + sz" and "cl \<noteq> 0" and "(unat n + 1) * unat cl < 2 ^ 64"
    and "resize_done L (lib th) (f_blob f) (n + 1) ok b1"
    and "write_done L b1 (f_blob f) (f_pos f) sz buf e b'"
  shows "\<exists>f' th'. simple_fs_write L f sz buf th = Inr (if e = 0 then sz else 0, f', buf, th') \<and>
     f_pos f' = (if e = 0 then f_pos f + sz else f_pos f) \<and>
     f_size (file_persist f') = max (f_size (file_persist f)) (f_pos f) \<and>
     settled (if e = 0 then set_xattr L (f_blob f) file_xattr (File_ctx (file_persist f')) b' else b') th'"
proof -
  have size: "get_blob_size L (f_blob f) th = n * cl" using assms(2,3) by (simp add: get_blob_size_def)
  have up: "upper_div (n * cl + cl) cl = n + 1" by (rule one_cluster_more [OF assms(5,6)])
  have nz: "n * cl + cl \<noteq> 0"
  proof
    assume "n * cl + cl = 0"
    then have "unat (n * cl + cl) = 0" by simp
    then have "unat cl = 0" using unat_one_more [OF assms(6)] by simp
    then show False using assms(5) by (simp add: unat_eq_0)
  qed
  show ?thesis
    using write_growth [OF assms(1) _ assms(2,5) _ _ assms(8), unfolded size up, OF assms(4) nz assms(7)]
    by (auto split: if_splits)
qed

theorem file_write_grows_witness:
  "\<exists>f' th'. simple_fs_write (mem_lib 512 1024) (example_file\<lparr>f_pos := 1024\<rparr>) 512 (replicate 512 7)
         (idle_thread example_disk) = Inr (512, f', replicate 512 7, th') \<and>
     f_pos f' = 1536 \<and> f_size (file_persist f') = 1024 \<and>
     bs_data (lib th') = [1 \<mapsto> replicate 1024 0 @ replicate 512 7 @ replicate 512 0]"
proof -
  have "resize_done (mem_lib 512 1024) example_disk 1 2 True (example_disk\<lparr>bs_data := [1 \<mapsto> replicate 2048 0]\<rparr>)"
    by (rule resize_done_now [where ?b1.0 = "example_disk\<lparr>bs_data := [1 \<mapsto> replicate 2048 0]\<rparr>" and ?c1.0 = "\<lparr>bserrno = 0, c_blobid = 1, c_blob = 1, c_data = []\<rparr>" and ?c2.0 = "\<lparr>bserrno = 0, c_blobid = 1, c_blob = 1, c_data = []\<rparr>"])
      (simp_all add: example_disk_def mem_empty_def answer_def flip: replicate_add)
  moreover have "write_done (mem_lib 512 1024) (example_disk\<lparr>bs_data := [1 \<mapsto> replicate 2048 0]\<rparr>) 1 1024 512
      (replicate 512 7) 0 (example_disk\<lparr>bs_data := [1 \<mapsto> replicate 1024 0 @ replicate 512 7 @ replicate 512 0]\<rparr>)"
    by (rule write_done_now [where u = 512 and c = "\<lparr>bserrno = 0, c_blobid = 1, c_blob = 1, c_data = []\<rparr>"])
    (simp_all add: example_disk_def mem_empty_def answer_def upper_div_def)
  ultimately show ?thesis
    using file_write_grows [of "idle_thread example_disk" 1024 "mem_lib 512 1024" 1 "example_file\<lparr>f_pos := 1024\<rparr>" 512
        True "example_disk\<lparr>bs_data := [1 \<mapsto> replicate 2048 0]\<rparr>" "replicate 512 7" 0]
    by (fastforce simp: example_file_def example_persist_def example_disk_def settled_def)
qed

text \<open>A read within the file size returns the size with the library's bytes at the start of the
  buffer and advances the position; with an error it returns 0 and the position stays.\<close>

theorem file_read_correct:
  assumes "idle th" and "sz mod 512 = 0" and "f_pos f + sz \<le> f_size (file_persist f)"
    and "read_done L (lib th) (f_blob f) (f_pos f) sz e bs b'" and "length bs \<le> length buf"
  shows "\<exists>th'. simple_fs_read L f sz buf th =
       Inr (if e = 0 then sz else 0, if e = 0 then f\<lparr>f_pos := f_pos f + sz\<rparr> else f, bs @ drop (length bs) buf, th') \<and>
     settled (if e = 0 then set_xattr L (f_blob f) file_xattr (File_ctx (file_persist f)) b' else b') th'"
  using blob_read_done [OF assms(1,4,5)] assms(2,3) by (auto simp: simple_fs_read_def not_less)

theorem file_read_correct_witness:
  "\<exists>th'. simple_fs_read (mem_lib 512 1024) (example_file\<lparr>f_pos := 0\<rparr>) 512 (replicate 600 9) (idle_thread example_disk) =
       Inr (512, example_file, replicate 512 0 @ replicate 88 9, th')"
  using file_read_correct [of "idle_thread example_disk" 512 "example_file\<lparr>f_pos := 0\<rparr>" "mem_lib 512 1024" 0
        "replicate 512 0" example_disk "replicate 600 9"] example_read_done
  by (fastforce simp: example_file_def example_persist_def)

text \<open>What a file was last written is out of reach: after any successful write at or beyond
  the end of the file, going back to where it started and reading any non-empty number of
  sectors returns 0 without asking the library for anything, because the file size was raised
  to the position before the write only.\<close>

theorem file_written_unreadable:
  assumes "f_size (file_persist f) \<le> f_pos f"
    and "simple_fs_write L f sz buf th = Inr (sz, f', buf', th')"
    and "sz2 mod 512 = 0" and "sz2 \<noteq> 0" and "unat (f_pos f) + unat sz2 < 2 ^ 64"
  shows "simple_fs_read L (f'\<lparr>f_pos := f_pos f\<rparr>) sz2 buf2 th2 = Inr (0, f'\<lparr>f_pos := f_pos f\<rparr>, buf2, th2)"
proof -
  have "f_size (file_persist f') = f_pos f"
    using write_result(1) [OF assms(2)] assms(1) by (simp add: max_def)
  moreover have "f_pos f < f_pos f + sz2"
    using assms(4,5) by (simp add: word_less_nat_alt unat_word_ariths unat_gt_0)
  ultimately show ?thesis
    using assms(3) by (simp add: simple_fs_read_def)
qed

theorem file_written_unreadable_witness:
  "\<exists>f' th'. simple_fs_write (mem_lib 512 1024) example_file 512 (replicate 512 7) (idle_thread example_disk) =
       Inr (512, f', replicate 512 7, th') \<and>
     simple_fs_read (mem_lib 512 1024) (f'\<lparr>f_pos := 512\<rparr>) 512 (replicate 512 0) th' =
       Inr (0, f'\<lparr>f_pos := 512\<rparr>, replicate 512 0, th')"
proof -
  obtain f' th' where w: "simple_fs_write (mem_lib 512 1024) example_file 512 (replicate 512 7) (idle_thread example_disk) =
      Inr (512, f', replicate 512 7, th')"
    using example_write by blast
  then show ?thesis
    using file_written_unreadable [OF _ w, of 512 "replicate 512 0" th']
    by (simp add: example_file_def example_persist_def)
qed

text \<open>Creating a file and opening its blob again gives the persistent context back, with size
  0, provided the library returns the attribute that was stored last.\<close>

theorem file_create_open:
  assumes "simple_fs_create L garbage now f th = (f1, th1)" and "f_blob f2 = f_blob f"
    and "\<And>v. get_xattr L (set_xattr L (f_blob f) file_xattr v (lib th)) (f_blob f) file_xattr = Some v"
  shows "simple_fs_open L f2 th1 = Inr (f2\<lparr>file_persist := file_persist f1\<rparr>) \<and>
     f_size (file_persist f1) = 0 \<and> i_writecount (file_persist f1) = 0"
  using assms by (auto simp: simple_fs_create_def simple_fs_open_def Let_def)

theorem file_create_open_witness:
  "\<exists>f1 th1. simple_fs_create (mem_lib 512 1024) example_persist 99 example_file (idle_thread example_disk) = (f1, th1) \<and>
     simple_fs_open (mem_lib 512 1024) (example_file\<lparr>f_pos := 0\<rparr>) th1 = Inr (f1\<lparr>f_pos := 0\<rparr>) \<and>
     f_size (file_persist f1) = 0 \<and> i_ctime (file_persist f1) = 99"
proof -
  obtain f1 th1 where c: "simple_fs_create (mem_lib 512 1024) example_persist 99 example_file (idle_thread example_disk) = (f1, th1)"
    by fastforce
  moreover have "f_blob f1 = 1" "f_pos f1 = 512" "i_ctime (file_persist f1) = 99"
    using c by (auto simp: simple_fs_create_def example_file_def Let_def)
  ultimately show ?thesis
    using file_create_open [OF c, of "example_file\<lparr>f_pos := 0\<rparr>"]
    by (simp add: example_file_def)
qed

end
