(* ===== verification/Dir.thy ===== *)
theory Dir
  imports File
begin

text \<open>
  Directories (\<^verbatim>\<open>simple_fs/dir.c\<close>): a directory is a blob that holds an array of 520-byte
  entries, read into memory as a whole. The array is modelled by its bytes: entry \<open>i\<close> has its
  name at \<open>520 * i\<close>, terminated by a null byte if the code has put one there, and its blob id
  in the eight bytes from \<open>520 * i + 512\<close>. A C string argument is the list of its bytes
  without the terminator.
\<close>

section \<open>State\<close>

record spdkfs_dir =
  d_has_fs :: bool              \<comment> \<open>\<open>fs\<close> is not null\<close>
  d_blob :: blob
  d_initialized :: bool
  dir_persist :: spdkfs_dir_persist_ctx
  dirents :: "u8 list"          \<comment> \<open>the memory at \<open>dirents\<close>, empty when nothing is allocated\<close>
  d_dirty :: bool

definition SPDK_MAX_NAME_COUNT :: nat where "SPDK_MAX_NAME_COUNT = 512"

definition sizeof_dirent :: nat where "sizeof_dirent = 520"

definition dir_xattr :: string where "dir_xattr = ''dir_persistent''"

text \<open>Fresh memory of \<open>n\<close> bytes, holding whatever \<open>garbage\<close> says.\<close>

definition fresh_mem :: "(nat \<Rightarrow> u8) \<Rightarrow> nat \<Rightarrow> u8 list" where
  "fresh_mem garbage n = map garbage [0..<n]"

section \<open>Operations\<close>

definition load_dir_persist :: "'b spdk \<Rightarrow> spdkfs_dir \<Rightarrow> 'b thread \<Rightarrow> spdkfs_dir_persist_ctx res" where
  "load_dir_persist L dir th =
     (case get_xattr L (lib th) (d_blob dir) dir_xattr of
        None \<Rightarrow> Inl Uninit_read
      | Some v \<Rightarrow>
          if xattr_len v \<noteq> sizeof_dir_ctx then Inl Assert_failed
          else (case v of
                  Dir_ctx p \<Rightarrow> Inr p
                | File_ctx p \<Rightarrow> Inl Type_confusion
                | Raw bs \<Rightarrow> Inl Type_confusion))"

definition simple_dir_read ::
  "'b spdk \<Rightarrow> (nat \<Rightarrow> u8) \<Rightarrow> spdkfs_dir \<Rightarrow> 'b thread \<Rightarrow> (spdkfs_dir \<times> 'b thread) res" where
  "simple_dir_read L garbage dir th =
     (if \<not> d_has_fs dir then Inl Assert_failed
      else bind_res (load_dir_persist L dir th) (\<lambda>p.
        bind_res (generic_blob_io L (d_blob dir) (d_size p) 0 (fresh_mem garbage (unat (d_size p))) True th)
          (\<lambda>(ret, mem, th').
             Inr (dir\<lparr>dir_persist := p, dirents := mem, d_initialized := True, d_dirty := False\<rparr>, th'))))"

definition simple_dir_write :: "'b spdk \<Rightarrow> spdkfs_dir \<Rightarrow> 'b thread \<Rightarrow> (spdkfs_dir \<times> 'b thread) res" where
  "simple_dir_write L dir th =
     (if \<not> d_dirty dir then Inr (dir, th)
      else bind_res (generic_blob_io L (d_blob dir) (d_size (dir_persist dir)) 0 (dirents dir) False
                       (put_xattr L (d_blob dir) dir_xattr (Dir_ctx (dir_persist dir)) th))
             (\<lambda>(ret, mem, th'). Inr (dir\<lparr>d_dirty := False\<rparr>, th')))"

definition dir_reserve :: "'b spdk \<Rightarrow> spdkfs_dir \<Rightarrow> 'b thread \<Rightarrow> 'b thread res" where
  "dir_reserve L dir th =
     (if get_blob_size L (d_blob dir) th < d_size (dir_persist dir)
      then bind_res (generic_blob_resize L (d_blob dir) (d_size (dir_persist dir)) th) (\<lambda>(ret, th'). Inr th')
      else Inr th)"

definition simple_dir_close :: "'b spdk \<Rightarrow> bool \<Rightarrow> spdkfs_dir \<Rightarrow> 'b thread \<Rightarrow> 'b thread res" where
  "simple_dir_close L done0 dir th =
     bind_res
       (if d_dirty dir then
          bind_res (dir_reserve L dir th) (\<lambda>th1.
          bind_res (generic_blob_io L (d_blob dir) (d_size (dir_persist dir)) 0 (dirents dir) False th1)
            (\<lambda>(ret, mem, th2). Inr (put_xattr L (d_blob dir) dir_xattr (Dir_ctx (dir_persist dir)) th2)))
        else Inr th)
       (\<lambda>th3. bind_res (blob_close L done0 (d_blob dir) th3) (\<lambda>(ret, th4). Inr th4))"

definition simple_dir_create ::
  "'b spdk \<Rightarrow> spdkfs_dir_persist_ctx \<Rightarrow> u64 \<Rightarrow> spdkfs_dir \<Rightarrow> 'b thread \<Rightarrow> spdkfs_dir \<times> 'b thread" where
  "simple_dir_create L garbage now dir th =
     (let p = garbage\<lparr>d_dirent_count := 0, d_blob_id := get_id L (lib th) (d_blob dir), d_ctime := now, d_size := 0\<rparr>
      in (dir\<lparr>dir_persist := p, d_initialized := True, d_dirty := False\<rparr>,
          put_xattr L (d_blob dir) dir_xattr (Dir_ctx p) th))"

text \<open>The table of directory operations, which \<^verbatim>\<open>bind_dir_ops\<close> stores in every directory that is made.\<close>

record 'b spdk_dir_operations =
  op_mkdir :: "spdkfs_dir_persist_ctx \<Rightarrow> u64 \<Rightarrow> spdkfs_dir \<Rightarrow> 'b thread \<Rightarrow> spdkfs_dir \<times> 'b thread"
  op_readdir :: "(nat \<Rightarrow> u8) \<Rightarrow> spdkfs_dir \<Rightarrow> 'b thread \<Rightarrow> (spdkfs_dir \<times> 'b thread) res"
  op_writedir :: "spdkfs_dir \<Rightarrow> 'b thread \<Rightarrow> (spdkfs_dir \<times> 'b thread) res"
  op_closedir :: "bool \<Rightarrow> spdkfs_dir \<Rightarrow> 'b thread \<Rightarrow> 'b thread res"

definition simplefs_dir_ops :: "'b spdk \<Rightarrow> 'b spdk_dir_operations" where
  "simplefs_dir_ops L = \<lparr>op_mkdir = simple_dir_create L, op_readdir = simple_dir_read L,
     op_writedir = simple_dir_write L, op_closedir = simple_dir_close L\<rparr>"

lemma dir_ops [simp]:
  "op_mkdir (simplefs_dir_ops L) = simple_dir_create L" "op_readdir (simplefs_dir_ops L) = simple_dir_read L"
  "op_writedir (simplefs_dir_ops L) = simple_dir_write L" "op_closedir (simplefs_dir_ops L) = simple_dir_close L"
  by (simp_all add: simplefs_dir_ops_def)

subsection \<open>Names\<close>

text \<open>\<^verbatim>\<open>strcmp(mem, name) == 0\<close>, reading no further than the first difference.\<close>

fun strcmp_eq :: "u8 list \<Rightarrow> u8 list \<Rightarrow> bool res" where
  "strcmp_eq [] cs = Inl Out_of_bounds"
| "strcmp_eq (m # ms) [] = Inr (m = 0)"
| "strcmp_eq (m # ms) (c # cs) = (if m = c then strcmp_eq ms cs else Inr False)"

function lookup_dirents :: "u8 list \<Rightarrow> nat \<Rightarrow> u8 list \<Rightarrow> nat \<Rightarrow> int res" where
  "lookup_dirents mem count name i =
     (if i < count
      then bind_res (strcmp_eq (drop (sizeof_dirent * i) mem) name) (\<lambda>eq.
             if eq then Inr (int i) else lookup_dirents mem count name (Suc i))
      else Inr (- 1))"
  by pat_completeness auto
termination
  by (relation "measure (\<lambda>(mem, count, name, i). count - i)") auto

declare lookup_dirents.simps [simp del]

definition spdkfs_dir_lookup :: "spdkfs_dir \<Rightarrow> u8 list \<Rightarrow> int res" where
  "spdkfs_dir_lookup dir name =
     lookup_dirents (dirents dir) (unat (d_dirent_count (dir_persist dir))) name 0"

text \<open>
  \<open>get_next_part\<close>: the result, the \<^verbatim>\<open>part\<close> buffer of 513 bytes and the advanced source. The copy
  loop stops with -1 at a component of more than 512 bytes.
\<close>

definition slash :: u8 where "slash = 47"

fun copy_part :: "u8 list \<Rightarrow> nat \<Rightarrow> u8 list \<Rightarrow> int \<times> nat \<times> u8 list \<times> u8 list" where
  "copy_part [] n part = (1, n, part, [])"
| "copy_part (c # cs) n part =
     (if c = slash then (1, n, part, c # cs)
      else if n < SPDK_MAX_NAME_COUNT then copy_part cs (Suc n) (part[n := c])
      else (- 1, n, part, c # cs))"

definition get_next_part :: "u8 list \<Rightarrow> u8 list \<Rightarrow> int \<times> u8 list \<times> u8 list" where
  "get_next_part part srcp =
     (let src = dropWhile (\<lambda>c. c = slash) srcp
      in if src = [] then (0, part, srcp)
         else (case copy_part src 0 part of
                 (r, n, part', src') \<Rightarrow>
                   if r = - 1 then (- 1, part', srcp) else (1, part'[n := 0], src')))"

section \<open>Lookup\<close>

text \<open>The name of entry \<open>i\<close>, and entries whose name ends within its 512 bytes.\<close>

definition entry_name :: "u8 list \<Rightarrow> nat \<Rightarrow> u8 list" where
  "entry_name mem i = takeWhile (\<lambda>c. c \<noteq> 0) (drop (sizeof_dirent * i) mem)"

definition named_entries :: "u8 list \<Rightarrow> nat \<Rightarrow> bool" where
  "named_entries mem n \<longleftrightarrow> (\<forall>i<n. 0 \<in> set (take SPDK_MAX_NAME_COUNT (drop (sizeof_dirent * i) mem)))"

definition dir_names :: "spdkfs_dir \<Rightarrow> u8 list list" where
  "dir_names dir = map (entry_name (dirents dir)) [0..<unat (d_dirent_count (dir_persist dir))]"

lemma strcmp_eq_correct:
  "0 \<in> set ms \<Longrightarrow> 0 \<notin> set name \<Longrightarrow> strcmp_eq ms name = Inr (takeWhile (\<lambda>c. c \<noteq> 0) ms = name)"
  by (induction ms name rule: strcmp_eq.induct) auto

lemma lookup_dirents_correct:
  assumes "named_entries mem n" and "0 \<notin> set name"
  shows "i \<le> n \<Longrightarrow> lookup_dirents mem n name i =
    Inr (case find (\<lambda>j. entry_name mem j = name) [i..<n] of None \<Rightarrow> - 1 | Some j \<Rightarrow> int j)"
proof (induction "n - i" arbitrary: i)
  case 0
  then show ?case by (subst lookup_dirents.simps) simp
next
  case (Suc k)
  then have i: "i < n" "k = n - Suc i" "Suc i \<le> n" by simp_all
  have "0 \<in> set (drop (sizeof_dirent * i) mem)"
    using assms(1) i(1) by (auto simp: named_entries_def dest: in_set_takeD)
  then have "strcmp_eq (drop (sizeof_dirent * i) mem) name = Inr (entry_name mem i = name)"
    using strcmp_eq_correct assms(2) by (simp add: entry_name_def)
  then show ?case
    using Suc.hyps(1) [OF i(2,3)] i(1) by (subst lookup_dirents.simps) (simp add: upt_conv_Cons)
qed

lemma find_upt_SomeD:
  assumes "find P [i..<n] = Some j"
  shows "i \<le> j \<and> j < n \<and> P j \<and> (\<forall>k. i \<le> k \<longrightarrow> k < j \<longrightarrow> \<not> P k)"
proof -
  obtain l where l: "l < n - i" "P (i + l)" "j = i + l" "\<forall>m<l. \<not> P (i + m)"
    using assms unfolding find_Some_iff by auto
  have "\<not> P k" if "i \<le> k" "k < j" for k
    using l(3,4) that by (metis add_less_cancel_left le_Suc_ex)
  then show ?thesis using l by auto
qed

section \<open>Paths\<close>

lemma copy_part_long:
  "length part = 513 \<Longrightarrow> n \<le> 512 \<Longrightarrow> 512 < n + length (takeWhile (\<lambda>c. c \<noteq> slash) src) \<Longrightarrow>
     \<exists>m part' rest. copy_part src n part = (- 1, m, part', rest)"
  by (induction src arbitrary: n part) (auto simp: SPDK_MAX_NAME_COUNT_def split: if_splits)

lemma copy_part_fits:
  "length part = 513 \<Longrightarrow> n + length (takeWhile (\<lambda>c. c \<noteq> slash) src) \<le> 512 \<Longrightarrow>
     copy_part src n part =
       (1, n + length (takeWhile (\<lambda>c. c \<noteq> slash) src),
        take n part @ takeWhile (\<lambda>c. c \<noteq> slash) src @ drop (n + length (takeWhile (\<lambda>c. c \<noteq> slash) src)) part,
        dropWhile (\<lambda>c. c \<noteq> slash) src)"
proof (induction src arbitrary: n part)
  case Nil
  then show ?case by simp
next
  case (Cons c cs)
  show ?case
  proof (cases "c = slash")
    case False
    with Cons.prems have "n < length part" by simp
    then have "take (Suc n) (part[n := c]) = take n part @ [c]"
      by (simp add: take_Suc_conv_app_nth take_update_swap list_update_append min_def)
    then show ?thesis
      using False Cons.prems Cons.IH [of "part[n := c]" "Suc n"]
      by (simp add: SPDK_MAX_NAME_COUNT_def)
  qed (simp)
qed

text \<open>What \<open>get_next_part\<close> does, in terms of the first component \<open>w\<close> of the path.\<close>

lemma get_next_part_result:
  assumes "length part = 513"
    and "src = dropWhile (\<lambda>c. c = slash) srcp" and "w = takeWhile (\<lambda>c. c \<noteq> slash) src"
  shows "get_next_part part srcp =
    (if src = [] then (0, part, srcp)
     else if length w \<le> SPDK_MAX_NAME_COUNT
     then (1, w @ 0 # drop (Suc (length w)) part, dropWhile (\<lambda>c. c \<noteq> slash) src)
     else (- 1, fst (snd (get_next_part part srcp)), srcp))"
proof (cases "length w \<le> SPDK_MAX_NAME_COUNT")
  case True
  then have "(w @ drop (length w) part)[length w := 0] = w @ 0 # drop (Suc (length w)) part"
    using assms(1) by (simp add: SPDK_MAX_NAME_COUNT_def list_update_append drop_update_swap Cons_nth_drop_Suc [symmetric])
  then show ?thesis
    using True copy_part_fits [of part 0 src] assms
    by (auto simp: get_next_part_def Let_def SPDK_MAX_NAME_COUNT_def)
next
  case False
  then obtain m part' rest where "copy_part src 0 part = (- 1, m, part', rest)"
    using copy_part_long [of part 0 src] assms by (auto simp: SPDK_MAX_NAME_COUNT_def)
  then show ?thesis
    using False assms by (auto simp: get_next_part_def Let_def)
qed

text \<open>All components of a path, as a caller's loop collects them; \<open>None\<close> when one is too long.\<close>

function all_parts :: "u8 list \<Rightarrow> u8 list \<Rightarrow> u8 list list option" where
  "all_parts part srcp =
     (case get_next_part part srcp of
        (r, part', srcp') \<Rightarrow>
          if r = 1 \<and> length srcp' < length srcp
          then map_option ((#) (takeWhile (\<lambda>c. c \<noteq> 0) part')) (all_parts part' srcp')
          else if r = 0 then Some [] else None)"
  by pat_completeness auto
termination
  by (relation "measure (\<lambda>(part, srcp). length srcp)") auto

declare all_parts.simps [simp del]

lemma next_part_component:
  assumes "length part = 513" and "w \<noteq> []" and "slash \<notin> set w" and "length w \<le> 512"
    and "rest = [] \<or> hd rest = slash"
  shows "\<exists>part'. get_next_part part (slash # w @ rest) = (1, w @ 0 # part', rest) \<and>
    length (w @ 0 # part') = 513"
proof -
  have "hd w \<noteq> slash" using assms(2,3) hd_in_set by metis
  then have src: "w @ rest = dropWhile (\<lambda>c. c = slash) (slash # w @ rest)"
    using assms(2) by (cases w) auto
  have "takeWhile (\<lambda>c. c \<noteq> slash) (w @ rest) = w" "dropWhile (\<lambda>c. c \<noteq> slash) (w @ rest) = rest"
    using assms(3,5) by (auto simp: takeWhile_append dropWhile_append, (cases rest, auto)+)
  then show ?thesis
    using get_next_part_result [OF assms(1) src refl] assms(1,2,4)
    by (auto simp: SPDK_MAX_NAME_COUNT_def intro!: exI)
qed

lemma all_parts_step:
  assumes "length part = 513" and "w \<noteq> []" and "slash \<notin> set w" and "0 \<notin> set w" and "length w \<le> 512"
    and "rest = [] \<or> hd rest = slash"
  shows "\<exists>part'. length part' = 513 \<and>
    all_parts part (slash # w @ rest) = map_option ((#) w) (all_parts part' rest)"
proof -
  obtain part' where p: "get_next_part part (slash # w @ rest) = (1, w @ 0 # part', rest)"
      "length (w @ 0 # part') = 513"
    using next_part_component [OF assms(1-3,5,6)] by blast
  have "takeWhile (\<lambda>c. c \<noteq> 0) (w @ 0 # part') = w"
    using assms(4) by (auto simp: takeWhile_append)
  then show ?thesis
    using p by (intro exI [of _ "w @ 0 # part'"], subst all_parts.simps) simp
qed

lemma dir_close_done:
  assumes "idle th" and "d_dirty dir" and "d_size (dir_persist dir) \<le> get_blob_size L (d_blob dir) th"
    and "write_done L (lib th) (d_blob dir) 0 (d_size (dir_persist dir)) (dirents dir) e b"
    and "lib_completes L k (submit L (Blob_close (d_blob dir))
      (set_xattr L (d_blob dir) dir_xattr (Dir_ctx (dir_persist dir)) b)) c b'" and "k < POLLER_MAX_TIME"
  shows "\<exists>th'. simple_dir_close L False dir th = Inr th' \<and> settled b' th'"
proof -
  obtain th1 where 1: "generic_blob_io L (d_blob dir) (d_size (dir_persist dir)) 0 (dirents dir) False th =
      Inr (e = 0, dirents dir, th1)" "settled b th1"
    using blob_write_done [OF assms(1,4)] by auto
  let ?th = "put_xattr L (d_blob dir) dir_xattr (Dir_ctx (dir_persist dir)) th1"
  obtain th2 where "blob_close L False (d_blob dir) ?th = Inr (bserrno c = 0, th2)" "settled b' th2"
    using blob_close_unlink_correct_aux [of ?th L k "Blob_close (d_blob dir)" c b' "d_blob dir"] assms(5,6) 1(2)
    by (auto simp: settled_def)
  then show ?thesis
    using 1 assms(2,3) by (simp add: simple_dir_close_def dir_reserve_def leD)
qed

lemma dir_close_clean:
  assumes "idle th" and "\<not> d_dirty dir" and "lib_completes L k (submit L (Blob_close (d_blob dir)) (lib th)) c b'"
    and "k < POLLER_MAX_TIME"
  shows "\<exists>th'. simple_dir_close L False dir th = Inr th' \<and> settled b' th'"
proof -
  obtain th2 where "blob_close L False (d_blob dir) th = Inr (bserrno c = 0, th2)" "settled b' th2"
    using blob_close_unlink_correct_aux [of th L k "Blob_close (d_blob dir)" c b' "d_blob dir"] assms by auto
  then show ?thesis using assms(2) by (simp add: simple_dir_close_def)
qed

section \<open>Properties\<close>

lemma dir_lookup_names:
  assumes "named_entries (dirents dir) (unat (d_dirent_count (dir_persist dir)))" and "0 \<notin> set name"
  shows "(\<exists>i. spdkfs_dir_lookup dir name = Inr (int i) \<and> i < length (dir_names dir) \<and>
       dir_names dir ! i = name \<and> name \<notin> set (take i (dir_names dir))) \<or>
     spdkfs_dir_lookup dir name = Inr (- 1) \<and> name \<notin> set (dir_names dir)"
proof -
  let ?n = "unat (d_dirent_count (dir_persist dir))"
  let ?f = "find (\<lambda>j. entry_name (dirents dir) j = name) [0..<?n]"
  have l: "spdkfs_dir_lookup dir name = Inr (case ?f of None \<Rightarrow> - 1 | Some j \<Rightarrow> int j)"
    unfolding spdkfs_dir_lookup_def by (rule lookup_dirents_correct [OF assms]) simp
  show ?thesis
  proof (cases ?f)
    case None
    then have "name \<notin> set (dir_names dir)" by (auto simp: find_None_iff dir_names_def)
    then show ?thesis using l None by simp
  next
    case (Some j)
    from find_upt_SomeD [OF Some]
    have "j < ?n" "entry_name (dirents dir) j = name" "\<forall>k<j. entry_name (dirents dir) k \<noteq> name" by auto
    then show ?thesis
      using l Some by (intro disjI1 exI [of _ j]) (auto simp: dir_names_def take_map)
  qed
qed

text \<open>Lookup in a directory whose names all end within their field never reads out of bounds.
  It returns the number of the first entry with exactly the given name, and -1 when no entry
  has it.\<close>

theorem dir_lookup_correct:
  assumes "named_entries (dirents dir) (unat (d_dirent_count (dir_persist dir)))" and "0 \<notin> set name"
  shows "(\<exists>i. spdkfs_dir_lookup dir name = Inr (int i) \<and> i < length (dir_names dir) \<and>
       dir_names dir ! i = name \<and> name \<notin> set (take i (dir_names dir))) \<or>
     spdkfs_dir_lookup dir name = Inr (- 1) \<and> name \<notin> set (dir_names dir)"
  using assms by (rule dir_lookup_names)

definition example_dirents :: "u8 list" where
  "example_dirents = [97, 0] @ replicate 510 7 @ [1, 0, 0, 0, 0, 0, 0, 0] @
     [98, 99, 0] @ replicate 509 7 @ [2, 0, 0, 0, 0, 0, 0, 0]"

definition example_dir :: spdkfs_dir where
  "example_dir = \<lparr>d_has_fs = True, d_blob = 1, d_initialized = True,
     dir_persist = \<lparr>d_mode = 0, d_atime = 0, d_mtime = 0, d_ctime = 0, d_dirent_count = 2, d_size = 1040, d_blob_id = 1\<rparr>,
     dirents = example_dirents, d_dirty = False\<rparr>"

lemma example_dir_named: "named_entries (dirents example_dir) (unat (d_dirent_count (dir_persist example_dir)))"
proof -
  have "i = 0 \<or> i = 1" if "i < (2 :: nat)" for i
    using that by auto
  then show ?thesis
    by (fastforce simp: named_entries_def example_dir_def example_dirents_def sizeof_dirent_def
        SPDK_MAX_NAME_COUNT_def)
qed

lemma example_dir_names: "dir_names example_dir = [[97], [98, 99]]"
  by (simp add: dir_names_def example_dir_def example_dirents_def entry_name_def sizeof_dirent_def upt_rec)

theorem dir_lookup_correct_witness:
  "spdkfs_dir_lookup example_dir [98, 99] = Inr 1"
proof -
  have "i = 1" if "i < length [[97], [98, 99 :: u8]]" "[[97], [98, 99 :: u8]] ! i = [98, 99]" for i
    using that by (cases i) auto
  then show ?thesis
    using dir_lookup_correct [OF example_dir_named, of "[98, 99]"] by (auto simp: example_dir_names)
qed

text \<open>C21. Printing a list of names as an absolute path and taking it apart with \<open>get_next_part\<close> gives
  the names back, for every list of non-empty names of at most 512 bytes without slashes.\<close>

theorem path_round_trip:
  assumes "length part = 513" and "\<forall>w \<in> set ws. w \<noteq> [] \<and> slash \<notin> set w \<and> 0 \<notin> set w \<and> length w \<le> 512"
  shows "all_parts part (concat (map (\<lambda>w. slash # w) ws)) = Some ws"
  using assms
proof (induction ws arbitrary: part)
  case Nil
  then show ?case by (subst all_parts.simps) (simp add: get_next_part_def)
next
  case (Cons w ws)
  let ?rest = "concat (map (\<lambda>w. slash # w) ws)"
  have "?rest = [] \<or> hd ?rest = slash" by (cases ws) auto
  then obtain part' where "length part' = 513"
      "all_parts part (slash # w @ ?rest) = map_option ((#) w) (all_parts part' ?rest)"
    using all_parts_step [of part w ?rest] Cons.prems by auto
  then show ?case using Cons.IH [of part'] Cons.prems(2) by simp
qed

theorem path_round_trip_witness:
  "all_parts (replicate 513 7) (47 # [117, 115, 114] @ 47 # [98]) = Some [[117, 115, 114], [98]]"
  using path_round_trip [of "replicate 513 7" "[[117, 115, 114], [98]]"] by (simp add: slash_def)

text \<open>A component of more than 512 bytes is rejected with -1 and leaves the source where it
  was; a path of slashes only yields 0.\<close>

theorem next_part_errors:
  assumes "length part = 513" and "src = dropWhile (\<lambda>c. c = slash) srcp"
    and "src = [] \<or> 512 < length (takeWhile (\<lambda>c. c \<noteq> slash) src)"
  shows "fst (get_next_part part srcp) = (if src = [] then 0 else - 1) \<and>
     snd (snd (get_next_part part srcp)) = srcp"
  using get_next_part_result [OF assms(1,2) refl] assms(3)
  by (cases "src = []") (auto simp: SPDK_MAX_NAME_COUNT_def, (metis fst_conv snd_conv)+)

theorem next_part_errors_witness:
  "fst (get_next_part (replicate 513 7) [47, 47]) = 0 \<and> snd (snd (get_next_part (replicate 513 7) [47, 47])) = [47, 47]"
  using next_part_errors [of "replicate 513 7" "[]" "[47, 47]"] by (simp add: slash_def)

text \<open>Reading a directory loads the stored context and puts the library's bytes into fresh
  memory; whatever error the read has is ignored, and the directory counts as initialised.\<close>

theorem dir_read_correct:
  assumes "idle th" and "d_has_fs dir" and "get_xattr L (lib th) (d_blob dir) dir_xattr = Some (Dir_ctx p)"
    and "read_done L (lib th) (d_blob dir) 0 (d_size p) e bs b'" and "length bs \<le> unat (d_size p)"
  shows "\<exists>dir' th'. simple_dir_read L garbage dir th = Inr (dir', th') \<and> settled b' th' \<and>
     dir_persist dir' = p \<and> d_initialized dir' \<and> \<not> d_dirty dir' \<and> d_blob dir' = d_blob dir \<and>
     take (length bs) (dirents dir') = bs \<and> length (dirents dir') = unat (d_size p)"
proof -
  have "load_dir_persist L dir th = Inr p"
    using assms(3) by (simp add: load_dir_persist_def sizeof_dir_ctx_def)
  then show ?thesis
    using blob_read_done [OF assms(1,4), of "fresh_mem garbage (unat (d_size p))"] assms(2,5)
    by (auto simp: simple_dir_read_def fresh_mem_def)
qed

definition example_dir_disk :: mem_bs where
  "example_dir_disk = mem_empty\<lparr>bs_data := [1 \<mapsto> example_dirents @ replicate 496 0],
     bs_xattr := (\<lambda>i. if i = 1 then [dir_xattr \<mapsto> Dir_ctx ((dir_persist example_dir)\<lparr>d_size := 1536\<rparr>)] else Map.empty)\<rparr>"

lemma example_dir_read_done:
  "read_done (mem_lib 512 1536) example_dir_disk 1 0 1536 0 (example_dirents @ replicate 496 0) example_dir_disk"
  by (rule read_done_now [where u = 512 and c = "\<lparr>bserrno = 0, c_blobid = 1, c_blob = 1,
        c_data = example_dirents @ replicate 496 0\<rparr>"])
    (simp_all add: example_dir_disk_def mem_empty_def answer_def upper_div_def example_dirents_def)

theorem dir_read_correct_witness:
  "\<exists>dir' th'. simple_dir_read (mem_lib 512 1536) (\<lambda>_. 0) (example_dir\<lparr>dirents := []\<rparr>) (idle_thread example_dir_disk) =
      Inr (dir', th') \<and> dirents dir' = example_dirents @ replicate 496 0"
  using dir_read_correct [of "idle_thread example_dir_disk" "example_dir\<lparr>dirents := []\<rparr>" "mem_lib 512 1536"
      "(dir_persist example_dir)\<lparr>d_size := 1536\<rparr>" 0 "example_dirents @ replicate 496 0" example_dir_disk "\<lambda>_. 0"]
    example_dir_read_done
  by (fastforce simp: example_dir_def example_dir_disk_def example_dirents_def)

text \<open>Writing a dirty directory clears its dirty flag even if the write fails: the error is
  ignored, and closing the directory afterwards only closes the blob, so the entries added
  since the last write are lost.\<close>

theorem dir_write_ignores_error:
  assumes "idle th" and "d_dirty dir"
    and "write_done L (set_xattr L (d_blob dir) dir_xattr (Dir_ctx (dir_persist dir)) (lib th))
      (d_blob dir) 0 (d_size (dir_persist dir)) (dirents dir) e b"
    and "lib_completes L k (submit L (Blob_close (d_blob dir)) b) c b'" and "k < POLLER_MAX_TIME"
  shows "\<exists>th1 th2. simple_dir_write L dir th = Inr (dir\<lparr>d_dirty := False\<rparr>, th1) \<and> settled b th1 \<and>
     simple_dir_close L False (dir\<lparr>d_dirty := False\<rparr>) th1 = Inr th2 \<and> settled b' th2"
proof -
  let ?th = "put_xattr L (d_blob dir) dir_xattr (Dir_ctx (dir_persist dir)) th"
  obtain th1 where 1: "generic_blob_io L (d_blob dir) (d_size (dir_persist dir)) 0 (dirents dir) False ?th =
      Inr (e = 0, dirents dir, th1)" "settled b th1"
    using blob_write_done [of ?th L "d_blob dir" 0 "d_size (dir_persist dir)" "dirents dir" e b] assms by auto
  obtain th2 where "blob_close L False (d_blob dir) th1 = Inr (bserrno c = 0, th2)" "settled b' th2"
    using blob_close_unlink_correct_aux [of th1 L k "Blob_close (d_blob dir)" c b' "d_blob dir"] assms(4,5) 1(2)
    by (auto simp: settled_def)
  then show ?thesis
    using 1 assms(2) by (simp add: simple_dir_write_def simple_dir_close_def)
qed

theorem dir_write_ignores_error_witness:
  "\<exists>th1. simple_dir_write (mem_lib 512 1536) (example_dir\<lparr>d_dirty := True, dirents := replicate 1536 7\<rparr>) (idle_thread mem_empty) =
      Inr (example_dir\<lparr>d_dirty := False, dirents := replicate 1536 7\<rparr>, th1)"
proof -
  let ?d = "example_dir\<lparr>d_dirty := True, dirents := replicate 1536 7\<rparr>"
  let ?b = "set_xattr (mem_lib 512 1536) 1 dir_xattr (Dir_ctx (dir_persist example_dir)) mem_empty"
  have "write_done (mem_lib 512 1536) ?b 1 0 1040 (replicate 1536 7) (- 2) ?b"
    by (rule write_done_now [where u = 512 and c = "\<lparr>bserrno = - 2, c_blobid = 1, c_blob = 1, c_data = []\<rparr>"])
      (simp_all add: mem_empty_def answer_def upper_div_def)
  then show ?thesis
    using dir_write_ignores_error [of "idle_thread mem_empty" ?d "mem_lib 512 1536" "- 2" ?b 0
        "\<lparr>bserrno = 0, c_blobid = 1, c_blob = 1, c_data = []\<rparr>" ?b]
    by (auto simp: example_dir_def mem_empty_def answer_def)
qed

lemma example_close_write: "write_done (mem_lib 512 1536) example_dir_disk 1 0 1040 (replicate 1536 7) 0
    (example_dir_disk\<lparr>bs_data := [1 \<mapsto> replicate 1536 7]\<rparr>)"
  by (rule write_done_now [where u = 512 and c = "\<lparr>bserrno = 0, c_blobid = 1, c_blob = 1, c_data = []\<rparr>"])
    (simp_all add: example_dir_disk_def example_dirents_def mem_empty_def answer_def upper_div_def)

lemma example_dir_disk_size: "get_blob_size (mem_lib 512 1536) 1 (idle_thread example_dir_disk) = 1536"
  by (simp add: get_blob_size_def example_dir_disk_def example_dirents_def)

text \<open>Closing a dirty directory that fits into its blob writes the whole entry array, stores
  the context and closes the blob, in that order.\<close>

theorem dir_close_correct:
  assumes "idle th" and "d_dirty dir" and "d_size (dir_persist dir) \<le> get_blob_size L (d_blob dir) th"
    and "write_done L (lib th) (d_blob dir) 0 (d_size (dir_persist dir)) (dirents dir) e b"
    and "lib_completes L k (submit L (Blob_close (d_blob dir))
      (set_xattr L (d_blob dir) dir_xattr (Dir_ctx (dir_persist dir)) b)) c b'" and "k < POLLER_MAX_TIME"
  shows "\<exists>th'. simple_dir_close L False dir th = Inr th' \<and> settled b' th'"
  using assms by (rule dir_close_done)

theorem dir_close_correct_witness:
  "\<exists>th'. simple_dir_close (mem_lib 512 1536) False
        (example_dir\<lparr>d_dirty := True, dirents := replicate 1536 7\<rparr>) (idle_thread example_dir_disk) = Inr th' \<and>
     bs_data (lib th') = [1 \<mapsto> replicate 1536 7] \<and>
     bs_xattr (lib th') 1 dir_xattr = Some (Dir_ctx (dir_persist example_dir))"
proof -
  let ?d = "example_dir\<lparr>d_dirty := True, dirents := replicate 1536 7\<rparr>"
  let ?b = "example_dir_disk\<lparr>bs_data := [1 \<mapsto> replicate 1536 7]\<rparr>"
  have "\<exists>th'. simple_dir_close (mem_lib 512 1536) False ?d (idle_thread example_dir_disk) = Inr th' \<and>
      settled (?b\<lparr>bs_xattr := (bs_xattr ?b)(1 := (bs_xattr ?b 1)(dir_xattr \<mapsto> Dir_ctx (dir_persist example_dir)))\<rparr>) th'"
    by (intro dir_close_correct [where b = ?b and e = 0 and k = 0 and
          c = "\<lparr>bserrno = 0, c_blobid = 1, c_blob = 1, c_data = []\<rparr>"])
      (use example_close_write example_dir_disk_size in
        \<open>simp_all add: example_dir_def example_dir_disk_def mem_empty_def answer_def\<close>)
  then show ?thesis
    by (auto simp: settled_def)
qed

end
