(* ===== verification/Radix_Tree.thy ===== *)
theory Radix_Tree
  imports Interfaces
begin

text \<open>
  The radix tree of \<^verbatim>\<open>spdk_fs/radix_tree.c\<close>: a 64-way trie that maps an
  \<^verbatim>\<open>unsigned long\<close> to a non-null \<^verbatim>\<open>void *\<close>, with the height of the tree kept in its
  root and the number of non-null slots kept in every node.
\<close>

unbundle bit_operations_syntax

section \<open>Data\<close>

text \<open>
  A \<^verbatim>\<open>void *slots[64]\<close> entry is null, an item stored by the client, or a pointer to a
  node; C tells the last two apart only by the height at which the entry is read.
  Nodes are allocated by \<^verbatim>\<open>calloc\<close>, linked from exactly one slot and never shared, so a
  node is a tree value here. The 64 slots are a function of a 6-bit index.
\<close>

type_synonym digit = "6 word"

datatype slot =
    Null
  | Item u64
  | Node (cnt: u32) (slots: "digit \<Rightarrow> slot")

record radix_tree_root =
  height :: nat
  rnode :: slot

definition RADIX_TREE_INIT :: radix_tree_root where
  "RADIX_TREE_INIT = \<lparr>height = 0, rnode = Null\<rparr>"

text \<open>Storing the pointer \<^verbatim>\<open>item\<close> in a slot, and reading a slot as the pointer it holds.\<close>

definition store_item :: "u64 \<Rightarrow> slot" where
  "store_item x = (if x = 0 then Null else Item x)"

fun load_item :: "slot \<Rightarrow> u64 res" where
  "load_item Null = Inr 0"
| "load_item (Item x) = Inr x"
| "load_item (Node c f) = Inl Type_confusion"

section \<open>The table of largest keys\<close>

definition RADIX_TREE_MAP_SHIFT :: u32 where
  "RADIX_TREE_MAP_SHIFT = 6"

definition RADIX_TREE_MAP_MASK :: u64 where
  "RADIX_TREE_MAP_MASK = 63"

definition RADIX_TREE_INDEX_BITS :: u64 where
  "RADIX_TREE_INDEX_BITS = 64"

definition RADIX_TREE_MAX_PATH :: nat where
  "RADIX_TREE_MAX_PATH = 64 div 6 + 2"

text \<open>
  \<^verbatim>\<open>x >> n\<close> for a 64-bit \<^verbatim>\<open>x\<close>. C leaves a shift by 64 or more undefined; whatever the
  machine then produces is the parameter \<open>ub_shr\<close>.
\<close>

definition c_shr :: "(u64 \<Rightarrow> u64 \<Rightarrow> u64) \<Rightarrow> u64 \<Rightarrow> u64 \<Rightarrow> u64" where
  "c_shr ub_shr x n = (if unat n < 64 then drop_bit (unat n) x else ub_shr x n)"

definition maxindex :: "(u64 \<Rightarrow> u64 \<Rightarrow> u64) \<Rightarrow> u32 \<Rightarrow> u64" where
  "maxindex ub_shr h =
     (let tmp = h * RADIX_TREE_MAP_SHIFT;
          index = drop_bit 1 (c_shr ub_shr (NOT 0) (RADIX_TREE_INDEX_BITS - ucast tmp - 1))
      in if RADIX_TREE_INDEX_BITS \<le> ucast tmp then NOT 0 else index)"

text \<open>\<open>height_to_maxindex\<close> is a zeroed static array until \<open>radix_tree_init\<close> fills it.\<close>

type_synonym maxindex_table = "u64 list"

definition height_to_maxindex_zero :: maxindex_table where
  "height_to_maxindex_zero = replicate RADIX_TREE_MAX_PATH 0"

definition radix_tree_init :: "(u64 \<Rightarrow> u64 \<Rightarrow> u64) \<Rightarrow> maxindex_table" where
  "radix_tree_init ub_shr = map (\<lambda>i. maxindex ub_shr (of_nat i)) [0..<RADIX_TREE_MAX_PATH]"

definition radix_tree_maxindex :: "maxindex_table \<Rightarrow> nat \<Rightarrow> u64 res" where
  "radix_tree_maxindex tbl h = (if h < length tbl then Inr (tbl ! h) else Inl Out_of_bounds)"

section \<open>Operations\<close>

text \<open>\<^verbatim>\<open>(index >> shift) & RADIX_TREE_MAP_MASK\<close> as a slot number, and the shift at the root.\<close>

definition slot_of :: "u64 \<Rightarrow> u32 \<Rightarrow> digit" where
  "slot_of index shift = ucast (drop_bit (unat shift) index AND RADIX_TREE_MAP_MASK)"

definition root_shift :: "nat \<Rightarrow> u32" where
  "root_shift h = (of_nat h - 1) * RADIX_TREE_MAP_SHIFT"

definition empty_node :: slot where
  "empty_node = Node 0 (\<lambda>_. Null)"

text \<open>Lookup: the \<^verbatim>\<open>while (height > 0)\<close> loop walks down from a slot.\<close>

fun lookup_loop :: "nat \<Rightarrow> u32 \<Rightarrow> u64 \<Rightarrow> slot \<Rightarrow> slot res" where
  "lookup_loop 0 shift index s = Inr s"
| "lookup_loop (Suc h) shift index s =
     (case s of
        Null \<Rightarrow> Inr Null
      | Item x \<Rightarrow> Inl Type_confusion
      | Node c f \<Rightarrow> lookup_loop h (shift - RADIX_TREE_MAP_SHIFT) index (f (slot_of index shift)))"

definition radix_tree_lookup :: "maxindex_table \<Rightarrow> radix_tree_root \<Rightarrow> u64 \<Rightarrow> u64 res" where
  "radix_tree_lookup tbl root index =
     bind_res (radix_tree_maxindex tbl (height root)) (\<lambda>mx.
       if mx < index then Inr 0
       else bind_res (lookup_loop (height root) (root_shift (height root)) index (rnode root)) load_item)"

text \<open>
  \<open>radix_tree_extend\<close>: the first loop finds the new height, running off the end of the
  table if no height is large enough; the second one pushes the old root down.
\<close>

function extend_height :: "maxindex_table \<Rightarrow> u64 \<Rightarrow> nat \<Rightarrow> nat res" where
  "extend_height tbl index h =
     (if h < length tbl
      then if tbl ! h < index then extend_height tbl index (Suc h) else Inr h
      else Inl Out_of_bounds)"
  by pat_completeness auto
termination
  by (relation "measure (\<lambda>(tbl, index, h). length tbl - h)") auto

declare extend_height.simps [simp del]

function extend_loop :: "nat \<Rightarrow> radix_tree_root \<Rightarrow> radix_tree_root" where
  "extend_loop target root =
     (let root' = \<lparr>height = Suc (height root), rnode = Node 1 ((\<lambda>_. Null)(0 := rnode root))\<rparr>
      in if height root' < target then extend_loop target root' else root')"
  by pat_completeness auto
termination
  by (relation "measure (\<lambda>(target, root). target - height root)") auto

declare extend_loop.simps [simp del]

definition radix_tree_extend :: "maxindex_table \<Rightarrow> radix_tree_root \<Rightarrow> u64 \<Rightarrow> radix_tree_root res" where
  "radix_tree_extend tbl root index =
     bind_res (extend_height tbl index (Suc (height root))) (\<lambda>h.
       Inr (if rnode root \<noteq> Null then extend_loop h root else root\<lparr>height := h\<rparr>))"

text \<open>
  Insertion below a slot. The result is the error code, the new content of the slot, and
  whether the code executes \<^verbatim>\<open>node->count++\<close> for the node that owns the slot: it does so
  when it hangs a fresh child there and when it stores the item there.
\<close>

fun insert_loop :: "nat \<Rightarrow> u32 \<Rightarrow> u64 \<Rightarrow> u64 \<Rightarrow> slot \<Rightarrow> (int \<times> slot \<times> bool) res" where
  "insert_loop 0 shift index item s =
     Inr (if s \<noteq> Null then (- EEXIST, s, False) else (0, store_item item, True))"
| "insert_loop (Suc h) shift index item s =
     (case (if s = Null then empty_node else s) of
        Null \<Rightarrow> Inl Null_deref
      | Item x \<Rightarrow> Inl Type_confusion
      | Node c f \<Rightarrow>
          bind_res (insert_loop h (shift - RADIX_TREE_MAP_SHIFT) index item (f (slot_of index shift)))
            (\<lambda>(err, child, inc).
               Inr (err, Node (if inc then c + 1 else c) (f(slot_of index shift := child)), s = Null)))"

definition radix_tree_insert ::
  "maxindex_table \<Rightarrow> radix_tree_root \<Rightarrow> u64 \<Rightarrow> u64 \<Rightarrow> (int \<times> radix_tree_root) res" where
  "radix_tree_insert tbl root index item =
     bind_res (radix_tree_maxindex tbl (height root)) (\<lambda>mx.
     bind_res (if mx < index then radix_tree_extend tbl root index else Inr root) (\<lambda>root'.
     bind_res (insert_loop (height root') (root_shift (height root')) index item (rnode root'))
       (\<lambda>(err, s, inc). Inr (err, root'\<lparr>rnode := s\<rparr>))))"

text \<open>
  Deletion below a slot. The result is the item found (0 when there is none), the new
  content of the slot, and whether the slot was set to null; the owner of a slot that was
  set to null decrements its count and is itself freed when the count reaches zero, which
  is the second \<^verbatim>\<open>while\<close> loop of the code read from the leaf to the root.
\<close>

fun delete_loop :: "nat \<Rightarrow> u32 \<Rightarrow> u64 \<Rightarrow> slot \<Rightarrow> (u64 \<times> slot \<times> bool) res" where
  "delete_loop 0 shift index s =
     (if s = Null then Inr (0, s, False)
      else bind_res (load_item s) (\<lambda>x. Inr (x, Null, True)))"
| "delete_loop (Suc h) shift index s =
     (case s of
        Null \<Rightarrow> Inr (0, s, False)
      | Item x \<Rightarrow> Inl Type_confusion
      | Node c f \<Rightarrow>
          bind_res (delete_loop h (shift - RADIX_TREE_MAP_SHIFT) index (f (slot_of index shift)))
            (\<lambda>(ret, child, cleared).
               if \<not> cleared then Inr (ret, Node c (f(slot_of index shift := child)), False)
               else if c - 1 = 0 then Inr (ret, Null, True)
               else Inr (ret, Node (c - 1) (f(slot_of index shift := child)), False)))"

definition radix_tree_delete ::
  "maxindex_table \<Rightarrow> radix_tree_root \<Rightarrow> u64 \<Rightarrow> (u64 \<times> radix_tree_root) res" where
  "radix_tree_delete tbl root index =
     bind_res (radix_tree_maxindex tbl (height root)) (\<lambda>mx.
       if mx < index then Inr (0, root)
       else bind_res (delete_loop (height root) (root_shift (height root)) index (rnode root))
         (\<lambda>(ret, s, cleared).
            Inr (ret, if ret \<noteq> 0 \<and> s = Null then root\<lparr>height := 0, rnode := s\<rparr>
                      else root\<lparr>rnode := s\<rparr>)))"

section \<open>Keys and digits\<close>

text \<open>\<open>maxkey h\<close> is the largest key of a tree of height \<open>h\<close>, \<open>digit_at h k\<close> the slot that a
  node of height \<open>h + 1\<close> uses for the key \<open>k\<close>.\<close>

definition maxkey :: "nat \<Rightarrow> u64" where "maxkey h = mask (6 * h)"

definition digit_at :: "nat \<Rightarrow> u64 \<Rightarrow> digit" where
  "digit_at h i = ucast (drop_bit (6 * h) i)"

lemma init_eq: "radix_tree_init ub = map maxkey [0..<12]"
  by (simp add: radix_tree_init_def RADIX_TREE_MAX_PATH_def upt_rec maxkey_def maxindex_def c_shr_def
   RADIX_TREE_INDEX_BITS_def RADIX_TREE_MAP_SHIFT_def Let_def mask_eq_exp_minus_1)

lemma le_maxkey: "i \<le> maxkey h \<longleftrightarrow> take_bit (6*h) i = i"
  by (simp add: maxkey_def word_le_mask_iff)
lemma digit_eq_iff: "digit_at h i = digit_at h j \<longleftrightarrow> (\<forall>n<6. bit i (6*h+n) = bit j (6*h+n))"
  by (simp add: bit_eq_iff bit_simps digit_at_def)

lemma take_bit_digit: "take_bit (6 * Suc h) i = take_bit (6 * Suc h) j \<longleftrightarrow>
   digit_at h i = digit_at h j \<and> take_bit (6*h) i = take_bit (6*h) (j::u64)"
proof -
  have "(\<forall>k<6 * Suc h. P k) \<longleftrightarrow> (\<forall>n<6. P (6*h+n)) \<and> (\<forall>k<6*h. P k)" for P
  proof safe
    fix k assume "\<forall>n<6. P (6*h+n)" "\<forall>k<6*h. P k" "k < 6 * Suc h"
    then show "P k"
      by (cases "k < 6 * h") (auto dest: spec [of _ "k - 6*h"])
  qed auto
  then show ?thesis
    by (simp only: digit_eq_iff take_bit_eq_iff)
qed

lemma root_shift_step: "root_shift (Suc h) - RADIX_TREE_MAP_SHIFT = root_shift h"
  by (simp add: root_shift_def RADIX_TREE_MAP_SHIFT_def algebra_simps)

lemma slot_of_digit:
  assumes "h \<le> 10"
  shows "slot_of i (root_shift (Suc h)) = digit_at h i"
proof -
  have "unat (root_shift (Suc h)) = 6 * h"
    using assms by (simp add: root_shift_def RADIX_TREE_MAP_SHIFT_def unat_word_ariths unsigned_of_nat take_bit_nat_eq_self)
  moreover have "ucast (x AND 63) = (ucast x :: digit)" for x :: u64
  proof -
    have "(63::u64) = mask 6" by (simp add: mask_eq_exp_minus_1)
    show ?thesis unfolding \<open>63 = mask 6\<close> by (intro bit_word_eqI) (simp add: bit_simps)
  qed
  ultimately show ?thesis
    by (simp add: slot_of_def digit_at_def RADIX_TREE_MAP_MASK_def)
qed

lemma maxkey_mono: "h \<le> h' \<Longrightarrow> maxkey h \<le> maxkey h'"
  unfolding maxkey_def word_le_mask_iff by (intro bit_word_eqI) (auto simp: bit_simps)


section \<open>Well-formed subtrees and what they hold\<close>

fun look :: "nat \<Rightarrow> slot \<Rightarrow> u64 \<Rightarrow> u64" where
  "look 0 s i = (case s of Item x \<Rightarrow> x | _ \<Rightarrow> 0)"
| "look (Suc h) s i = (case s of Node c f \<Rightarrow> look h (f (digit_at h i)) i | _ \<Rightarrow> 0)"

fun wf_slot :: "nat \<Rightarrow> slot \<Rightarrow> bool" where
  "wf_slot 0 s = (case s of Null \<Rightarrow> True | Item x \<Rightarrow> x \<noteq> 0 | Node c f \<Rightarrow> False)"
| "wf_slot (Suc h) s =
     (case s of
        Null \<Rightarrow> True
      | Item x \<Rightarrow> False
      | Node c f \<Rightarrow> unat c = card {d. f d \<noteq> Null} \<and> c \<noteq> 0 \<and>
          (\<forall>d. wf_slot h (f d)) \<and> (\<forall>d. f d \<noteq> Null \<longrightarrow> d \<in> range (digit_at h)))"

lemma look_Null [simp]: "look h Null i = 0" "wf_slot h Null"
  by (cases h; simp)+

section \<open>The loops on well-formed subtrees\<close>

lemma lookup_loop_correct:
  "h \<le> 11 \<Longrightarrow> wf_slot h s \<Longrightarrow>
     bind_res (lookup_loop h (root_shift h) i s) load_item = Inr (look h s i)"
  by (induction h arbitrary: s)
     (auto simp: slot_of_digit root_shift_step split: slot.splits)

lemma finite_digits [simp]: "finite (A :: digit set)" by simp

lemma card_digits: "card (A :: digit set) \<le> 64"
  using card_mono [of UNIV A] by (simp add: card_word)

lemma nonnull_upd:
  "{d. (f(k := x)) d \<noteq> Null} = (if x = Null then {d. f d \<noteq> Null} - {k} else insert k {d. f d \<noteq> Null})"
  by auto

lemma insert_loop_present:
  "h \<le> 11 \<Longrightarrow> wf_slot h s \<Longrightarrow> look h s i \<noteq> 0 \<Longrightarrow>
     insert_loop h (root_shift h) i item s = Inr (- EEXIST, s, False)"
  by (induction h arbitrary: s)
     (auto simp: slot_of_digit root_shift_step split: slot.splits)

lemma delete_loop_absent:
  "h \<le> 11 \<Longrightarrow> wf_slot h s \<Longrightarrow> look h s i = 0 \<Longrightarrow>
     delete_loop h (root_shift h) i s = Inr (0, s, False)"
  by (induction h arbitrary: s)
     (auto simp: slot_of_digit root_shift_step split: slot.splits)

lemma insert_loop_absent:
  "h \<le> 11 \<Longrightarrow> wf_slot h s \<Longrightarrow> look h s i = 0 \<Longrightarrow> item \<noteq> 0 \<Longrightarrow>
     \<exists>s'. insert_loop h (root_shift h) i item s = Inr (0, s', s = Null) \<and> wf_slot h s' \<and> s' \<noteq> Null \<and>
        (\<forall>j. look h s' j = (if take_bit (6*h) j = take_bit (6*h) i then item else look h s j))"
proof (induction h arbitrary: s)
  case 0
  then show ?case by (auto simp: store_item_def split: slot.splits)
next
  case (Suc h)
  define n where "n = (if s = Null then empty_node else s)"
  obtain c f where n: "n = Node c f" using Suc.prems(2) by (cases s) (auto simp: n_def empty_node_def)
  have wfn: "unat c = card {d. f d \<noteq> Null}" "\<And>d. wf_slot h (f d)" "\<And>d. f d \<noteq> Null \<Longrightarrow> d \<in> range (digit_at h)"
    and look: "\<And>j. look (Suc h) s j = look h (f (digit_at h j)) j"
    using Suc.prems(2) n by (cases s; auto simp: n_def empty_node_def)+
  let ?d = "digit_at h i"
  obtain t where t: "insert_loop h (root_shift h) i item (f ?d) = Inr (0, t, f ?d = Null)" 
     "wf_slot h t" "t \<noteq> Null" "\<And>j. look h t j = (if take_bit (6*h) j = take_bit (6*h) i then item else look h (f ?d) j)"
    using Suc.IH [of "f ?d"] Suc.prems wfn look by auto
  have c1: "unat (c + 1) = Suc (unat c)"
    using card_digits[of "{d. f d \<noteq> Null}"] wfn(1) by (simp add: unat_word_ariths)
  define c' where "c' = (if f ?d = Null then c + 1 else c)"
  have "unat c' = card {d. (f(?d := t)) d \<noteq> Null}"
    using t(3) wfn(1) c1 unfolding nonnull_upd c'_def by (auto simp: card_insert_if)
  moreover have "{d. (f(?d := t)) d \<noteq> Null} \<noteq> {}" using t(3) by auto
  then have "c' \<noteq> 0"
     using calculation by (metis card_eq_0_iff finite_digits unat_0)
  ultimately have "wf_slot (Suc h) (Node c' (f(?d := t)))" using wfn t(2) by auto
  moreover have "insert_loop (Suc h) (root_shift (Suc h)) i item s = Inr (0, Node c' (f(?d := t)), s = Null)"
    using Suc.prems(1) n t(1) by (auto simp: n_def[symmetric] slot_of_digit root_shift_step c'_def)
  ultimately show ?case
    using t(4) look by (auto simp: take_bit_digit simp del: mult_Suc_right)
qed


lemma delete_loop_present:
  "h \<le> 11 \<Longrightarrow> wf_slot h s \<Longrightarrow> look h s i \<noteq> 0 \<Longrightarrow>
     \<exists>s'. delete_loop h (root_shift h) i s = Inr (look h s i, s', s' = Null) \<and> wf_slot h s' \<and>
        (\<forall>j. look h s' j = (if take_bit (6*h) j = take_bit (6*h) i then 0 else look h s j))"
proof (induction h arbitrary: s)
  case 0
  then show ?case by (auto split: slot.splits)
next
  case (Suc h)
  obtain c f where s: "s = Node c f" using Suc.prems(2,3) by (cases s) auto
  have wfn: "unat c = card {d. f d \<noteq> Null}" "c \<noteq> 0" "\<And>d. wf_slot h (f d)" "\<And>d. f d \<noteq> Null \<Longrightarrow> d \<in> range (digit_at h)"
    using Suc.prems(2) by (simp_all add: s)
  let ?d = "digit_at h i"
  obtain t where t: "delete_loop h (root_shift h) i (f ?d) = Inr (look h (f ?d) i, t, t = Null)" 
     "wf_slot h t" "\<And>j. look h t j = (if take_bit (6*h) j = take_bit (6*h) i then 0 else look h (f ?d) j)"
    using Suc.IH [of "f ?d"] Suc.prems wfn by (auto simp: s)
  have d: "f ?d \<noteq> Null" using Suc.prems(3) by (auto simp: s)
  have c1: "unat (c - 1) = unat c - 1"
    using wfn(2) by (rule unat_minus_one)
  define c' where "c' = (if t = Null then c - 1 else c)"
  have c': "unat c' = card {d. (f(?d := t)) d \<noteq> Null}"
    using d wfn(1) c1 unfolding nonnull_upd c'_def by (auto simp: card_insert_if)
  define s' where "s' = (if c' = 0 then Null else Node c' (f(?d := t)))"
  have gone: "f(?d := t) = (\<lambda>_. Null)" if "c' = 0"
    using c' that by (auto simp: card_eq_0_iff fun_eq_iff)
  have wf: "wf_slot (Suc h) s'"
    using wfn t(2) c' d by (auto simp: s'_def)
  have look: "look (Suc h) s' j = look h ((f(?d := t)) (digit_at h j)) j" for j
    using gone by (simp add: s'_def del: fun_upd_apply)
  have run: "delete_loop (Suc h) (root_shift (Suc h)) i s = Inr (look (Suc h) s i, s', s' = Null)"
    using Suc.prems(1) t(1) wfn(2) by (auto simp: s slot_of_digit root_shift_step s'_def c'_def)
  show ?case
    using t(3) wf run look by (intro exI [of _ s']) (auto simp: s take_bit_digit simp del: mult_Suc_right)
qed


lemma look_cong: "take_bit (6*h) i = take_bit (6*h) j \<Longrightarrow> look h s i = look h s j"
proof (induction h arbitrary: s)
  case (Suc h)
  then have "digit_at h i = digit_at h j" "take_bit (6*h) i = take_bit (6*h) j"
    by (simp_all only: take_bit_digit)
  then show ?case using Suc.IH by (auto split: slot.splits)
qed (auto split: slot.splits)

lemma join_digit:
  fixes k i :: u64 and h :: nat
  defines "j \<equiv> take_bit (6 * Suc h) (k AND NOT (mask (6*h))) OR take_bit (6*h) i"
  shows "digit_at h j = digit_at h k" "take_bit (6*h) j = take_bit (6*h) i" "take_bit (6*Suc h) j = j"
proof -
  show "digit_at h j = digit_at h k"
    unfolding digit_eq_iff j_def by (auto simp: bit_simps dest: bit_imp_le_length)
  show "take_bit (6*h) j = take_bit (6*h) i"
    unfolding take_bit_eq_iff j_def by (auto simp: bit_simps)
  show "take_bit (6*Suc h) j = j"
    unfolding j_def by (intro bit_word_eqI) (auto simp: bit_simps)
qed

lemma wf_slot_nonempty: "wf_slot h s \<Longrightarrow> s \<noteq> Null \<Longrightarrow> \<exists>i. take_bit (6*h) i = i \<and> look h s i \<noteq> 0"
proof (induction h arbitrary: s)
  case 0
  then show ?case by (auto split: slot.splits)
next
  case (Suc h)
  obtain c f where s: "s = Node c f" using Suc.prems by (cases s) auto
  have c: "unat c = card {d. f d \<noteq> Null}" "c \<noteq> 0" and wf: "\<And>d. wf_slot h (f d)"
     "\<And>d. f d \<noteq> Null \<Longrightarrow> d \<in> range (digit_at h)" using Suc.prems(1) by (simp_all add: s)
  then have "{d. f d \<noteq> Null} \<noteq> {}" by (metis card.empty unat_eq_0)
  then obtain d where d: "f d \<noteq> Null" by auto
  then obtain k where k: "d = digit_at h k" using wf(2) by auto
  obtain i where i: "take_bit (6*h) i = i" "look h (f d) i \<noteq> 0" using Suc.IH wf(1) d by blast
  define j where "j = take_bit (6 * Suc h) (k AND NOT (mask (6*h))) OR take_bit (6*h) i"
  note jd = join_digit [of h k i, folded j_def]
  have "look h (f d) j = look h (f d) i"
     by (rule look_cong) (rule jd)
  then show ?case using i jd 
    by (intro exI [of _ j]) (simp add: s k del: mult_Suc_right)
qed


section \<open>The tree as a map\<close>

definition tree_map :: "radix_tree_root \<Rightarrow> u64 \<Rightarrow> u64 option" where
  "tree_map t k =
     (if k \<le> maxkey (height t) \<and> look (height t) (rnode t) k \<noteq> 0
      then Some (look (height t) (rnode t) k) else None)"

definition wf_tree :: "radix_tree_root \<Rightarrow> bool" where
  "wf_tree t \<longleftrightarrow> height t \<le> 11 \<and> wf_slot (height t) (rnode t) \<and> (rnode t = Null \<longrightarrow> height t = 0)"

lemma maxindex_init: "h \<le> 11 \<Longrightarrow> radix_tree_maxindex (radix_tree_init ub) h = Inr (maxkey h)"
  by (simp add: radix_tree_maxindex_def init_eq)

lemma maxkey_11 [simp]: "maxkey 11 = - 1"
  by (simp add: maxkey_def mask_eq_exp_minus_1)

lemma take_bit_fixed: "i \<le> maxkey h \<Longrightarrow> j \<le> maxkey h \<Longrightarrow> take_bit (6*h) i = take_bit (6*h) j \<longleftrightarrow> i = j"
  by (simp add: le_maxkey)

lemma le_maxkey_Suc: "j \<le> maxkey (Suc h) \<and> digit_at h j = 0 \<longleftrightarrow> j \<le> maxkey h"
proof -
  have "take_bit (6 * Suc h) j = take_bit (6 * Suc h) (take_bit (6*h) j) \<longleftrightarrow> digit_at h j = digit_at h (take_bit (6*h) j)"
    using take_bit_digit [of h j "take_bit (6*h) j"] by (simp del: mult_Suc_right)
  moreover have "digit_at h (take_bit (6*h) j) = 0"
    by (auto simp: digit_at_def intro!: bit_word_eqI simp: bit_simps)
  moreover have "take_bit (6 * Suc h) (take_bit (6*h) j) = take_bit (6*h) j" by simp
  ultimately have "take_bit (6 * Suc h) j = take_bit (6*h) j \<longleftrightarrow> digit_at h j = 0" by metis
  moreover have "take_bit (6*h) j = j \<Longrightarrow> take_bit (6 * Suc h) j = j" 
    by (metis \<open>take_bit (6 * Suc h) (take_bit (6*h) j) = take_bit (6*h) j\<close>)
  ultimately show ?thesis by (metis le_maxkey)
qed

lemma radix_tree_lookup_correct:
  "wf_tree t \<Longrightarrow> radix_tree_lookup (radix_tree_init ub) t k = Inr (ptr_of (tree_map t k))"
  by (auto simp: radix_tree_lookup_def wf_tree_def maxindex_init lookup_loop_correct tree_map_def)

lemma push_root:
  assumes "h \<le> 10" "wf_slot h s" "s \<noteq> Null"
  shows "wf_slot (Suc h) (Node 1 ((\<lambda>_. Null)(0 := s)))"
    and "look (Suc h) (Node 1 ((\<lambda>_. Null)(0 := s))) j = (if digit_at h j = 0 then look h s j else 0)"
proof -
  have "{d::digit. ((\<lambda>_. Null)(0 := s)) d \<noteq> Null} = {0}" using assms(3) by auto
  moreover have "0 \<in> range (digit_at h)" by (rule image_eqI [of _ _ 0]) (simp_all add: digit_at_def)
  ultimately show "wf_slot (Suc h) (Node 1 ((\<lambda>_. Null)(0 := s)))" using assms by auto
qed simp

lemma extend_height_step:
  "h \<le> 11 \<Longrightarrow> extend_height (radix_tree_init ub) i h =
     (if maxkey h < i then extend_height (radix_tree_init ub) i (Suc h) else Inr h)"
  by (subst extend_height.simps) (simp add: init_eq del: upt_Suc)

lemma extend_height_correct:
  assumes "h \<le> 11"
  shows "\<exists>h'. extend_height (radix_tree_init ub) i h = Inr h' \<and> h \<le> h' \<and> h' \<le> 11 \<and> i \<le> maxkey h' \<and>
     (\<forall>g. h \<le> g \<longrightarrow> g < h' \<longrightarrow> maxkey g < i)"
  using assms
proof (induction "11 - h" arbitrary: h)
  case 0
  then have "h = 11" by simp
  then show ?case using extend_height_step [of h ub i] by (intro exI [of _ h]) simp
next
  case (Suc n)
  then have h: "h < 11" by simp
  show ?case
  proof (cases "maxkey h < i")
    case True
    obtain h' where h': "extend_height (radix_tree_init ub) i (Suc h) = Inr h'" "Suc h \<le> h'" "h' \<le> 11"
        "i \<le> maxkey h'" "\<And>g. Suc h \<le> g \<Longrightarrow> g < h' \<Longrightarrow> maxkey g < i"
      using Suc.hyps(1) [of "Suc h"] Suc.hyps(2) h by force
    have "maxkey g < i" if "h \<le> g" "g < h'" for g
      using that True h'(5) by (cases "g = h") auto
    then show ?thesis using h'(1-4) True h extend_height_step [of h ub i] by (intro exI [of _ h']) simp
  next
    case False
    then have "extend_height (radix_tree_init ub) i h = Inr h"
      using extend_height_step [of h ub i] h by (simp only: if_False less_imp_le)
    then show ?thesis using h False by (intro exI [of _ h]) (simp add: not_less)
  qed
qed

lemma extend_loop_correct:
  assumes "wf_slot (height t) (rnode t)" "rnode t \<noteq> Null" "height t < target" "target \<le> 11"
  shows "height (extend_loop target t) = target \<and> wf_slot target (rnode (extend_loop target t)) \<and> rnode (extend_loop target t) \<noteq> Null
     \<and> tree_map (extend_loop target t) = tree_map t"
  using assms
proof (induction target t rule: extend_loop.induct)
  case IH: (1 target t)
  let ?t = "\<lparr>height = Suc (height t), rnode = Node 1 ((\<lambda>_. Null)(0 := rnode t))\<rparr>"
  have h: "height t \<le> 10" using IH.prems by simp
  have wf: "wf_slot (height ?t) (rnode ?t)"
    using push_root(1) [OF h IH.prems(1,2)] by simp
  have m: "tree_map ?t = tree_map t"
    using le_maxkey_Suc [of _ "height t"] push_root(2) [OF h IH.prems(1,2)] by (auto simp: tree_map_def fun_eq_iff)
  show ?case
  proof (cases "height ?t < target")
    case True
    then have "extend_loop target t = extend_loop target ?t"
      by (subst extend_loop.simps) (simp add: Let_def)
    then show ?thesis using IH.IH [OF refl True wf] True IH.prems(4) m by simp
  next
    case False
    then have "target = height ?t" using IH.prems(3) by simp
    moreover have "extend_loop target t = ?t" using False
      by (subst extend_loop.simps) (simp add: Let_def)
    ultimately show ?thesis using wf m by simp
  qed
qed

lemma radix_tree_extend_correct:
  assumes "wf_tree t" and "maxkey (height t) < i"
  shows "\<exists>t'. radix_tree_extend (radix_tree_init ub) t i = Inr t' \<and> height t' \<le> 11 \<and> wf_slot (height t') (rnode t') \<and>
      i \<le> maxkey (height t') \<and> tree_map t' = tree_map t"
proof -
  have ne: "height t < 11" using assms by (auto simp: wf_tree_def le_less)
  then obtain h' where h': "extend_height (radix_tree_init ub) i (Suc (height t)) = Inr h'" "Suc (height t) \<le> h'" "h' \<le> 11" "i \<le> maxkey h'"
    using extend_height_correct [of "Suc (height t)" ub i] by auto
  show ?thesis
  proof (cases "rnode t = Null")
    case True
    then show ?thesis using h' by (auto simp: radix_tree_extend_def tree_map_def)
  next
    case False
    then show ?thesis using h' assms(1) extend_loop_correct [of t h'] by (auto simp: radix_tree_extend_def wf_tree_def)
  qed
qed

lemma radix_tree_insert_new:
  assumes wf: "wf_tree t" and new: "tree_map t i = None" and item: "item \<noteq> 0"
  shows "\<exists>t'. radix_tree_insert (radix_tree_init ub) t i item = Inr (0, t') \<and> wf_tree t' \<and> tree_map t' = (tree_map t)(i \<mapsto> item)"
proof -
  define r where "r = (if maxkey (height t) < i then radix_tree_extend (radix_tree_init ub) t i else Inr t)"
  obtain t1 where t1: "r = Inr t1" "height t1 \<le> 11" "wf_slot (height t1) (rnode t1)" "i \<le> maxkey (height t1)" "tree_map t1 = tree_map t"
    using radix_tree_extend_correct [OF wf] wf by (cases "maxkey (height t) < i") (auto simp: r_def wf_tree_def)
  have "look (height t1) (rnode t1) i = 0"
    using new t1(4,5) by (metis (mono_tags, lifting) option.distinct(1) tree_map_def)
  then obtain s where s: "insert_loop (height t1) (root_shift (height t1)) i item (rnode t1) = Inr (0, s, rnode t1 = Null)"
     "wf_slot (height t1) s" "s \<noteq> Null" "\<And>j. look (height t1) s j = (if take_bit (6 * height t1) j = take_bit (6 * height t1) i then item else look (height t1) (rnode t1) j)"
    using insert_loop_absent [OF t1(2,3) _ item] by blast
  define t' where "t' = t1\<lparr>rnode := s\<rparr>"
  have "radix_tree_insert (radix_tree_init ub) t i item = Inr (0, t')"
    using wf s(1) t1(1) by (simp add: radix_tree_insert_def r_def [symmetric] maxindex_init wf_tree_def t'_def)
  moreover have "wf_tree t'" using t1 s by (simp add: wf_tree_def t'_def)
  moreover have "tree_map t' j = ((tree_map t1)(i \<mapsto> item)) j" for j
    using s(4) t1(4) item take_bit_fixed [of j "height t1" i] by (auto simp: tree_map_def t'_def)
  ultimately show ?thesis using t1(5) by auto
qed

lemma radix_tree_insert_present:
  assumes wf: "wf_tree t" and old: "tree_map t i = Some x"
  shows "radix_tree_insert (radix_tree_init ub) t i item = Inr (- EEXIST, t)"
proof -
  have "\<not> maxkey (height t) < i" "look (height t) (rnode t) i \<noteq> 0"
    using old by (auto simp: tree_map_def split: if_splits)
  then show ?thesis
    using wf by (simp add: radix_tree_insert_def maxindex_init wf_tree_def insert_loop_present)
qed

lemma radix_tree_delete_correct:
  assumes wf: "wf_tree t"
  shows "\<exists>t'. radix_tree_delete (radix_tree_init ub) t i = Inr (ptr_of (tree_map t i), t') \<and> wf_tree t' \<and> tree_map t' = (tree_map t)(i := None)"
proof (cases "tree_map t i")
  case None
  then have "maxkey (height t) < i \<or> look (height t) (rnode t) i = 0"
    by (auto simp: tree_map_def split: if_splits)
  then have "maxkey (height t) < i \<or> delete_loop (height t) (root_shift (height t)) i (rnode t) = Inr (0, rnode t, False)"
    using wf by (auto simp add: wf_tree_def delete_loop_absent simp del: delete_loop.simps wf_slot.simps)
  then have "radix_tree_delete (radix_tree_init ub) t i = Inr (0, t)"
    using wf by (auto simp add: radix_tree_delete_def maxindex_init wf_tree_def simp del: delete_loop.simps)
  then show ?thesis using wf None by (auto simp: fun_upd_idem)
next
  case (Some x)
  then have i: "i \<le> maxkey (height t)" "look (height t) (rnode t) i = x" "x \<noteq> 0"
    by (auto simp: tree_map_def split: if_splits)
  have h: "height t \<le> 11" "wf_slot (height t) (rnode t)" using wf by (auto simp: wf_tree_def)
  then obtain s where s: "delete_loop (height t) (root_shift (height t)) i (rnode t) = Inr (x, s, s = Null)"
     "wf_slot (height t) s" "\<And>j. look (height t) s j = (if take_bit (6 * height t) j = take_bit (6 * height t) i then 0 else look (height t) (rnode t) j)"
    using delete_loop_present [of "height t" "rnode t" i] i by auto
  define t' where "t' = (if s = Null then t\<lparr>height := 0, rnode := s\<rparr> else t\<lparr>rnode := s\<rparr>)"
  have "radix_tree_delete (radix_tree_init ub) t i = Inr (x, t')"
    using h s(1) i by (auto simp: radix_tree_delete_def maxindex_init t'_def not_less)
  moreover have "wf_tree t'" using h s by (auto simp: wf_tree_def t'_def)
  moreover have "tree_map t' j = ((tree_map t)(i := None)) j" for j
  proof -
    have "tree_map t' j = (if j \<le> maxkey (height t) \<and> look (height t) s j \<noteq> 0 then Some (look (height t) s j) else None)"
      by (auto simp: tree_map_def t'_def)
    then show ?thesis using s(3) i take_bit_fixed [of j "height t" i] by (auto simp: tree_map_def)
  qed
  ultimately show ?thesis using Some by auto
qed

lemma tree_map_empty_iff:
  assumes "wf_tree t"
  shows "tree_map t = Map.empty \<longleftrightarrow> t = RADIX_TREE_INIT"
proof
  assume e: "tree_map t = Map.empty"
  show "t = RADIX_TREE_INIT"
  proof (rule ccontr)
    assume "t \<noteq> RADIX_TREE_INIT"
    then have "rnode t \<noteq> Null" using assms by (cases t) (auto simp: wf_tree_def RADIX_TREE_INIT_def)
    then obtain i where "i \<le> maxkey (height t)" "look (height t) (rnode t) i \<noteq> 0"
      using wf_slot_nonempty [of "height t" "rnode t"] assms by (auto simp: wf_tree_def le_maxkey)
    then have "tree_map t i \<noteq> None" by (simp add: tree_map_def)
    then show False using e by simp
  qed
qed (auto simp: tree_map_def RADIX_TREE_INIT_def fun_eq_iff)

section \<open>The pointer map contract\<close>

lemma wf_tree_init: "wf_tree RADIX_TREE_INIT"
  by (simp add: wf_tree_def RADIX_TREE_INIT_def)

lemma tree_map_init: "tree_map RADIX_TREE_INIT = Map.empty"
  using tree_map_empty_iff [OF wf_tree_init] by simp

lemma tree_map_nonnull: "tree_map t k = Some x \<Longrightarrow> x \<noteq> 0"
  by (auto simp: tree_map_def split: if_splits)

interpretation rt: pointer_map RADIX_TREE_INIT
  "radix_tree_lookup (radix_tree_init ub)"
  "radix_tree_insert (radix_tree_init ub)"
  "radix_tree_delete (radix_tree_init ub)"
  tree_map wf_tree
  for ub
  by unfold_locales
     (use wf_tree_init tree_map_init tree_map_nonnull radix_tree_lookup_correct
       radix_tree_insert_new radix_tree_insert_present radix_tree_delete_correct in blast)+

section \<open>Properties\<close>

text \<open>A tree with one key in it, for the witnesses: \<open>0x1000 \<mapsto> 996\<close>.\<close>

definition example_tree :: radix_tree_root where
  "example_tree = (case radix_tree_insert (radix_tree_init (\<lambda>_ _. 0)) RADIX_TREE_INIT 4096 996 of
     Inr (e, t) \<Rightarrow> t | Inl f \<Rightarrow> RADIX_TREE_INIT)"

lemma example_tree: "wf_tree example_tree" "tree_map example_tree = [4096 \<mapsto> 996]"
  using rt.insert_new [of RADIX_TREE_INIT 4096 996 "\<lambda>_ _. 0"]
  by (auto simp: example_tree_def wf_tree_init tree_map_init)

text \<open>\<open>radix_tree_init\<close> fills the table with the largest key of each height,
  \<open>2 ^ (6 * h) - 1\<close> up to height 10 and all ones at height 11, whatever the machine makes of
  the shift count that is out of range at height 11.\<close>

theorem radix_init_table:
  "length (radix_tree_init ub) = 12 \<and> radix_tree_init ub ! 11 = - 1 \<and>
   map unat (take 11 (radix_tree_init ub)) = map (\<lambda>h. 2 ^ (6 * h) - 1) [0..<11]"
proof -
  have "unat (maxkey h) = 2 ^ (6 * h) - 1" if "h < 11" for h
    using that by (simp add: maxkey_def unat_mask mask_nat_def)
  then have "map unat (take 11 (radix_tree_init ub)) = map (\<lambda>h. 2 ^ (6 * h) - 1) [0..<11]"
    by (simp add: init_eq take_map del: upt_Suc)
  then show ?thesis
    by (simp add: init_eq del: upt_Suc)
qed

text \<open>Lookup in a well-formed tree never faults and returns the item stored under the key,
  null when there is none; keys beyond the height of the tree are covered.\<close>

theorem radix_lookup_refines:
  "wf_tree t \<Longrightarrow> radix_tree_lookup (radix_tree_init ub) t k = Inr (ptr_of (tree_map t k))"
  by (rule rt.lookup_abs)

theorem radix_lookup_refines_witness:
  "radix_tree_lookup (radix_tree_init (\<lambda>_ _. 0)) example_tree 4096 = Inr 996"
  using radix_lookup_refines [OF example_tree(1), of "\<lambda>_ _. 0" 4096] by (simp add: example_tree)

text \<open>Insertion of a non-null item keeps the tree well-formed (node counts exact, no empty
  node) and, for a fresh key, returns 0 and adds exactly that key, growing the tree to the
  height the key needs; for a key in use it returns \<open>-EEXIST\<close> and changes nothing.\<close>

theorem radix_insert_refines:
  "wf_tree t \<Longrightarrow> item \<noteq> 0 \<Longrightarrow>
     \<exists>t'. radix_tree_insert (radix_tree_init ub) t k item =
            Inr (if tree_map t k = None then 0 else - EEXIST, t') \<and> wf_tree t' \<and>
          (if tree_map t k = None then tree_map t' = (tree_map t)(k \<mapsto> item) else t' = t)"
  using rt.insert_new [of t k item ub] rt.insert_used [of t k _ ub item]
  by (cases "tree_map t k") auto

theorem radix_insert_refines_witness:
  "\<exists>t'. radix_tree_insert (radix_tree_init (\<lambda>_ _. 0)) example_tree (- 1) 997 = Inr (0, t') \<and>
        tree_map t' = [4096 \<mapsto> 996, - 1 \<mapsto> 997]"
  using radix_insert_refines [OF example_tree(1), of 997 "\<lambda>_ _. 0" "- 1"]
  by (auto simp: example_tree)

text \<open>Deletion returns the item that was stored under the key (null if none), removes
  exactly that key, and leaves a well-formed tree: counts exact, emptied nodes freed.\<close>

theorem radix_delete_refines:
  "wf_tree t \<Longrightarrow>
     \<exists>t'. radix_tree_delete (radix_tree_init ub) t k = Inr (ptr_of (tree_map t k), t') \<and>
          wf_tree t' \<and> tree_map t' = (tree_map t)(k := None)"
  by (rule rt.delete_abs)

theorem radix_delete_refines_witness:
  "\<exists>t'. radix_tree_delete (radix_tree_init (\<lambda>_ _. 0)) example_tree 4096 = Inr (996, t') \<and>
        tree_map t' = Map.empty"
  using radix_delete_refines [OF example_tree(1), of "\<lambda>_ _. 0" 4096] by (auto simp: example_tree)

text \<open>Deleting the last key frees every node and resets the height: the root is again
  the one \<open>RADIX_TREE_INIT\<close> builds, whatever height the tree had.\<close>

theorem radix_delete_last:
  "wf_tree t \<Longrightarrow> tree_map t = [k \<mapsto> x] \<Longrightarrow>
     radix_tree_delete (radix_tree_init ub) t k = Inr (x, RADIX_TREE_INIT)"
  using rt.delete_abs [of t ub k] tree_map_empty_iff by auto

theorem radix_delete_last_witness:
  "radix_tree_delete (radix_tree_init (\<lambda>_ _. 0)) example_tree 4096 = Inr (996, RADIX_TREE_INIT)"
  by (rule radix_delete_last [OF example_tree])

text \<open>C9. Every sequence of insertions of non-null items and deletions, from the empty tree,
  runs without a fault; afterwards lookup returns for every key what the same sequence of
  updates on a map gives.\<close>

theorem radix_history:
  "(\<forall>k v. Put k v \<in> set ops \<longrightarrow> v \<noteq> 0) \<Longrightarrow>
     \<exists>t. map_run (radix_tree_insert (radix_tree_init ub)) (radix_tree_delete (radix_tree_init ub))
            ops RADIX_TREE_INIT = Inr t \<and>
         (\<forall>k. radix_tree_lookup (radix_tree_init ub) t k = Inr (ptr_of (spec_run ops Map.empty k)))"
  using rt.run_refines [of RADIX_TREE_INIT ops ub] rt.lookup_abs [of _ ub]
  by (fastforce simp: wf_tree_init tree_map_init)

theorem radix_history_witness:
  "\<exists>t. map_run (radix_tree_insert (radix_tree_init (\<lambda>_ _. 0))) (radix_tree_delete (radix_tree_init (\<lambda>_ _. 0)))
          [Put 4096 996, Put 8192 997, Del 4096] RADIX_TREE_INIT = Inr t \<and>
       radix_tree_lookup (radix_tree_init (\<lambda>_ _. 0)) t 8192 = Inr 997"
  using radix_history [of "[Put 4096 996, Put 8192 997, Del 4096]" "\<lambda>_ _. 0"] by auto

lemma extend_height_uninit:
  "k \<noteq> 0 \<Longrightarrow> extend_height height_to_maxindex_zero k h = Inl Out_of_bounds"
proof (induction "RADIX_TREE_MAX_PATH - h" arbitrary: h)
  case 0
  then show ?case
    by (subst extend_height.simps) (simp add: height_to_maxindex_zero_def)
next
  case (Suc n)
  then have "height_to_maxindex_zero ! h < k" "h < length height_to_maxindex_zero"
    by (simp_all add: height_to_maxindex_zero_def word_gt_0)
  then show ?case
    using Suc.hyps(1) [of "Suc h"] Suc.hyps(2) Suc.prems by (subst extend_height.simps) simp
qed

text \<open>Until \<open>radix_tree_init\<close> has run, inserting any key but 0 into the empty tree reads past
  the end of the zeroed table of largest keys.\<close>

theorem radix_insert_uninit:
  "k \<noteq> 0 \<Longrightarrow>
     radix_tree_insert height_to_maxindex_zero RADIX_TREE_INIT k item = Inl Out_of_bounds"
  by (simp add: radix_tree_insert_def radix_tree_extend_def extend_height_uninit
      radix_tree_maxindex_def height_to_maxindex_zero_def [symmetric])
     (simp add: RADIX_TREE_INIT_def height_to_maxindex_zero_def RADIX_TREE_MAX_PATH_def word_gt_0)

theorem radix_insert_uninit_witness:
  "radix_tree_insert height_to_maxindex_zero RADIX_TREE_INIT 4096 996 = Inl Out_of_bounds"
  by (rule radix_insert_uninit) simp

end
