(* ===== verification/Io_Mm.thy ===== *)
theory Io_Mm
  imports Radix_Tree "HOL-Library.Signed_Division"
begin

text \<open>
  The DMA-capable allocator of \<^verbatim>\<open>spdk_fs/io_mm.c\<close>: page-sized requests are served by
  \<^verbatim>\<open>spdk_malloc\<close> and recorded in a table of entries and in a radix tree from the pointer
  to the number of its entry; everything else goes to the C library. The allocators
  themselves are parameters: what the call at hand returns, as a function of its arguments.
\<close>

section \<open>State\<close>

definition SPDK_MM_ENT_OFFSET :: int where "SPDK_MM_ENT_OFFSET = 996"

definition MAX_IO_PTR_NUM :: int where "MAX_IO_PTR_NUM = 4096"

record mm_entry =
  ptr :: u64
  used :: bool

record mm_state =
  initialized :: bool
  height_to_maxindex :: maxindex_table
  spdk_mem_root :: radix_tree_root
  mm_table :: "mm_entry list"
  mm_table_count :: int

text \<open>The static variables of \<^verbatim>\<open>io_mm.c\<close> and \<^verbatim>\<open>radix_tree.c\<close> at program start.\<close>

definition mm_start :: mm_state where
  "mm_start = \<lparr>initialized = False, height_to_maxindex = height_to_maxindex_zero,
     spdk_mem_root = RADIX_TREE_INIT,
     mm_table = replicate (nat MAX_IO_PTR_NUM) \<lparr>ptr = 0, used = False\<rparr>, mm_table_count = 0\<rparr>"

text \<open>Calls made to the two allocators, in order.\<close>

datatype alloc_call =
    U_malloc u64
  | U_realloc u64 u64
  | U_free u64
  | Spdk_malloc u64
  | Spdk_realloc u64 u64
  | Spdk_free u64

text \<open>\<^verbatim>\<open>int\<close> to pointer-sized integer and back.\<close>

definition int_to_ptr :: "int \<Rightarrow> u64" where
  "int_to_ptr i = word_of_int i"

definition ptr_to_int :: "u64 \<Rightarrow> int" where
  "ptr_to_int p = sint (ucast p :: u32)"

section \<open>Operations\<close>

text \<open>
  The loop of \<open>find_next_entry\<close> walks the ring of entries from \<open>mm_table_count\<close>; \<open>None\<close> is
  a walk that never ends.
\<close>

partial_function (option) find_entry_loop :: "mm_entry list \<Rightarrow> int \<Rightarrow> int \<Rightarrow> int res option" where
  "find_entry_loop tab count i =
     (if i = (count + MAX_IO_PTR_NUM - 1) smod MAX_IO_PTR_NUM then Some (Inr (- 1))
      else if i < 0 \<or> int (length tab) \<le> i then Some (Inl Out_of_bounds)
      else if \<not> used (tab ! nat i) then Some (Inr i)
      else find_entry_loop tab count ((i + 1) smod MAX_IO_PTR_NUM))"

definition find_next_entry :: "mm_state \<Rightarrow> int res" where
  "find_next_entry s =
     (if MAX_IO_PTR_NUM \<le> mm_table_count s then Inr (- 1)
      else case find_entry_loop (mm_table s) (mm_table_count s) (mm_table_count s) of
             None \<Rightarrow> Inl No_return
           | Some r \<Rightarrow> r)"

definition spdkfs_mm_inited :: "mm_state \<Rightarrow> bool" where
  "spdkfs_mm_inited s = initialized s"

definition spdkfs_mm_init :: "(u64 \<Rightarrow> u64 \<Rightarrow> u64) \<Rightarrow> mm_state \<Rightarrow> bool \<times> mm_state" where
  "spdkfs_mm_init ub_shr s =
     (if initialized s then (True, s)
      else (True, s\<lparr>initialized := True, height_to_maxindex := radix_tree_init ub_shr\<rparr>))"

definition spdkfs_mm_find :: "mm_state \<Rightarrow> u64 \<Rightarrow> bool res" where
  "spdkfs_mm_find s p =
     bind_res (radix_tree_lookup (height_to_maxindex s) (spdk_mem_root s) p) (\<lambda>x. Inr (x \<noteq> 0))"

text \<open>
  \<open>spdkfs_malloc\<close>. The steps from \<open>find_next_entry\<close> to the two stores are a definition of
  their own; the result of \<open>radix_tree_insert\<close> is ignored by the code.
\<close>

definition take_entry :: "u64 \<Rightarrow> mm_state \<Rightarrow> (int \<times> mm_state) res" where
  "take_entry p s =
     bind_res (find_next_entry s) (\<lambda>e.
       if e = - 1 then Inl Assert_failed
       else Inr (e, s\<lparr>mm_table := (mm_table s)[nat e := \<lparr>ptr = p, used = True\<rparr>]\<rparr>))"

definition spdkfs_malloc ::
  "(u64 \<Rightarrow> u64) \<Rightarrow> (u64 \<Rightarrow> u64) \<Rightarrow> u64 \<Rightarrow> mm_state \<Rightarrow> (u64 \<times> alloc_call list \<times> mm_state) res" where
  "spdkfs_malloc u_malloc spdk_malloc sz s =
     (if sz mod 4096 \<noteq> 0 then
        if u_malloc sz = 0 then Inl Assert_failed else Inr (u_malloc sz, [U_malloc sz], s)
      else if spdk_malloc sz = 0 then
        Inr (u_malloc sz, [Spdk_malloc sz, U_malloc sz], s)
      else
        bind_res (take_entry (spdk_malloc sz) s) (\<lambda>(e, s').
        bind_res (radix_tree_insert (height_to_maxindex s') (spdk_mem_root s') (spdk_malloc sz)
                    (int_to_ptr (e + SPDK_MM_ENT_OFFSET))) (\<lambda>(err, root').
          Inr (spdk_malloc sz, [Spdk_malloc sz], s'\<lparr>spdk_mem_root := root'\<rparr>))))"

definition spdkfs_realloc ::
  "(u64 \<Rightarrow> u64 \<Rightarrow> u64) \<Rightarrow> (u64 \<Rightarrow> u64 \<Rightarrow> u64) \<Rightarrow> u64 \<Rightarrow> u64 \<Rightarrow> mm_state \<Rightarrow>
     (u64 \<times> alloc_call list \<times> mm_state) res" where
  "spdkfs_realloc u_realloc spdk_realloc buffer sz s =
     bind_res (spdkfs_mm_find s buffer) (\<lambda>found.
       if found then Inr (spdk_realloc buffer sz, [Spdk_realloc buffer sz], s)
       else Inr (u_realloc buffer sz, [U_realloc buffer sz], s))"

definition clear_entry :: "int \<Rightarrow> mm_state \<Rightarrow> mm_state res" where
  "clear_entry e s =
     (if e < 0 \<or> int (length (mm_table s)) \<le> e then Inl Out_of_bounds
      else Inr (s\<lparr>mm_table := (mm_table s)[nat e := (mm_table s ! nat e)\<lparr>used := False\<rparr>]\<rparr>))"

definition spdkfs_free :: "u64 \<Rightarrow> mm_state \<Rightarrow> (alloc_call list \<times> mm_state) res" where
  "spdkfs_free p s =
     bind_res (spdkfs_mm_find s p) (\<lambda>found.
       if found then
         bind_res (radix_tree_delete (height_to_maxindex s) (spdk_mem_root s) p) (\<lambda>(x, root').
         bind_res (clear_entry (ptr_to_int x - SPDK_MM_ENT_OFFSET) (s\<lparr>spdk_mem_root := root'\<rparr>)) (\<lambda>s'.
           Inr ([Spdk_free p], s')))
       else Inr ([U_free p], s))"

text \<open>\<open>spdkfs_mm_free\<close>: the loop runs \<open>i\<close> up to and including \<open>MAX_IO_PTR_NUM\<close>, but stops as
  soon as \<open>mm_table_count\<close> is zero.\<close>

fun mm_free_loop :: "nat list \<Rightarrow> alloc_call list \<Rightarrow> mm_state \<Rightarrow> (alloc_call list \<times> mm_state) res" where
  "mm_free_loop [] calls s = Inr (calls, s)"
| "mm_free_loop (i # is) calls s =
     (if mm_table_count s = 0 then Inr (calls, s)
      else if length (mm_table s) \<le> i then Inl Out_of_bounds
      else if used (mm_table s ! i)
        then mm_free_loop is (calls @ [Spdk_free (ptr (mm_table s ! i))])
               (s\<lparr>mm_table_count := mm_table_count s - 1\<rparr>)
        else mm_free_loop is calls s)"

definition spdkfs_mm_free :: "mm_state \<Rightarrow> (bool \<times> alloc_call list \<times> mm_state) res" where
  "spdkfs_mm_free s =
     bind_res (mm_free_loop [0..<nat MAX_IO_PTR_NUM + 1] [] s) (\<lambda>(calls, s'). Inr (True, calls, s'))"

section \<open>The walk over the entries\<close>

definition live_entries :: "mm_state \<Rightarrow> nat set" where
  "live_entries s = {e. e < length (mm_table s) \<and> used (mm_table s ! e)}"

text \<open>\<open>mm_table_count\<close> is never incremented, so every walk starts at entry 0 and stops short of
  the last entry, which therefore is never used.\<close>

definition table_ok :: "mm_state \<Rightarrow> bool" where
  "table_ok s \<longleftrightarrow> length (mm_table s) = 4096 \<and> mm_table_count s = 0 \<and> \<not> used (mm_table s ! 4095)"

lemma find_entry_step:
  "0 \<le> i \<Longrightarrow> i \<le> 4095 \<Longrightarrow> length tab = 4096 \<Longrightarrow>
     find_entry_loop tab 0 i =
       (if i = 4095 then Some (Inr (- 1))
        else if \<not> used (tab ! nat i) then Some (Inr i) else find_entry_loop tab 0 (i + 1))"
  by (subst find_entry_loop.simps) (simp add: MAX_IO_PTR_NUM_def smod_int_alt_def)

lemma find_entry_result:
  assumes "length tab = 4096" and "i \<le> 4095"
  shows "\<exists>r. find_entry_loop tab 0 (int i) = Some (Inr r) \<and>
     (r = - 1 \<and> (\<forall>j. i \<le> j \<longrightarrow> j < 4095 \<longrightarrow> used (tab ! j)) \<or>
      (\<exists>e. r = int e \<and> i \<le> e \<and> e < 4095 \<and> \<not> used (tab ! e)))"
  using assms(2)
proof (induction "4095 - i" arbitrary: i)
  case 0
  then show ?case using assms(1) find_entry_step [of "int i" tab] by simp
next
  case (Suc n)
  then have i: "i < 4095" by simp
  have step: "find_entry_loop tab 0 (int i) =
     (if \<not> used (tab ! i) then Some (Inr (int i)) else find_entry_loop tab 0 (int (Suc i)))"
    using i assms(1) find_entry_step [of "int i" tab] by (simp add: add.commute)
  have "n = 4095 - Suc i" "Suc i \<le> 4095" using Suc.hyps(2) by simp_all
  then obtain r where r: "find_entry_loop tab 0 (int (Suc i)) = Some (Inr r)"
     "r = - 1 \<and> (\<forall>j. Suc i \<le> j \<longrightarrow> j < 4095 \<longrightarrow> used (tab ! j)) \<or>
      (\<exists>e. r = int e \<and> Suc i \<le> e \<and> e < 4095 \<and> \<not> used (tab ! e))"
    using Suc.hyps(1) by blast
  show ?case
  proof (cases "used (tab ! i)")
    case True
    then have "used (tab ! j)" if "i \<le> j" "j < 4095" "\<forall>j. Suc i \<le> j \<longrightarrow> j < 4095 \<longrightarrow> used (tab ! j)" for j
      using that by (cases "j = i") auto
    then show ?thesis using r step True by (intro exI [of _ r]) (auto dest: Suc_leD)
  next
    case False
    then show ?thesis using step i by (intro exI [of _ "int i"]) auto
  qed
qed

lemma find_next_entry_result:
  assumes "table_ok s"
  shows "find_next_entry s = Inr (- 1) \<and> (\<forall>e < 4095. used (mm_table s ! e)) \<or>
    (\<exists>e. find_next_entry s = Inr (int e) \<and> e < 4095 \<and> \<not> used (mm_table s ! e))"
  using find_entry_result [of "mm_table s" 0] assms
  by (auto simp: find_next_entry_def table_ok_def MAX_IO_PTR_NUM_def)

lemma take_entry_result:
  assumes "table_ok s"
  shows "(\<forall>e < 4095. used (mm_table s ! e)) \<and> take_entry p s = Inl Assert_failed \<or>
    (\<exists>e. e < 4095 \<and> \<not> used (mm_table s ! e) \<and>
       take_entry p s = Inr (int e, s\<lparr>mm_table := (mm_table s)[e := \<lparr>ptr = p, used = True\<rparr>]\<rparr>))"
  using find_next_entry_result [OF assms] by (auto simp: take_entry_def)

definition claim_entry :: "u64 \<Rightarrow> mm_state \<Rightarrow> (nat \<times> mm_state) option" where
  "claim_entry p s = (case take_entry p s of Inl f \<Rightarrow> None | Inr (e, s') \<Rightarrow> Some (nat e, s'))"

definition release_entry :: "nat \<Rightarrow> mm_state \<Rightarrow> mm_state" where
  "release_entry e s = (case clear_entry (int e) s of Inl f \<Rightarrow> s | Inr s' \<Rightarrow> s')"

interpretation mt: slot_table "claim_entry p" release_entry live_entries 4095 table_ok
  for p
proof
  fix s i s'
  assume ok: "table_ok s"
  show "live_entries s \<subseteq> {..<4095}"
  proof
    fix e assume "e \<in> live_entries s"
    then have "e < 4096" "e \<noteq> 4095"
      using ok by (auto simp: live_entries_def table_ok_def)
    then show "e \<in> {..<4095}" by simp
  qed
  show "claim_entry p s = Some (i, s') \<Longrightarrow>
     i < 4095 \<and> i \<notin> live_entries s \<and> live_entries s' = insert i (live_entries s) \<and> table_ok s'"
    using take_entry_result [OF ok, of p] ok
    by (auto simp: claim_entry_def live_entries_def table_ok_def nth_list_update)
  show "i \<in> live_entries s \<Longrightarrow> live_entries (release_entry i s) = live_entries s - {i} \<and> table_ok (release_entry i s)"
    using ok by (auto simp: release_entry_def clear_entry_def live_entries_def table_ok_def nth_list_update)
qed


section \<open>The invariant of the allocator\<close>

definition handle_of :: "nat \<Rightarrow> u64" where
  "handle_of e = int_to_ptr (int e + SPDK_MM_ENT_OFFSET)"

lemma handle_of_inverse: "e < 4096 \<Longrightarrow> ptr_to_int (handle_of e) - SPDK_MM_ENT_OFFSET = int e"
proof -
  assume e: "e < 4096"
  have trunc: "ucast (word_of_int k :: u64) = (word_of_int k :: u32)" for k
    by transfer simp
  have small: "sint (word_of_int k :: u32) = k" if "0 \<le> k" "k < 2 ^ 31" for k
    using that by (simp add: signed_of_int signed_take_bit_int_eq_self)
  have "ptr_to_int (handle_of e) = int e + SPDK_MM_ENT_OFFSET"
    unfolding ptr_to_int_def handle_of_def int_to_ptr_def trunc
    by (rule small) (use e in \<open>simp_all add: SPDK_MM_ENT_OFFSET_def\<close>)
  then show ?thesis by simp
qed

lemma handle_of_nonnull: "e < 4096 \<Longrightarrow> handle_of e \<noteq> 0"
  using handle_of_inverse [of e] by (auto simp: ptr_to_int_def SPDK_MM_ENT_OFFSET_def)

lemma handle_of_inj: "e < 4096 \<Longrightarrow> e' < 4096 \<Longrightarrow> handle_of e = handle_of e' \<longleftrightarrow> e = e'"
  by (metis handle_of_inverse int_eq_iff)

text \<open>The tree and the table describe the same buffers.\<close>

definition mm_inv :: "(u64 \<Rightarrow> u64 \<Rightarrow> u64) \<Rightarrow> mm_state \<Rightarrow> bool" where
  "mm_inv ub s \<longleftrightarrow>
     initialized s \<and> height_to_maxindex s = radix_tree_init ub \<and> table_ok s \<and>
     wf_tree (spdk_mem_root s) \<and>
     (\<forall>p x. tree_map (spdk_mem_root s) p = Some x \<longleftrightarrow>
        (\<exists>e \<in> live_entries s. x = handle_of e \<and> ptr (mm_table s ! e) = p))"

text \<open>The buffers that are currently handed out.\<close>

definition owned :: "mm_state \<Rightarrow> u64 set" where
  "owned s = dom (tree_map (spdk_mem_root s))"

lemma owned_eq: "mm_inv ub s \<Longrightarrow> owned s = (\<lambda>e. ptr (mm_table s ! e)) ` live_entries s"
proof -
  assume "mm_inv ub s"
  then have "p \<in> owned s \<longleftrightarrow> (\<exists>e \<in> live_entries s. ptr (mm_table s ! e) = p)" for p
    unfolding mm_inv_def owned_def domIff not_None_eq by blast
  then show ?thesis by (auto simp: image_iff)
qed

lemma card_owned: "mm_inv ub s \<Longrightarrow> card (owned s) = card (live_entries s)"
proof -
  assume inv: "mm_inv ub s"
  have "inj_on (\<lambda>e. ptr (mm_table s ! e)) (live_entries s)"
  proof (rule inj_onI)
    fix d e assume d: "d \<in> live_entries s" and e: "e \<in> live_entries s"
      and p: "ptr (mm_table s ! d) = ptr (mm_table s ! e)"
    have "tree_map (spdk_mem_root s) (ptr (mm_table s ! d)) = Some (handle_of d)"
         "tree_map (spdk_mem_root s) (ptr (mm_table s ! e)) = Some (handle_of e)"
      using inv d e by (auto simp: mm_inv_def)
    then have "handle_of d = handle_of e" using p by simp
    then show "d = e"
      using d e inv by (simp add: handle_of_inj live_entries_def mm_inv_def table_ok_def)
  qed
  then show ?thesis by (simp add: owned_eq [OF inv] card_image)
qed

lemma mm_find_owned: "mm_inv ub s \<Longrightarrow> spdkfs_mm_find s p = Inr (p \<in> owned s)"
proof -
  assume "mm_inv ub s"
  then have "height_to_maxindex s = radix_tree_init ub" "wf_tree (spdk_mem_root s)"
    by (simp_all add: mm_inv_def)
  then show ?thesis
    by (cases "tree_map (spdk_mem_root s) p")
       (auto simp: spdkfs_mm_find_def rt.lookup_abs owned_def dest: tree_map_nonnull)
qed

lemma mm_malloc_spdk:
  assumes inv: "mm_inv ub s" and sz: "sz mod 4096 = 0" and p: "sm sz \<noteq> 0" "sm sz \<notin> owned s"
    and free: "e0 < 4095" "e0 \<notin> live_entries s"
  shows "\<exists>s'. spdkfs_malloc um sm sz s = Inr (sm sz, [Spdk_malloc sz], s') \<and> mm_inv ub s' \<and>
     owned s' = insert (sm sz) (owned s)"
proof -
  have ok: "table_ok s" and init: "initialized s" "height_to_maxindex s = radix_tree_init ub"
    and wf: "wf_tree (spdk_mem_root s)" 
    and rel: "\<And>p x. tree_map (spdk_mem_root s) p = Some x \<longleftrightarrow>
        (\<exists>e \<in> live_entries s. x = handle_of e \<and> ptr (mm_table s ! e) = p)"
    using inv by (auto simp: mm_inv_def)
  have len: "length (mm_table s) = 4096" using ok by (simp add: table_ok_def)
  have "\<not> (\<forall>e < 4095. used (mm_table s ! e))" using free len by (auto simp: live_entries_def)
  then obtain e where e: "e < 4095" "\<not> used (mm_table s ! e)"
     and take: "take_entry (sm sz) s = Inr (int e, s\<lparr>mm_table := (mm_table s)[e := \<lparr>ptr = sm sz, used = True\<rparr>]\<rparr>)"
    using take_entry_result [OF ok, of "sm sz"] by blast
  define s1 where "s1 = s\<lparr>mm_table := (mm_table s)[e := \<lparr>ptr = sm sz, used = True\<rparr>]\<rparr>"
  have new: "tree_map (spdk_mem_root s) (sm sz) = None" using p(2) by (auto simp: owned_def)
  obtain r' where r': "radix_tree_insert (radix_tree_init ub) (spdk_mem_root s) (sm sz) (handle_of e) = Inr (0, r')"
     "wf_tree r'" "tree_map r' = (tree_map (spdk_mem_root s))(sm sz \<mapsto> handle_of e)"
    using rt.insert_new [OF wf new handle_of_nonnull, of e ub] e by auto
  define s' where "s' = s1\<lparr>spdk_mem_root := r'\<rparr>"
  have live: "live_entries s' = insert e (live_entries s)" "e \<notin> live_entries s"
    using e len by (auto simp: s'_def s1_def live_entries_def nth_list_update)
  have "spdkfs_malloc um sm sz s = Inr (sm sz, [Spdk_malloc sz], s')"
    using sz p take r'(1) init by (simp add: spdkfs_malloc_def s'_def s1_def handle_of_def)
  moreover have "mm_inv ub s'"
  proof -
    have "table_ok s'" using ok e by (auto simp: s'_def s1_def table_ok_def)
    moreover have "tree_map r' q = Some x \<longleftrightarrow>
        (\<exists>d \<in> live_entries s'. x = handle_of d \<and> ptr (mm_table s' ! d) = q)" for q x
    proof -
      have tab: "mm_table s' ! d = (if d = e then \<lparr>ptr = sm sz, used = True\<rparr> else mm_table s ! d)" for d
        using e len by (auto simp: s'_def s1_def nth_list_update)
      have "ptr (mm_table s ! d) \<noteq> sm sz" if "d \<in> live_entries s" for d
        using that rel [of "sm sz"] new by auto
      moreover have "(\<exists>d \<in> live_entries s. d \<noteq> e \<and> x = handle_of d \<and> ptr (mm_table s ! d) = q) \<longleftrightarrow>
          tree_map (spdk_mem_root s) q = Some x"
        unfolding rel [of q x] using live(2) by auto
      ultimately show ?thesis
        unfolding r'(3) live(1) using new by (cases "q = sm sz") (auto simp: tab)
    qed
    ultimately show ?thesis
      using init r'(2) by (simp add: mm_inv_def s'_def s1_def)
  qed
  moreover have "owned s' = insert (sm sz) (owned s)"
    by (simp add: owned_def s'_def r'(3))
  ultimately show ?thesis by blast
qed

lemma mm_free_owned:
  assumes inv: "mm_inv ub s" and p: "p \<in> owned s"
  shows "\<exists>s'. spdkfs_free p s = Inr ([Spdk_free p], s') \<and> mm_inv ub s' \<and> owned s' = owned s - {p}"
proof -
  have ok: "table_ok s" and init: "initialized s" "height_to_maxindex s = radix_tree_init ub"
    and wf: "wf_tree (spdk_mem_root s)" 
    and rel: "\<And>p x. tree_map (spdk_mem_root s) p = Some x \<longleftrightarrow>
        (\<exists>e \<in> live_entries s. x = handle_of e \<and> ptr (mm_table s ! e) = p)"
    using inv by (auto simp: mm_inv_def)
  have len: "length (mm_table s) = 4096" using ok by (simp add: table_ok_def)
  obtain x where x: "tree_map (spdk_mem_root s) p = Some x" using p by (auto simp: owned_def)
  then obtain e where e: "e \<in> live_entries s" "x = handle_of e" "ptr (mm_table s ! e) = p" using rel by auto
  obtain r' where r': "radix_tree_delete (radix_tree_init ub) (spdk_mem_root s) p = Inr (x, r')"
     "wf_tree r'" "tree_map r' = (tree_map (spdk_mem_root s))(p := None)"
    using rt.delete_abs [OF wf, of ub p] x by auto
  have e96: "e < 4096" using e(1) len by (simp add: live_entries_def)
  define s' where "s' = release_entry e (s\<lparr>spdk_mem_root := r'\<rparr>)"
  have s': "s' = s\<lparr>spdk_mem_root := r', mm_table := (mm_table s)[e := (mm_table s ! e)\<lparr>used := False\<rparr>]\<rparr>"
    using e96 len by (simp add: s'_def release_entry_def clear_entry_def)
  have "spdkfs_free p s = Inr ([Spdk_free p], s')"
    using mm_find_owned [OF inv, of p] p r'(1) init handle_of_inverse [OF e96] e(2) e96 len
    by (simp add: spdkfs_free_def clear_entry_def s')
  moreover have "mm_inv ub s'"
  proof -
    have ok': "table_ok (s\<lparr>spdk_mem_root := r'\<rparr>)" "e \<in> live_entries (s\<lparr>spdk_mem_root := r'\<rparr>)" 
      using ok e(1) by (simp_all add: table_ok_def live_entries_def)
    have live: "live_entries s' = live_entries s - {e}" "table_ok s'"
      using mt.release_live [OF ok'] by (simp_all add: s'_def live_entries_def)
    have "tree_map r' q = Some y \<longleftrightarrow>
        (\<exists>d \<in> live_entries s'. y = handle_of d \<and> ptr (mm_table s' ! d) = q)" for q y
    proof -
      have "ptr (mm_table s ! d) \<noteq> p" if "d \<in> live_entries s" "d \<noteq> e" for d
      proof
        assume "ptr (mm_table s ! d) = p"
        then have "handle_of d = x" using that(1) rel [of p "handle_of d"] x by auto
        then show False using that e(2) e96 handle_of_inj len by (auto simp: live_entries_def)
      qed
      then show ?thesis
        unfolding r'(3) live(1) using rel [of q y] e(3) by (auto simp: s' nth_list_update)
    qed
    then show ?thesis using init r'(2) live(2) by (simp add: mm_inv_def s')
  qed
  moreover have "owned s' = owned s - {p}"
    by (auto simp: owned_def s' r'(3))
  ultimately show ?thesis by blast
qed


section \<open>Properties\<close>

lemma mm_start_ok: "table_ok (snd (spdkfs_mm_init ub mm_start))"
  by (simp add: table_ok_def spdkfs_mm_init_def mm_start_def MAX_IO_PTR_NUM_def)

lemma mm_start_inv: "mm_inv ub (snd (spdkfs_mm_init ub mm_start))"
proof -
  have "live_entries (snd (spdkfs_mm_init ub mm_start)) = {}"
    by (auto simp: live_entries_def spdkfs_mm_init_def mm_start_def MAX_IO_PTR_NUM_def)
  then show ?thesis
    using mm_start_ok [of ub]
    by (simp add: mm_inv_def spdkfs_mm_init_def mm_start_def wf_tree_init tree_map_init)
qed

lemma mm_start_owned: "owned (snd (spdkfs_mm_init ub mm_start)) = {}" "live_entries (snd (spdkfs_mm_init ub mm_start)) = {}"
  by (auto simp: owned_def live_entries_def spdkfs_mm_init_def mm_start_def tree_map_init MAX_IO_PTR_NUM_def)

definition example_mm :: mm_state where
  "example_mm = (case spdkfs_malloc (\<lambda>_. 1) (\<lambda>_. 65536) 8192 (snd (spdkfs_mm_init (\<lambda>_ _. 0) mm_start)) of
     Inl f \<Rightarrow> mm_start | Inr (p, calls, s) \<Rightarrow> s)"

lemma example_mm: "mm_inv (\<lambda>_ _. 0) example_mm" "owned example_mm = {65536}"
proof -
  let ?s = "snd (spdkfs_mm_init (\<lambda>_ _. 0) mm_start)"
  obtain s' where s': "spdkfs_malloc (\<lambda>_. 1) (\<lambda>_. 65536) 8192 ?s = Inr (65536, [Spdk_malloc 8192], s')"
      "mm_inv (\<lambda>_ _. 0) s'" "owned s' = insert 65536 (owned ?s)"
    using mm_malloc_spdk [OF mm_start_inv, of 8192 "\<lambda>_. 65536" "\<lambda>_ _. 0" 0 "\<lambda>_. 1"]
    unfolding mm_start_owned by force
  then have "example_mm = s'" unfolding example_mm_def by simp
  with s' show "mm_inv (\<lambda>_ _. 0) example_mm" "owned example_mm = {65536}"
    by (simp_all only: mm_start_owned)
qed

lemma free_entry:
  assumes "mm_inv ub s" and "card (live_entries s) < 4095"
  shows "\<exists>e < 4095. e \<notin> live_entries s"
proof (rule ccontr)
  assume "\<not> (\<exists>e < 4095. e \<notin> live_entries s)"
  then have "{..<4095} \<subseteq> live_entries s" by (metis lessThan_iff subsetI)
  moreover have "finite (live_entries s)" by (simp add: live_entries_def)
  ultimately have "card {..<4095 :: nat} \<le> card (live_entries s)" by (intro card_mono)
  then show False using assms(2) by simp
qed

lemma example_mm_card: "card (live_entries example_mm) = 1"
proof -
  have "card (live_entries example_mm) = card (owned example_mm)"
    using card_owned [OF example_mm(1)] by simp
  then show ?thesis by (simp add: example_mm(2))
qed

text \<open>A request for a multiple of 4096 bytes is served by \<open>spdk_malloc\<close> when a table entry
  below the last one is free: the pointer is returned, becomes one of the owned buffers, and
  the tree and the table still describe the same buffers.\<close>

theorem mm_malloc_owns:
  assumes "mm_inv ub s" and "card (live_entries s) < 4095"
    and "sz mod 4096 = 0" and "sm sz \<noteq> 0" and "sm sz \<notin> owned s"
  shows "\<exists>s'. spdkfs_malloc um sm sz s = Inr (sm sz, [Spdk_malloc sz], s') \<and> mm_inv ub s' \<and>
          owned s' = insert (sm sz) (owned s)"
proof -
  obtain e where "e < 4095" "e \<notin> live_entries s"
    using free_entry [OF assms(1,2)] by blast
  then show ?thesis
    using mm_malloc_spdk [of ub s sz sm e um] assms by simp
qed

theorem mm_malloc_owns_witness:
  "\<exists>s'. spdkfs_malloc (\<lambda>_. 1) (\<lambda>_. 131072) 4096 example_mm = Inr (131072, [Spdk_malloc 4096], s') \<and>
        owned s' = {131072, 65536}"
proof -
  have "card (live_entries example_mm) < 4095"
    using example_mm_card by simp
  then show ?thesis
    using mm_malloc_owns [OF example_mm(1), of 4096 "\<lambda>_. 131072" "\<lambda>_. 1"] by (auto simp: example_mm(2))
qed

text \<open>With 4095 buffers handed out (every entry but the last, which is never tried) the
  next page-sized request fails its assertion, although the table has a 4096th entry.\<close>

theorem mm_malloc_full:
  "table_ok s \<Longrightarrow> card (live_entries s) = 4095 \<Longrightarrow> sz mod 4096 = 0 \<Longrightarrow> sm sz \<noteq> 0 \<Longrightarrow>
     spdkfs_malloc um sm sz s = Inl Assert_failed"
  using mt.claim_full [of s "sm sz"] take_entry_result [of s "sm sz"]
  by (auto simp: spdkfs_malloc_def claim_entry_def)

definition full_mm :: mm_state where
  "full_mm = mm_start\<lparr>mm_table := replicate 4095 \<lparr>ptr = 1, used = True\<rparr> @ [\<lparr>ptr = 0, used = False\<rparr>]\<rparr>"

theorem mm_malloc_full_witness:
  "spdkfs_malloc (\<lambda>_. 1) (\<lambda>_. 65536) 4096 full_mm = Inl Assert_failed"
proof (rule mm_malloc_full)
  have "live_entries full_mm = {..<4095}"
    by (auto simp: live_entries_def full_mm_def nth_append split: if_splits)
  then show "card (live_entries full_mm) = 4095" by simp
  show "table_ok full_mm"
    by (simp add: table_ok_def full_mm_def mm_start_def nth_append)
qed simp_all

text \<open>\<open>spdkfs_free\<close> hands every pointer to the allocator it came from: an owned buffer to
  \<open>spdk_free\<close>, and it is then no longer owned; any other pointer to the C library, and
  nothing changes.\<close>

theorem mm_free_routes:
  "mm_inv ub s \<Longrightarrow>
     \<exists>s'. spdkfs_free p s = Inr ([if p \<in> owned s then Spdk_free p else U_free p], s') \<and>
          mm_inv ub s' \<and> owned s' = owned s - {p}"
  using mm_free_owned [of ub s p] by (cases "p \<in> owned s") (auto simp: spdkfs_free_def mm_find_owned)

theorem mm_free_routes_witness:
  "\<exists>s'. spdkfs_free 65536 example_mm = Inr ([Spdk_free 65536], s') \<and> owned s' = {}"
  using mm_free_routes [OF example_mm(1), of 65536] by (auto simp: example_mm(2))

text \<open>A buffer moved by \<open>spdkfs_realloc\<close> is lost to the allocator: the new address is not
  owned, so freeing it calls the C library's \<open>free\<close> on memory of \<open>spdk_realloc\<close>, while the old
  address is still taken for a live buffer.\<close>

theorem mm_realloc_loses_buffer:
  "mm_inv ub s \<Longrightarrow> p \<in> owned s \<Longrightarrow> sr p sz = q \<Longrightarrow> q \<notin> owned s \<Longrightarrow>
     spdkfs_realloc ur sr p sz s = Inr (q, [Spdk_realloc p sz], s) \<and>
     spdkfs_free q s = Inr ([U_free q], s) \<and> spdkfs_mm_find s p = Inr True"
  by (simp add: spdkfs_realloc_def spdkfs_free_def mm_find_owned)

theorem mm_realloc_loses_buffer_witness:
  "spdkfs_realloc (\<lambda>_ _. 0) (\<lambda>_ _. 262144) 65536 16384 example_mm =
       Inr (262144, [Spdk_realloc 65536 16384], example_mm) \<and>
     spdkfs_free 262144 example_mm = Inr ([U_free 262144], example_mm) \<and>
     spdkfs_mm_find example_mm 65536 = Inr True"
  using mm_realloc_loses_buffer [OF example_mm(1), of 65536 "\<lambda>_ _. 262144" 16384 262144 "\<lambda>_ _. 0"]
  by (simp add: example_mm(2))

lemma mm_free_loop_idle: "mm_table_count s = 0 \<Longrightarrow> mm_free_loop is calls s = Inr (calls, s)"
  by (cases "is") simp_all

lemma mm_free_idle: "mm_inv ub s \<Longrightarrow> spdkfs_mm_free s = Inr (True, [], s)"
  by (simp add: spdkfs_mm_free_def mm_inv_def table_ok_def mm_free_loop_idle del: upt_Suc)

text \<open>\<open>spdkfs_mm_free\<close> frees nothing, whatever is handed out: its loop stops at once because
  \<open>mm_table_count\<close> is always zero.\<close>

theorem mm_free_all_leaks:
  "mm_inv ub s \<Longrightarrow> spdkfs_mm_free s = Inr (True, [], s)"
  by (rule mm_free_idle)

theorem mm_free_all_leaks_witness:
  "spdkfs_mm_free example_mm = Inr (True, [], example_mm) \<and> owned example_mm = {65536}"
  using mm_free_all_leaks [OF example_mm(1)] example_mm(2) by simp

end
