(* ===== verification/Fd_Table.thy ===== *)
theory Fd_Table
  imports Interfaces
begin

text \<open>
  The descriptor table of \<^verbatim>\<open>simple_fs/monopoly_ops.c\<close>: \<^verbatim>\<open>struct fdtable\<close> of
  \<^verbatim>\<open>spdk_fs/fs.h\<close> with \<open>get_fd_from_table\<close> and \<open>return_fd_to_table\<close>. The table is generic in
  the type of the open file objects its \<^verbatim>\<open>open_files\<close> array points to.
\<close>

section \<open>State and operations\<close>

definition SPDK_MAX_FILE_CNT :: u32 where "SPDK_MAX_FILE_CNT = 256"

record 'f fdtable =
  file_count :: u32
  used_fd :: "bool list"
  open_files :: "'f option list"

definition fdtable_zero :: "'f fdtable" where
  "fdtable_zero = \<lparr>file_count = 0, used_fd = replicate 256 False, open_files = replicate 256 None\<rparr>"

text \<open>
  The \<^verbatim>\<open>for\<close> loop of \<open>get_fd_from_table\<close>, from the unsigned counter \<open>i\<close>: it stops with -1 when
  \<open>i\<close> is one less than the number of open files, and starts over at 0 when \<open>i\<close> is 256.
  \<open>None\<close> is a loop that never ends.
\<close>

partial_function (option) get_fd_loop :: "bool list \<Rightarrow> u32 \<Rightarrow> u32 \<Rightarrow> int res option" where
  "get_fd_loop used count i =
     (if i = count - 1 then Some (Inr (- 1))
      else let i' = (if i = SPDK_MAX_FILE_CNT then 0 else i)
           in if length used \<le> unat i' then Some (Inl Out_of_bounds)
              else if \<not> used ! unat i' then Some (Inr (uint i'))
              else get_fd_loop used count (i' + 1))"

definition get_fd_from_table :: "'f fdtable \<Rightarrow> (int \<times> 'f fdtable) res" where
  "get_fd_from_table tab =
     (if SPDK_MAX_FILE_CNT \<le> file_count tab then Inr (- 1, tab)
      else case get_fd_loop (used_fd tab) (file_count tab) (file_count tab) of
             None \<Rightarrow> Inl No_return
           | Some (Inl f) \<Rightarrow> Inl f
           | Some (Inr fd) \<Rightarrow>
               if fd = - 1 then Inr (- 1, tab)
               else Inr (fd, tab\<lparr>used_fd := (used_fd tab)[nat fd := True],
                                 file_count := file_count tab + 1\<rparr>))"

definition return_fd_to_table :: "int \<Rightarrow> 'f fdtable \<Rightarrow> 'f fdtable res" where
  "return_fd_to_table fd tab =
     (if \<not> fd < int (unat SPDK_MAX_FILE_CNT) then Inl Assert_failed
      else if fd < 0 then Inl Out_of_bounds
      else Inr (tab\<lparr>file_count := file_count tab - 1, used_fd := (used_fd tab)[nat fd := False]\<rparr>))"

section \<open>The search loop\<close>

definition live_fds :: "'f fdtable \<Rightarrow> nat set" where
  "live_fds tab = {i. i < 256 \<and> used_fd tab ! i}"

definition fd_ok :: "'f fdtable \<Rightarrow> bool" where
  "fd_ok tab \<longleftrightarrow> length (used_fd tab) = 256 \<and> length (open_files tab) = 256 \<and>
     unat (file_count tab) = card (live_fds tab)"

lemma unat_of_nat_256: "i \<le> 256 \<Longrightarrow> unat (of_nat i :: u32) = i"
  by (simp add: unsigned_of_nat take_bit_nat_eq_self)

lemma of_nat_eq_256: "i \<le> 256 \<Longrightarrow> j \<le> 256 \<Longrightarrow> (of_nat i :: u32) = of_nat j \<longleftrightarrow> i = j"
  by (metis unat_of_nat_256)

text \<open>The loop on natural numbers: \<open>c\<close> files are open and the counter is at \<open>i\<close>.\<close>

definition fd_walk :: "bool list \<Rightarrow> nat \<Rightarrow> nat \<Rightarrow> int res option" where
  "fd_walk used c i = get_fd_loop used (of_nat c) (of_nat i)"

lemma stop_iff:
  assumes "i \<le> 256" "c \<le> 256"
  shows "(of_nat i :: u32) = of_nat c - 1 \<longleftrightarrow> c = Suc i"
proof (cases c)
  case 0
  have "unat (of_nat i :: u32) \<noteq> unat (- 1 :: u32)"
    using assms(1) by (simp add: unat_of_nat_256 unsigned_minus_1_eq_mask mask_nat_def)
  then show ?thesis using 0 by auto
next
  case (Suc d)
  then show ?thesis using assms of_nat_eq_256 [of i d] by auto
qed

lemma fd_walk_step:
  assumes "length used = 256" "c \<le> 256" "i \<le> 256" "c \<noteq> Suc i"
  shows "fd_walk used c i = (let j = (if i = 256 then 0 else i) in
     if \<not> used ! j then Some (Inr (int j)) else fd_walk used c (Suc j))"
proof -
  define j where "j = (if i = 256 then 0 else i)"
  have j: "(if of_nat i = SPDK_MAX_FILE_CNT then 0 else of_nat i :: u32) = of_nat j"
    using of_nat_eq_256 [of i 256] assms(3) by (simp add: SPDK_MAX_FILE_CNT_def j_def)
  have jlt: "j < 256" using assms(3) by (simp add: j_def)
  have "get_fd_loop used (of_nat c) (of_nat i) =
     (if \<not> used ! j then Some (Inr (int j)) else get_fd_loop used (of_nat c) (of_nat j + 1))"
  proof (subst get_fd_loop.simps, unfold Let_def j)
    have "unat (of_nat j :: u32) = j" using jlt by (intro unat_of_nat_256) simp
    then show "(if (of_nat i :: u32) = of_nat c - 1 then Some (Inr (- 1))
       else if length used \<le> unat (of_nat j :: u32) then Some (Inl Out_of_bounds)
       else if \<not> used ! unat (of_nat j :: u32) then Some (Inr (uint (of_nat j :: u32)))
       else get_fd_loop used (of_nat c) (of_nat j + 1)) =
      (if \<not> used ! j then Some (Inr (int j)) else get_fd_loop used (of_nat c) (of_nat j + 1))"
      using assms(1,4) jlt stop_iff [OF assms(3,2)] by (simp add: uint_nat)
  qed
  then show ?thesis by (simp add: fd_walk_def j_def Let_def add.commute)
qed

lemma fd_walk_stop: "i < 256 \<Longrightarrow> fd_walk used (Suc i) i = Some (Inr (- 1))"
  using stop_iff [of i "Suc i"] by (subst fd_walk_def, subst get_fd_loop.simps) simp

lemma fd_walk_next:
  "length used = 256 \<Longrightarrow> c \<le> 256 \<Longrightarrow> i < 256 \<Longrightarrow> c \<noteq> Suc i \<Longrightarrow>
     fd_walk used c i = (if \<not> used ! i then Some (Inr (int i)) else fd_walk used c (Suc i))"
  using fd_walk_step [of used c i] by simp

lemma fd_walk_wrap:
  "length used = 256 \<Longrightarrow> c \<le> 256 \<Longrightarrow>
     fd_walk used c 256 = (if \<not> used ! 0 then Some (Inr 0) else fd_walk used c 1)"
  using fd_walk_step [of used c 256] by simp

text \<open>Along a stretch that does not cross the end, the walk finds the first free slot.\<close>

lemma fd_walk_stretch:
  assumes "length used = 256" "c \<le> 256" "i \<le> m" "m \<le> 256" "\<not> (i < c \<and> c \<le> m)"
  shows "(\<exists>k. fd_walk used c i = Some (Inr (int k)) \<and> i \<le> k \<and> k < m \<and> \<not> used ! k) \<or>
     (\<forall>k. i \<le> k \<longrightarrow> k < m \<longrightarrow> used ! k) \<and> fd_walk used c i = fd_walk used c m"
  using assms(3,5)
proof (induction "m - i" arbitrary: i)
  case 0
  then show ?case by simp
next
  case (Suc n)
  then have i: "i < m" "c \<noteq> Suc i" by auto
  have n: "n = m - Suc i" "Suc i \<le> m" "\<not> (Suc i < c \<and> c \<le> m)" using Suc.hyps(2) Suc.prems by simp_all
  have step: "fd_walk used c i = (if \<not> used ! i then Some (Inr (int i)) else fd_walk used c (Suc i))"
    using fd_walk_next [OF assms(1,2)] i assms(4) by simp
  show ?case
  proof (cases "used ! i")
    case True
    then have "(\<forall>k. i \<le> k \<longrightarrow> k < m \<longrightarrow> used ! k) \<longleftrightarrow> (\<forall>k. Suc i \<le> k \<longrightarrow> k < m \<longrightarrow> used ! k)"
      by (metis Suc_leD le_antisym not_less_eq_eq)
    moreover have "fd_walk used c i = fd_walk used c (Suc i)" using step True by simp
    ultimately show ?thesis using Suc.hyps(1) [OF n] by (auto dest: Suc_leD)
  next
    case False
    then show ?thesis using step i by (intro disjI1 exI [of _ i]) simp
  qed
qed

text \<open>With at least two open files the walk tries every slot but the one before its start.\<close>

lemma fd_walk_result:
  assumes len: "length used = 256" and c: "2 \<le> c" "c \<le> 255"
  shows "(\<exists>k. fd_walk used c c = Some (Inr (int k)) \<and> k < 256 \<and> k \<noteq> c - 1 \<and> \<not> used ! k) \<or>
     (\<forall>k < 256. k \<noteq> c - 1 \<longrightarrow> used ! k) \<and> fd_walk used c c = Some (Inr (- 1))"
proof -
  have c256: "c \<le> 256" using c by simp
  have stop: "fd_walk used c (c - 1) = Some (Inr (- 1))"
    using fd_walk_stop [of "c - 1" used] c by simp
  have lap2: "(\<exists>k. fd_walk used c 1 = Some (Inr (int k)) \<and> 1 \<le> k \<and> k < c - 1 \<and> \<not> used ! k) \<or>
     (\<forall>k. 1 \<le> k \<longrightarrow> k < c - 1 \<longrightarrow> used ! k) \<and> fd_walk used c 1 = Some (Inr (- 1))"
    using fd_walk_stretch [OF len c256, of 1 "c - 1"] c stop by simp
  have lap1: "(\<exists>k. fd_walk used c c = Some (Inr (int k)) \<and> c \<le> k \<and> k < 256 \<and> \<not> used ! k) \<or>
     (\<forall>k. c \<le> k \<longrightarrow> k < 256 \<longrightarrow> used ! k) \<and> fd_walk used c c = fd_walk used c 256"
    using fd_walk_stretch [OF len c256, of c 256] c by simp
  have wrap: "fd_walk used c 256 = (if \<not> used ! 0 then Some (Inr 0) else fd_walk used c 1)"
    by (rule fd_walk_wrap [OF len c256])
  show ?thesis
  proof (cases "\<exists>k. fd_walk used c c = Some (Inr (int k)) \<and> k < 256 \<and> k \<noteq> c - 1 \<and> \<not> used ! k")
    case False
    have "k \<noteq> c - 1" if "c \<le> k" for k using that c by simp
    then have 1: "\<forall>k. c \<le> k \<longrightarrow> k < 256 \<longrightarrow> used ! k" "fd_walk used c c = fd_walk used c 256"
      using lap1 False by blast+
    have 0: "used ! 0" 
    proof (rule ccontr)
      assume "\<not> used ! 0"
      then have "fd_walk used c c = Some (Inr (int 0))" using 1 wrap by simp
      moreover have "0 \<noteq> c - 1" using c by simp
      ultimately show False using False \<open>\<not> used ! 0\<close> by (metis zero_less_numeral)
    qed
    have eq: "fd_walk used c c = fd_walk used c 1" using 1 wrap 0 by simp
    have "\<not> (\<exists>k. fd_walk used c 1 = Some (Inr (int k)) \<and> 1 \<le> k \<and> k < c - 1 \<and> \<not> used ! k)"
    proof
      assume "\<exists>k. fd_walk used c 1 = Some (Inr (int k)) \<and> 1 \<le> k \<and> k < c - 1 \<and> \<not> used ! k"
      then obtain k where "fd_walk used c c = Some (Inr (int k))" "k < c - 1" "\<not> used ! k"
        using eq by auto
      then show False using False c by auto
    qed
    then have 2: "\<forall>k. 1 \<le> k \<longrightarrow> k < c - 1 \<longrightarrow> used ! k" "fd_walk used c 1 = Some (Inr (- 1))"
      using lap2 by blast+
    have "used ! k" if "k < 256" "k \<noteq> c - 1" for k
    proof -
      have "k = 0 \<or> 1 \<le> k \<and> k < c - 1 \<or> c \<le> k" using that(2) by arith
      then show ?thesis using 0 1 2 that(1) by auto
    qed
    then show ?thesis using 0 1 2 wrap by simp
  qed blast
qed


section \<open>The table and its invariant\<close>

lemma finite_live_fds [simp]: "finite (live_fds tab)"
  by (simp add: live_fds_def)

lemma live_bound: "live_fds tab \<subseteq> {..<256}"
  by (auto simp: live_fds_def)

lemma card_live: "card (live_fds tab) \<le> 256"
  using card_mono [OF _ live_bound [of tab]] by simp

definition claim_fd :: "'f fdtable \<Rightarrow> nat \<Rightarrow> 'f fdtable" where
  "claim_fd tab fd = tab\<lparr>used_fd := (used_fd tab)[fd := True], file_count := file_count tab + 1\<rparr>"

lemma live_claim: "length (used_fd tab) = 256 \<Longrightarrow> fd < 256 \<Longrightarrow> live_fds (claim_fd tab fd) = insert fd (live_fds tab)"
  by (auto simp: live_fds_def claim_fd_def nth_list_update)

lemma claim_ok:
  assumes "fd_ok tab" and "fd < 256" and "fd \<notin> live_fds tab"
  shows "fd_ok (claim_fd tab fd)"
proof -
  have "card (live_fds tab) < 256"
    using card_live [of "claim_fd tab fd"] assms by (simp add: live_claim fd_ok_def)
  then have "unat (file_count tab + 1) = Suc (card (live_fds tab))"
    using assms(1) by (simp add: fd_ok_def unat_word_ariths)
  then show ?thesis
    using assms by (simp add: fd_ok_def live_claim) (simp add: claim_fd_def)
qed

lemma almost_full:
  assumes "fd_ok tab" and "\<forall>k < 256. k \<noteq> c - 1 \<longrightarrow> used_fd tab ! k" and "card (live_fds tab) = c" "c \<le> 255"
  shows "c = 255 \<and> 254 \<notin> live_fds tab"
proof -
  have sub: "{..<256} - {c - 1} \<subseteq> live_fds tab" using assms(2) by (auto simp: live_fds_def)
  then have "card ({..<256} - {c - 1}) \<le> c" using assms(3) card_mono [OF finite_live_fds] by metis
  then have c: "c = 255" using assms(4) by (simp add: card_Diff_singleton_if split: if_splits)
  have "254 \<notin> live_fds tab"
  proof
    assume "254 \<in> live_fds tab"
    then have "{..<256} \<subseteq> live_fds tab" using sub c by auto
    then show False using assms(3) c card_mono [OF finite_live_fds, of "{..<256}" tab] by simp
  qed
  then show ?thesis using c by simp
qed

lemma walk_from_count:
  assumes ok: "fd_ok tab" and c: "c = card (live_fds tab)" "c \<le> 255"
  shows "(\<exists>k. fd_walk (used_fd tab) c c = Some (Inr (int k)) \<and> k < 256 \<and> c \<noteq> Suc k \<and> k \<notin> live_fds tab) \<or>
     c = 255 \<and> 254 \<notin> live_fds tab \<and> fd_walk (used_fd tab) c c = Some (Inr (- 1))"
proof -
  have len: "length (used_fd tab) = 256" using ok by (simp add: fd_ok_def)
  have free: "k \<notin> live_fds tab \<longleftrightarrow> \<not> used_fd tab ! k" if "k < 256" for k using that by (simp add: live_fds_def)
  show ?thesis
  proof (cases "2 \<le> c")
    case True
    from fd_walk_result [OF len True c(2)] show ?thesis
    proof (elim disjE exE conjE)
      fix k assume "fd_walk (used_fd tab) c c = Some (Inr (int k))" "k < 256" "k \<noteq> c - 1" "\<not> used_fd tab ! k"
      then show ?thesis using free [of k] True by auto
    next
      assume "\<forall>k < 256. k \<noteq> c - 1 \<longrightarrow> used_fd tab ! k" "fd_walk (used_fd tab) c c = Some (Inr (- 1))"
      then show ?thesis using almost_full [OF ok _ c(1)[symmetric] c(2)] by blast
    qed
  next
    case False
    have st: "(\<exists>k. fd_walk (used_fd tab) c c = Some (Inr (int k)) \<and> c \<le> k \<and> k < 256 \<and> \<not> used_fd tab ! k) \<or>
      (\<forall>k. c \<le> k \<longrightarrow> k < 256 \<longrightarrow> used_fd tab ! k)"
      using fd_walk_stretch [OF len, of c c 256] c(2) by (simp, blast)
    have "\<not> (\<forall>k. c \<le> k \<longrightarrow> k < 256 \<longrightarrow> used_fd tab ! k)"
    proof
      assume "\<forall>k. c \<le> k \<longrightarrow> k < 256 \<longrightarrow> used_fd tab ! k"
      then have "{c..<256} \<subseteq> live_fds tab" by (auto simp: live_fds_def)
      then have "card {c..<256} \<le> c" using c(1) card_mono [OF finite_live_fds] by metis
      then show False using False by simp
    qed
    then obtain k where "fd_walk (used_fd tab) c c = Some (Inr (int k))" "c \<le> k" "k < 256" "\<not> used_fd tab ! k"
      using st by blast
    then show ?thesis using free [of k] by auto
  qed
qed

lemma get_fd_result:
  assumes ok: "fd_ok tab"
  shows "(\<exists>fd. get_fd_from_table tab = Inr (int fd, claim_fd tab fd) \<and> fd < 256 \<and> fd \<notin> live_fds tab \<and>
       card (live_fds tab) \<noteq> Suc fd) \<or>
    get_fd_from_table tab = Inr (- 1, tab) \<and>
      (card (live_fds tab) = 256 \<or> card (live_fds tab) = 255 \<and> 254 \<notin> live_fds tab)"
proof -
  define c where "c = card (live_fds tab)"
  have cnt: "unat (file_count tab) = c" using ok by (simp add: fd_ok_def c_def)
  then have cnt': "file_count tab = of_nat c" by (simp flip: cnt)
  have full: "SPDK_MAX_FILE_CNT \<le> file_count tab \<longleftrightarrow> 256 \<le> c"
    by (simp add: word_le_nat_alt cnt SPDK_MAX_FILE_CNT_def)
  show ?thesis
  proof (cases "256 \<le> c")
    case True
    then show ?thesis using full card_live [of tab] by (simp add: get_fd_from_table_def c_def)
  next
    case False
    then have "c \<le> 255" by simp
    with walk_from_count [OF ok c_def this] full cnt' show ?thesis
      by (auto simp: get_fd_from_table_def fd_walk_def [symmetric] claim_fd_def c_def)
  qed
qed

lemma return_ok:
  assumes "fd_ok tab" and "fd \<in> live_fds tab"
  shows "\<exists>tab'. return_fd_to_table (int fd) tab = Inr tab' \<and> fd_ok tab' \<and> live_fds tab' = live_fds tab - {fd}
     \<and> open_files tab' = open_files tab"
proof -
  define tab' where "tab' = tab\<lparr>file_count := file_count tab - 1, used_fd := (used_fd tab)[fd := False]\<rparr>"
  have fd: "fd < 256" using assms(2) by (simp add: live_fds_def)
  have live: "live_fds tab' = live_fds tab - {fd}"
    using assms fd by (auto simp: tab'_def live_fds_def fd_ok_def nth_list_update)
  have "card (live_fds tab) \<noteq> 0" using assms(2) by auto
  then have "file_count tab \<noteq> 0" using assms(1) by (auto simp: fd_ok_def)
  moreover have "file_count tab' = file_count tab - 1" by (simp add: tab'_def)
  ultimately have "unat (file_count tab') = card (live_fds tab')"
    using assms unfolding live by (simp add: unat_minus_one fd_ok_def)
  then have "fd_ok tab'" using assms(1) by (simp add: fd_ok_def) (simp add: tab'_def)
  moreover have "return_fd_to_table (int fd) tab = Inr tab'"
    using fd by (simp add: return_fd_to_table_def tab'_def SPDK_MAX_FILE_CNT_def)
  ultimately show ?thesis using live by (auto simp: tab'_def)
qed

definition claim_slot :: "'f fdtable \<Rightarrow> (nat \<times> 'f fdtable) option" where
  "claim_slot tab = (case get_fd_from_table tab of
     Inl f \<Rightarrow> None | Inr (fd, tab') \<Rightarrow> if fd = - 1 then None else Some (nat fd, tab'))"

definition release_slot :: "nat \<Rightarrow> 'f fdtable \<Rightarrow> 'f fdtable" where
  "release_slot fd tab = (case return_fd_to_table (int fd) tab of Inl f \<Rightarrow> tab | Inr tab' \<Rightarrow> tab')"

lemma claim_slot_result:
  assumes ok: "fd_ok tab" and claim: "claim_slot tab = Some (i, tab')"
  shows "tab' = claim_fd tab i \<and> i < 256 \<and> i \<notin> live_fds tab"
  using get_fd_result [OF ok]
proof (elim disjE exE conjE)
  fix fd assume "get_fd_from_table tab = Inr (int fd, claim_fd tab fd)" "fd < 256" "fd \<notin> live_fds tab"
  then show ?thesis using claim by (auto simp: claim_slot_def)
qed (use claim in \<open>simp_all add: claim_slot_def\<close>)

lemma release_slot_result:
  assumes ok: "fd_ok tab" and i: "i \<in> live_fds tab"
  shows "live_fds (release_slot i tab) = live_fds tab - {i} \<and> fd_ok (release_slot i tab)"
proof -
  obtain tab' where "return_fd_to_table (int i) tab = Inr tab'" "fd_ok tab'" "live_fds tab' = live_fds tab - {i}"
    using return_ok [OF ok i] by blast
  then show ?thesis by (simp add: release_slot_def)
qed

interpretation ft: slot_table claim_slot release_slot live_fds 256 fd_ok
proof
  fix tab :: "'f fdtable" and i tab'
  assume ok: "fd_ok tab"
  show "live_fds tab \<subseteq> {..<256}" by (rule live_bound)
  show "i < 256 \<and> i \<notin> live_fds tab \<and> live_fds tab' = insert i (live_fds tab) \<and> fd_ok tab'"
    if "claim_slot tab = Some (i, tab')"
  proof -
    have i: "tab' = claim_fd tab i" "i < 256" "i \<notin> live_fds tab"
      using claim_slot_result [OF ok that] by simp_all
    moreover have "length (used_fd tab) = 256" using ok by (simp add: fd_ok_def)
    ultimately show ?thesis
      using claim_ok [OF ok i(2,3)] live_claim [of tab i] by simp
  qed
qed (rule release_slot_result)

section \<open>A table whose count is wrong\<close>

lemma get_fd_loop_hangs_aux:
  assumes ret: "get_fd_loop used count i = Some r"
  shows "length used = 256 \<longrightarrow> (\<forall>k < 256. used ! k) \<longrightarrow> count = 1 \<longrightarrow> 1 \<le> unat i \<longrightarrow> unat i \<le> 256 \<longrightarrow> False"
proof (rule get_fd_loop.raw_induct [where P = "\<lambda>used count i r. length used = 256 \<longrightarrow> (\<forall>k < 256. used ! k) \<longrightarrow>
     count = 1 \<longrightarrow> 1 \<le> unat i \<longrightarrow> unat i \<le> 256 \<longrightarrow> False", OF _ ret], intro impI)
  fix f :: "bool list \<Rightarrow> u32 \<Rightarrow> u32 \<Rightarrow> int res option" and used :: "bool list" and count i :: u32 and r
  assume IH: "\<And>used count i r. f used count i = Some r \<Longrightarrow> length used = 256 \<longrightarrow> (\<forall>k<256. used ! k) \<longrightarrow>
      count = 1 \<longrightarrow> 1 \<le> unat i \<longrightarrow> unat i \<le> 256 \<longrightarrow> False"
    and step: "(if i = count - 1 then Some (Inr (- 1))
      else let i' = if i = SPDK_MAX_FILE_CNT then 0 else i
           in if length used \<le> unat i' then Some (Inl Out_of_bounds)
              else if \<not> used ! unat i' then Some (Inr (uint i')) else f used count (i' + 1)) = Some r"
    and h: "length used = 256" "\<forall>k<256. used ! k" "count = 1" "1 \<le> unat i" "unat i \<le> 256"
  define j where "j = (if i = SPDK_MAX_FILE_CNT then 0 else i)"
  have "unat j < 256"
    using h(5) by (cases "unat i = 256") (auto simp: j_def SPDK_MAX_FILE_CNT_def word_unat_eq_iff)
  moreover have "i \<noteq> count - 1" using h(3,4) by auto
  ultimately have "f used count (j + 1) = Some r" using step h by (simp add: j_def Let_def)
  moreover have "unat (j + 1) = unat j + 1" using \<open>unat j < 256\<close> by (simp add: unat_word_ariths)
  ultimately show False using IH [of used 1 "j + 1" r] h \<open>unat j < 256\<close> by simp
qed

lemma get_fd_hangs:
  assumes "length (used_fd tab) = 256" and "\<forall>k < 256. used_fd tab ! k" and "file_count tab = 1"
  shows "get_fd_from_table tab = Inl No_return"
proof (cases "get_fd_loop (used_fd tab) 1 1")
  case None
  then show ?thesis using assms by (simp add: get_fd_from_table_def SPDK_MAX_FILE_CNT_def word_le_nat_alt)
next
  case (Some r)
  then show ?thesis using get_fd_loop_hangs_aux [OF Some] assms by simp
qed

fun return_fds :: "int list \<Rightarrow> 'f fdtable \<Rightarrow> 'f fdtable res" where
  "return_fds [] tab = Inr tab"
| "return_fds (fd # fds) tab = bind_res (return_fd_to_table fd tab) (return_fds fds)"

lemma return_same:
  "fd < 256 \<Longrightarrow> return_fds (replicate n (int fd)) tab =
     Inr (if n = 0 then tab else tab\<lparr>file_count := file_count tab - of_nat n, used_fd := (used_fd tab)[fd := False]\<rparr>)"
  by (induction n arbitrary: tab) (auto simp: return_fd_to_table_def SPDK_MAX_FILE_CNT_def)


section \<open>Properties\<close>

lemma fdtable_zero_ok: "fd_ok fdtable_zero" "live_fds fdtable_zero = {}"
  by (auto simp: fd_ok_def live_fds_def fdtable_zero_def)

definition full_table :: "nat \<Rightarrow> unit fdtable" where
  "full_table n = \<lparr>file_count = of_nat n, used_fd = replicate n True @ replicate (256 - n) False,
     open_files = replicate 256 None\<rparr>"

lemma full_table:
  assumes "n \<le> 256"
  shows "fd_ok (full_table n)" and "live_fds (full_table n) = {..<n}"
proof -
  show live: "live_fds (full_table n) = {..<n}"
  proof (intro equalityI subsetI)
    fix x assume x: "x \<in> live_fds (full_table n)"
    show "x \<in> {..<n}"
    proof (rule ccontr)
      assume "x \<notin> {..<n}"
      then have "x - n < 256 - n" "\<not> x < n" using x by (auto simp: live_fds_def)
      then show False using x by (simp add: live_fds_def full_table_def nth_append)
    qed
  qed (use assms in \<open>auto simp: live_fds_def full_table_def nth_append\<close>)
  then show "fd_ok (full_table n)"
    using assms by (simp add: fd_ok_def) (simp add: full_table_def unat_of_nat_256)
qed

lemma live_all_but_254:
  assumes "card (live_fds tab) = 255" and "254 \<notin> live_fds tab"
  shows "live_fds tab = {..<256} - {254}"
proof (rule card_subset_eq)
  show "live_fds tab \<subseteq> {..<256} - {254}" using assms(2) live_bound by blast
qed (use assms(1) in simp_all)

text \<open>C31. In a consistent table (the count is the number of used slots) \<open>get_fd_from_table\<close>
  always returns, never indexes out of bounds, and hands out a descriptor below 256 that was
  free, marking just that one; the table stays consistent. It gives up with -1, changing
  nothing, only when all 256 slots are used or when the single free slot is number 254.\<close>

theorem get_fd_correct:
  assumes ok: "fd_ok tab"
  shows "(\<exists>fd tab'. get_fd_from_table tab = Inr (int fd, tab') \<and> fd < 256 \<and> fd \<notin> live_fds tab \<and>
        live_fds tab' = insert fd (live_fds tab) \<and> fd_ok tab' \<and> open_files tab' = open_files tab) \<or>
     get_fd_from_table tab = Inr (- 1, tab) \<and>
        (card (live_fds tab) = 256 \<or> live_fds tab = {..<256} - {254})"
  using get_fd_result [OF ok]
proof (elim disjE exE conjE)
  fix fd assume "get_fd_from_table tab = Inr (int fd, claim_fd tab fd)" "fd < 256" "fd \<notin> live_fds tab"
  then show ?thesis
    using claim_ok [OF ok, of fd] live_claim [of tab fd] ok
    by (intro disjI1 exI [of _ fd] exI [of _ "claim_fd tab fd"]) (simp add: fd_ok_def claim_fd_def)
next
  assume "get_fd_from_table tab = Inr (- 1, tab)" "card (live_fds tab) = 255" "254 \<notin> live_fds tab"
  then show ?thesis using live_all_but_254 by blast
qed simp

theorem get_fd_correct_witness:
  "\<exists>fd tab'. get_fd_from_table (full_table 3) = Inr (int fd, tab') \<and> fd \<notin> {..<3} \<and>
     live_fds tab' = insert fd {..<3}"
  using get_fd_correct [OF full_table(1), of 3] full_table(2) [of 3] by auto

text \<open>The search misses a free slot: with 255 files open and only descriptor 254 free,
  \<open>get_fd_from_table\<close> reports a full table.\<close>

theorem get_fd_misses_254:
  assumes "fd_ok tab" and "live_fds tab = {..<256} - {254}"
  shows "get_fd_from_table tab = Inr (- 1, tab)"
  using get_fd_result [OF assms(1)]
proof (elim disjE exE conjE)
  fix fd assume "fd < 256" "fd \<notin> live_fds tab" "card (live_fds tab) \<noteq> Suc fd"
  then show ?thesis using assms(2) by simp
qed

theorem get_fd_misses_254_witness:
  "get_fd_from_table (claim_fd (full_table 254) 255) = Inr (- 1, claim_fd (full_table 254) 255)"
proof (rule get_fd_misses_254)
  have "255 \<notin> live_fds (full_table 254)" using full_table(2) [of 254] by simp
  then show "fd_ok (claim_fd (full_table 254) 255)" using claim_ok [OF full_table(1)] by simp
  have "length (used_fd (full_table 254)) = 256" by (simp add: full_table_def)
  then have "live_fds (claim_fd (full_table 254) 255) = insert 255 {..<254}"
    using live_claim [of "full_table 254" 255] full_table(2) [of 254] by simp
  moreover have "insert 255 {..<254} = {..<256} - {254 :: nat}"
    unfolding set_eq_iff insert_iff Diff_iff lessThan_iff empty_iff by presburger
  ultimately show "live_fds (claim_fd (full_table 254) 255) = {..<256} - {254}" by (rule trans)
qed

text \<open>Returning a descriptor in use frees exactly that slot and keeps the table consistent;
  a descriptor of 256 or more fails the assertion.\<close>

theorem return_fd_correct:
  assumes "fd_ok tab"
  shows "if 256 \<le> fd then return_fd_to_table (int fd) tab = Inl Assert_failed
    else fd \<in> live_fds tab \<longrightarrow> (\<exists>tab'. return_fd_to_table (int fd) tab = Inr tab' \<and> fd_ok tab' \<and>
      live_fds tab' = live_fds tab - {fd} \<and> open_files tab' = open_files tab)"
proof (cases "256 \<le> fd")
  case True
  then show ?thesis by (simp add: return_fd_to_table_def SPDK_MAX_FILE_CNT_def)
next
  case False
  then show ?thesis using return_ok [OF assms, of fd] by simp
qed

theorem return_fd_correct_witness:
  "\<exists>tab'. return_fd_to_table 3 (full_table 7) = Inr tab' \<and> fd_ok tab' \<and> live_fds tab' = {..<7} - {3}"
  using return_fd_correct [OF full_table(1), of 7 3] full_table(2) [of 7] by auto

text \<open>C32. Over any history of opens and closes that closes only open descriptors, the table stays
  consistent and never has more than 256 descriptors in use.\<close>

theorem fd_history:
  "slot_run claim_slot release_slot live_fds rs fdtable_zero = Some tab \<Longrightarrow>
     fd_ok tab \<and> card (live_fds tab) \<le> 256"
  using ft.run_invar [OF fdtable_zero_ok(1)] ft.card_live_le by blast

theorem fd_history_witness:
  "\<exists>tab :: unit fdtable. slot_run claim_slot release_slot live_fds [Claim, Claim] fdtable_zero = Some tab \<and> fd_ok tab"
proof -
  obtain tab :: "unit fdtable" where
    t: "slot_run claim_slot release_slot live_fds [Claim, Claim] fdtable_zero = Some tab" by simp
  then show ?thesis using fd_history [OF t] by blast
qed

text \<open>Returning the same descriptor again corrupts the table beyond repair: after 256 returns of
  one descriptor of a full table, the next \<open>get_fd_from_table\<close> hands that descriptor out and
  the one after it never returns.\<close>

theorem fd_double_return_hangs:
  assumes "fd_ok tab" and "card (live_fds tab) = 256" and "fd < 256"
  shows "\<exists>t1 t2. return_fds (replicate 256 (int fd)) tab = Inr t1 \<and>
     get_fd_from_table t1 = Inr (int fd, t2) \<and> get_fd_from_table t2 = Inl No_return"
proof -
  have len: "length (used_fd tab) = 256" and cnt: "unat (file_count tab) = 256"
    using assms(1,2) by (simp_all add: fd_ok_def)
  have all: "used_fd tab ! k" if "k < 256" for k
  proof -
    have "live_fds tab = {..<256}"
      using assms(2) by (intro card_subset_eq) (simp_all add: live_bound)
    then show ?thesis using that by (auto simp: live_fds_def)
  qed
  have cnt': "file_count tab = 256" using cnt by (simp add: word_unat_eq_iff)
  define t1 where "t1 = tab\<lparr>file_count := 0, used_fd := (used_fd tab)[fd := False]\<rparr>"
  have t1: "return_fds (replicate 256 (int fd)) tab = Inr t1"
    using return_same [OF assms(3), of 256 tab] by (simp add: t1_def cnt')
  have free: "\<not> used_fd t1 ! k \<longleftrightarrow> k = fd" if "k < 256" for k
    using all [OF that] that assms(3) len by (auto simp: t1_def nth_list_update)
  have walk: "fd_walk (used_fd t1) 0 0 = Some (Inr (int fd))"
    using fd_walk_stretch [of "used_fd t1" 0 0 256] len free assms(3) by (auto simp: t1_def)
  have get: "get_fd_from_table t1 = Inr (int fd, claim_fd t1 fd)"
    using walk by (simp add: get_fd_from_table_def fd_walk_def t1_def SPDK_MAX_FILE_CNT_def word_le_nat_alt claim_fd_def)
  have "used_fd (claim_fd t1 fd) = used_fd tab"
    using all [OF assms(3)] by (simp add: claim_fd_def t1_def list_update_same_conv len assms(3))
  then have "get_fd_from_table (claim_fd t1 fd) = Inl No_return"
    using all len by (intro get_fd_hangs) (simp_all add: claim_fd_def t1_def)
  then show ?thesis using t1 get by blast
qed

theorem fd_double_return_hangs_witness:
  "\<exists>t1 t2. return_fds (replicate 256 5) (full_table 256) = Inr t1 \<and>
     get_fd_from_table t1 = Inr (5, t2) \<and> get_fd_from_table t2 = Inl No_return"
  using fd_double_return_hangs [OF full_table(1), of 256 5] full_table(2) [of 256] by simp

end
