(* ===== verification/Monopoly_Ops.thy ===== *)
theory Monopoly_Ops
  imports Dir Io_Mm Fd_Table
begin

text \<open>
  \<^verbatim>\<open>simple_fs/monopoly_ops.c\<close>: the POSIX-like operations on the single file system of the
  process. The globals are a record. An open file is reached through the descriptor table only
  and is kept there by value; the working directory is either null or the root directory of
  the file system, the only directory the program ever makes it point to.
\<close>

section \<open>State\<close>

record 'b globals =
  g_thread :: "'b thread"
  g_fdtable :: "spdkfs_file fdtable"
  g_root :: spdkfs_dir             \<comment> \<open>\<open>g_filesystem->super_blob->root\<close>\<close>
  g_workdir_set :: bool            \<comment> \<open>\<open>g_workdir\<close> is the root, not null\<close>
  g_mm :: mm_state
  g_buffer :: "u8 list"            \<comment> \<open>the shared buffer; its length is \<open>buf_size\<close>\<close>

text \<open>What a call finds in memory it did not initialise, and what the environment returns: the
  stack slot of \<^verbatim>\<open>done\<close>, the fields of fresh structures, the bytes of fresh buffers, the time,
  the value left in the result register, and \<^verbatim>\<open>find_dir\<close>, which the repository calls but does
  not define.\<close>

record env =
  stack_done :: bool
  junk_blob :: blob
  junk_file :: spdkfs_file_persist_ctx
  junk_dir :: spdkfs_dir_persist_ctx
  junk_mem :: "nat \<Rightarrow> u8"
  time_now :: u64
  junk_result :: int
  find_dir :: "u8 list \<Rightarrow> spdkfs_dir \<Rightarrow> int"

definition buf_size :: "'b globals \<Rightarrow> u64" where
  "buf_size g = of_nat (length (g_buffer g))"

text \<open>\<^verbatim>\<open>int io_unit = spdk_bs_get_io_unit_size(...)\<close>, as it is used in \<^verbatim>\<open>size_t\<close> arithmetic.\<close>

definition int_io_unit :: "'b spdk \<Rightarrow> 'b globals \<Rightarrow> u64" where
  "int_io_unit L g = c_int (io_unit_size L (lib (g_thread g)))"

definition workdir :: "'b globals \<Rightarrow> spdkfs_dir res" where
  "workdir g = (if g_workdir_set g then Inr (g_root g) else Inl Null_deref)"

definition file_of_fd :: "'b globals \<Rightarrow> int \<Rightarrow> spdkfs_file res" where
  "file_of_fd g fd =
     (if fd < 0 \<or> int (length (open_files (g_fdtable g))) \<le> fd then Inl Out_of_bounds
      else case open_files (g_fdtable g) ! nat fd of None \<Rightarrow> Inl Null_deref | Some f \<Rightarrow> Inr f)"

definition set_open_file :: "int \<Rightarrow> spdkfs_file \<Rightarrow> 'b globals \<Rightarrow> 'b globals" where
  "set_open_file fd f g =
     g\<lparr>g_fdtable := (g_fdtable g)\<lparr>open_files := (open_files (g_fdtable g))[nat fd := Some f]\<rparr>\<rparr>"

section \<open>Bytes in memory\<close>

definition put_bytes :: "u8 list \<Rightarrow> nat \<Rightarrow> u8 list \<Rightarrow> u8 list res" where
  "put_bytes mem off bs =
     (if length mem < off + length bs then Inl Out_of_bounds
      else Inr (take off mem @ bs @ drop (off + length bs) mem))"

definition get_bytes :: "u8 list \<Rightarrow> nat \<Rightarrow> nat \<Rightarrow> u8 list res" where
  "get_bytes mem off n =
     (if length mem < off + n then Inl Out_of_bounds else Inr (take n (drop off mem)))"

text \<open>A \<^verbatim>\<open>uint64_t\<close> in memory, least significant byte first.\<close>

definition le_bytes :: "u64 \<Rightarrow> u8 list" where
  "le_bytes x = map (\<lambda>i. ucast (drop_bit (8 * i) x)) [0..<8]"

fun le_value :: "u8 list \<Rightarrow> u64" where
  "le_value [] = 0"
| "le_value (b # bs) = ucast b + 256 * le_value bs"

definition dirent_id :: "spdkfs_dir \<Rightarrow> nat \<Rightarrow> u64 res" where
  "dirent_id dir i =
     bind_res (get_bytes (dirents dir) (sizeof_dirent * i + SPDK_MAX_NAME_COUNT) 8) (\<lambda>bs. Inr (le_value bs))"

section \<open>Creating, opening and closing\<close>

text \<open>The two allocations of \<open>add_dirent\<close>, then the entry itself. The entry gets the name without
  a terminator.\<close>

definition dirent_room :: "(nat \<Rightarrow> u8) \<Rightarrow> u64 \<Rightarrow> spdkfs_dir \<Rightarrow> spdkfs_dir res" where
  "dirent_room junk io_unit dir =
     (let dir1 = (if d_size (dir_persist dir) = 0
                  then dir\<lparr>dirents := fresh_mem junk (unat io_unit),
                           dir_persist := (dir_persist dir)\<lparr>d_size := io_unit\<rparr>\<rparr>
                  else dir)
      in if io_unit = 0 then Inl Div_by_zero
         else if d_size (dir_persist dir1) div io_unit
                \<le> d_dirent_count (dir_persist dir1) * of_nat sizeof_dirent
         then Inr (dir1\<lparr>dirents := take (unat (d_size (dir_persist dir1) + io_unit))
                                    (dirents dir1 @ fresh_mem junk (unat io_unit)),
                        dir_persist := (dir_persist dir1)\<lparr>d_size := d_size (dir_persist dir1) + io_unit\<rparr>\<rparr>)
         else Inr dir1)"

definition add_dirent ::
  "(nat \<Rightarrow> u8) \<Rightarrow> u64 \<Rightarrow> u64 \<Rightarrow> u8 list \<Rightarrow> spdkfs_dir \<Rightarrow> spdkfs_dir res" where
  "add_dirent junk io_unit blob_id filename dir =
     bind_res (dirent_room junk io_unit (dir\<lparr>d_dirty := True\<rparr>)) (\<lambda>dir1.
       let off = sizeof_dirent * unat (d_dirent_count (dir_persist dir1))
       in bind_res (put_bytes (dirents dir1) (off + SPDK_MAX_NAME_COUNT) (le_bytes blob_id)) (\<lambda>mem1.
          bind_res (put_bytes mem1 off (take SPDK_MAX_NAME_COUNT filename)) (\<lambda>mem2.
            Inr (dir1\<lparr>dirents := mem2,
                      dir_persist := (dir_persist dir1)
                        \<lparr>d_dirent_count := d_dirent_count (dir_persist dir1) + 1\<rparr>\<rparr>))))"

text \<open>Getting a descriptor for a file that is ready: the last statements of create and open.\<close>

definition install_file :: "spdkfs_file \<Rightarrow> 'b globals \<Rightarrow> (int \<times> 'b globals) res" where
  "install_file f g =
     bind_res (get_fd_from_table (g_fdtable g)) (\<lambda>(fd, tab).
       if fd = - 1 then Inr (- 1, g\<lparr>g_fdtable := tab\<rparr>)
       else Inr (fd, set_open_file fd f (g\<lparr>g_fdtable := tab\<rparr>)))"

definition monopoly_create ::
  "'b spdk \<Rightarrow> env \<Rightarrow> u8 list \<Rightarrow> 'b globals \<Rightarrow> (int \<times> 'b globals) res" where
  "monopoly_create L e file g =
     bind_res (workdir g) (\<lambda>dir.
     if \<not> d_initialized dir then Inl Assert_failed
     else bind_res (spdkfs_dir_lookup dir file) (\<lambda>idx.
     if idx \<noteq> - 1 then Inr (- 1, g)
     else bind_res (blob_create L (stack_done e) (junk_blob e) (g_thread g)) (\<lambda>(ret, blb, th1).
       let (f, th2) = op_create (simplefs_file_ops L) (junk_file e) (time_now e)
                        \<lparr>f_blob = blb, f_pos = 0, file_persist = junk_file e\<rparr> th1;
           g2 = g\<lparr>g_thread := th2\<rparr>
       in bind_res (add_dirent (junk_mem e) (int_io_unit L g2) (get_id L (lib th2) blb) file dir) (\<lambda>dir'.
          install_file f (g2\<lparr>g_root := dir'\<rparr>)))))"

definition monopoly_open ::
  "'b spdk \<Rightarrow> env \<Rightarrow> u8 list \<Rightarrow> 'b globals \<Rightarrow> (int \<times> 'b globals) res" where
  "monopoly_open L e file g =
     bind_res (workdir g) (\<lambda>dir.
     bind_res (spdkfs_dir_lookup dir file) (\<lambda>idx.
     if idx = - 1 then Inr (- 1, g)
     else bind_res (dirent_id dir (nat idx)) (\<lambda>i.
          bind_res (blob_open L (stack_done e) (junk_blob e) i (g_thread g)) (\<lambda>(ret, blb, th1).
          bind_res (op_open (simplefs_file_ops L) \<lparr>f_blob = blb, f_pos = 0, file_persist = junk_file e\<rparr> th1) (\<lambda>f.
            install_file (f\<lparr>f_pos := 0\<rparr>) (g\<lparr>g_thread := th1\<rparr>))))))"

definition monopoly_close :: "'b spdk \<Rightarrow> env \<Rightarrow> int \<Rightarrow> 'b globals \<Rightarrow> (int \<times> 'b globals) res" where
  "monopoly_close L e fd g =
     bind_res (file_of_fd g fd) (\<lambda>f.
     bind_res (op_close (simplefs_file_ops L) (stack_done e) f (g_thread g)) (\<lambda>th.
     bind_res (return_fd_to_table fd (g_fdtable g)) (\<lambda>tab.
       Inr (0, g\<lparr>g_thread := th, g_fdtable := tab\<rparr>))))"

section \<open>Reading and writing\<close>

text \<open>
  The state of a transfer: the file, the user's memory from \<^verbatim>\<open>__buf\<close> on, the shared buffer and
  the thread. \<open>chunk_loop\<close> is the \<^verbatim>\<open>for\<close> loop of both operations, with its body from
  \<^verbatim>\<open>spdk_read\<close> (\<^verbatim>\<open>spdk_write\<close>) on as a parameter: the body gets the number of bytes and the
  offset of the chunk and returns the number of bytes transferred. A chunk is at most
  \<^verbatim>\<open>buf_size\<close> bytes, computed in an \<^verbatim>\<open>int\<close>.
\<close>

record 'b transfer =
  t_file :: spdkfs_file
  t_user :: "u8 list"
  t_buffer :: "u8 list"
  t_thread :: "'b thread"

function chunk_loop ::
  "(u64 \<Rightarrow> u64 \<Rightarrow> 's \<Rightarrow> (u64 \<times> 's) res) \<Rightarrow> u64 \<Rightarrow> u64 \<Rightarrow> nat \<Rightarrow> u64 \<Rightarrow> 's \<Rightarrow> (u64 \<times> 's) res" where
  "chunk_loop body bufsz amount i acc s =
     (if i < unat (upper_div amount bufsz)
      then let n = c_int (min bufsz (amount - of_nat i * bufsz))
           in bind_res (body n (of_nat i * bufsz) s) (\<lambda>(r, s').
                if c_int r \<noteq> 0 then chunk_loop body bufsz amount (Suc i) (acc + c_int r) s'
                else Inr (acc, s'))
      else Inr (acc, s))"
  by pat_completeness auto
termination
  by (relation "measure (\<lambda>(body, bufsz, amount, i, acc, s). unat (upper_div amount bufsz) - i)") auto

declare chunk_loop.simps [simp del]

definition read_chunk ::
  "'b spdk \<Rightarrow> u64 \<Rightarrow> u64 \<Rightarrow> 'b transfer \<Rightarrow> (u64 \<times> 'b transfer) res" where
  "read_chunk L n off s =
     bind_res (op_read (simplefs_file_ops L) (t_file s) n (t_buffer s) (t_thread s)) (\<lambda>(r, f, buf, th).
       let s' = s\<lparr>t_file := f, t_buffer := buf, t_thread := th\<rparr>
       in if c_int r \<noteq> 0
          then bind_res (get_bytes buf 0 (unat (c_int r))) (\<lambda>bs.
               bind_res (put_bytes (t_user s) (unat off) bs) (\<lambda>user. Inr (r, s'\<lparr>t_user := user\<rparr>)))
          else Inr (r, s'))"

definition write_chunk ::
  "'b spdk \<Rightarrow> u64 \<Rightarrow> u64 \<Rightarrow> 'b transfer \<Rightarrow> (u64 \<times> 'b transfer) res" where
  "write_chunk L n off s =
     bind_res (get_bytes (t_user s) (unat off) (unat n)) (\<lambda>bs.
     bind_res (put_bytes (t_buffer s) 0 bs) (\<lambda>buf0.
     bind_res (op_write (simplefs_file_ops L) (t_file s) n buf0 (t_thread s)) (\<lambda>(r, f, buf, th).
       let s' = s\<lparr>t_file := f, t_buffer := buf, t_thread := th\<rparr>
       in if c_int r \<noteq> 0
          then bind_res (get_bytes buf 0 (unat (c_int r))) (\<lambda>bs.
               bind_res (put_bytes (t_user s) (unat off) bs) (\<lambda>user. Inr (r, s'\<lparr>t_user := user\<rparr>)))
          else Inr (r, s'))))"

definition end_transfer :: "int \<Rightarrow> 'b transfer \<Rightarrow> 'b globals \<Rightarrow> 'b globals" where
  "end_transfer fd s g = set_open_file fd (t_file s) (g\<lparr>g_buffer := t_buffer s, g_thread := t_thread s\<rparr>)"

text \<open>\<open>buf\<close> is the address of the user's buffer, \<open>user\<close> the memory there. The division of the
  \<^verbatim>\<open>UPPER_DIV\<close> in the loop condition faults when the shared buffer is empty.\<close>

definition monopoly_read ::
  "'b spdk \<Rightarrow> int \<Rightarrow> u64 \<Rightarrow> u8 list \<Rightarrow> u64 \<Rightarrow> 'b globals \<Rightarrow> (u64 \<times> u8 list \<times> 'b globals) res" where
  "monopoly_read L fd buf user nbytes g =
     (if fd = - 1 then Inl Assert_failed
      else bind_res (file_of_fd g fd) (\<lambda>file.
        let io_unit = int_io_unit L g; amount = nbytes div io_unit * io_unit
        in if io_unit = 0 then Inl Div_by_zero
           else if nbytes div io_unit = 0 then Inr (0, user, g)
           else bind_res (spdkfs_mm_find (g_mm g) buf) (\<lambda>owned.
             if \<not> owned then
               if buf_size g = 0 then Inl Div_by_zero
               else bind_res (chunk_loop (read_chunk L) (buf_size g) amount 0 0
                        \<lparr>t_file = file, t_user = user, t_buffer = g_buffer g, t_thread = g_thread g\<rparr>)
                      (\<lambda>(r, s). Inr (r, t_user s, end_transfer fd s g))
             else bind_res (op_read (simplefs_file_ops L) file amount user (g_thread g)) (\<lambda>(r, f, user', th).
                    Inr (r, user', set_open_file fd f (g\<lparr>g_thread := th\<rparr>))))))"

definition monopoly_write ::
  "'b spdk \<Rightarrow> int \<Rightarrow> u64 \<Rightarrow> u8 list \<Rightarrow> u64 \<Rightarrow> 'b globals \<Rightarrow> (u64 \<times> u8 list \<times> 'b globals) res" where
  "monopoly_write L fd buf user nbytes g =
     (if fd = - 1 then Inl Assert_failed
      else bind_res (file_of_fd g fd) (\<lambda>file.
        let io_unit = int_io_unit L g; amount = nbytes div io_unit * io_unit
        in if io_unit = 0 then Inl Div_by_zero
           else if nbytes div io_unit = 0 then Inr (0, user, g)
           else bind_res (spdkfs_mm_find (g_mm g) buf) (\<lambda>owned.
             if \<not> owned then
               if buf_size g = 0 then Inl Div_by_zero
               else bind_res (chunk_loop (write_chunk L) (buf_size g) amount 0 0
                        \<lparr>t_file = file, t_user = user, t_buffer = g_buffer g, t_thread = g_thread g\<rparr>)
                      (\<lambda>(r, s). Inr (r, t_user s, end_transfer fd s g))
             else bind_res (op_write (simplefs_file_ops L) file amount user (g_thread g)) (\<lambda>(r, f, user', th).
                    Inr (r, user', set_open_file fd f (g\<lparr>g_thread := th\<rparr>))))))"

section \<open>Seeking, attributes, removal\<close>

definition SEEK_SET :: int where "SEEK_SET = 0"

definition SEEK_CUR :: int where "SEEK_CUR = 1"

text \<open>\<^verbatim>\<open>__offset / io_unit * io_unit\<close> on signed 64-bit numbers, rounding towards zero.\<close>

definition seek_align :: "u64 \<Rightarrow> u64 \<Rightarrow> u64" where
  "seek_align offset io_unit = word_of_int (sint offset sdiv sint io_unit * sint io_unit)"

definition monopoly_lseek :: "'b spdk \<Rightarrow> int \<Rightarrow> u64 \<Rightarrow> int \<Rightarrow> 'b globals \<Rightarrow> (u64 \<times> 'b globals) res" where
  "monopoly_lseek L fd offset whence g =
     (if fd = - 1 then Inl Assert_failed
      else bind_res (file_of_fd g fd) (\<lambda>f.
        let io_unit = int_io_unit L g; actual_seek = seek_align offset io_unit;
            f1 = (if whence = SEEK_SET then f\<lparr>f_pos := actual_seek\<rparr> else f);
            f2 = (if whence = SEEK_CUR then f1\<lparr>f_pos := f_pos f1 + actual_seek\<rparr> else f1)
        in if io_unit = 0 then Inl Div_by_zero
           else Inr (f_pos f2, set_open_file fd f2 g)))"

record stat =
  st_ino :: u64
  st_size :: u64
  st_mtime :: u64
  st_atime :: u64
  st_blksize :: u64
  st_uid :: u32

text \<open>\<open>monopoly_stat\<close> uses the result of \<open>find_dir\<close> as a blob id and leaves the blob open.\<close>

definition monopoly_stat ::
  "'b spdk \<Rightarrow> env \<Rightarrow> u8 list \<Rightarrow> stat \<Rightarrow> 'b globals \<Rightarrow> (int \<times> stat \<times> 'b globals) res" where
  "monopoly_stat L e file st g =
     (let target = find_dir e file (g_root g)
      in if target = - 1 then Inr (- 1, st, g)
         else bind_res (blob_open L (stack_done e) (junk_blob e) (word_of_int target) (g_thread g)) (\<lambda>(ret, blb, th).
           if \<not> ret then Inr (- 1, st, g\<lparr>g_thread := th\<rparr>)
           else bind_res (simple_fs_open L \<lparr>f_blob = blb, f_pos = 0, file_persist = junk_file e\<rparr> th) (\<lambda>f.
                bind_res (workdir g) (\<lambda>dir.
                  let meta = file_persist f
                  in Inr (0, st\<lparr>st_ino := get_id L (lib th) blb, st_size := f_size meta, st_mtime := i_mtime meta,
                              st_atime := i_atime meta, st_blksize := io_unit_size L (lib th),
                              st_uid := i_uid meta\<rparr>, g\<lparr>g_thread := th\<rparr>)))))"

text \<open>The loop of \<open>monopoly_unlink\<close> copies each following entry one place down.\<close>

function shift_dirents :: "nat \<Rightarrow> nat \<Rightarrow> u8 list \<Rightarrow> u8 list res" where
  "shift_dirents i final mem =
     (if i < final
      then bind_res (get_bytes mem (sizeof_dirent * Suc i) sizeof_dirent) (\<lambda>bs.
           bind_res (put_bytes mem (sizeof_dirent * i) bs) (\<lambda>mem'. shift_dirents (Suc i) final mem'))
      else Inr mem)"
  by pat_completeness auto
termination
  by (relation "measure (\<lambda>(i, final, mem). final - i)") auto

declare shift_dirents.simps [simp del]

text \<open>The function has no return statement; its result is what the register holds.\<close>

definition monopoly_unlink ::
  "'b spdk \<Rightarrow> env \<Rightarrow> u8 list \<Rightarrow> 'b globals \<Rightarrow> (int \<times> 'b globals) res" where
  "monopoly_unlink L e file g =
     (let idx = find_dir e file (g_root g)
      in if idx = - 1 then Inr (- 1, g)
         else bind_res (workdir g) (\<lambda>dir.
           if idx < 0 then Inl Out_of_bounds
           else bind_res (dirent_id dir (nat idx)) (\<lambda>i.
             bind_res (blob_unlink L (stack_done e) i (g_thread g)) (\<lambda>(ret, th).
             bind_res (shift_dirents (nat idx) (unat (d_dirent_count (dir_persist dir) - 1)) (dirents dir)) (\<lambda>mem.
               Inr (junk_result e, g\<lparr>g_thread := th, g_root := dir\<lparr>dirents := mem, dir_persist :=
                 (dir_persist dir)\<lparr>d_dirent_count := d_dirent_count (dir_persist dir) - 1\<rparr>\<rparr>\<rparr>))))))"

text \<open>\<open>monopoly_chdir\<close> makes a directory blob, \<open>monopoly_mkdir\<close> sets the working directory; the
  structure that the former builds is reachable from nowhere afterwards.\<close>

definition monopoly_chdir :: "'b spdk \<Rightarrow> env \<Rightarrow> u8 list \<Rightarrow> 'b globals \<Rightarrow> (int \<times> spdkfs_dir \<times> 'b globals) res" where
  "monopoly_chdir L e pathname g =
     bind_res (blob_create L (stack_done e) (junk_blob e) (g_thread g)) (\<lambda>(ret, blb, th).
       let (dir, th') = op_mkdir (simplefs_dir_ops L) (junk_dir e) (time_now e)
             \<lparr>d_has_fs = True, d_blob = blb, d_initialized = False, dir_persist = junk_dir e, dirents = [],
              d_dirty = False\<rparr> th
       in Inr (junk_result e, dir\<lparr>d_initialized := True\<rparr>, g\<lparr>g_thread := th'\<rparr>))"

definition monopoly_mkdir :: "env \<Rightarrow> u8 list \<Rightarrow> 'b globals \<Rightarrow> int \<times> 'b globals" where
  "monopoly_mkdir e pathname g = (junk_result e, g\<lparr>g_workdir_set := True\<rparr>)"

end
