(* ===== verification/Dirent_Props.thy ===== *)
theory Dirent_Props
  imports Monopoly_Ops
begin

text \<open>
  What \<open>add_dirent\<close> and the loop of \<open>monopoly_unlink\<close> do to the entries of a directory: the
  memory they need, the names and ids the entries have afterwards.
\<close>

section \<open>Numbers in memory\<close>

lemma byte_step:
  "ucast (ucast y :: u8) + 256 * take_bit (8 * n) (drop_bit 8 y) = take_bit (8 + 8 * n) (y :: u64)"
proof -
  have e: "256 * z = push_bit 8 z" for z :: u64
    by (simp add: push_bit_eq_mult)
  have "ucast (ucast y :: u8) + push_bit 8 (take_bit (8 * n) (drop_bit 8 y)) =
      or (ucast (ucast y :: u8)) (push_bit 8 (take_bit (8 * n) (drop_bit 8 y)) :: u64)"
    by (rule disjunctive_add) (auto simp: bit_simps)
  also have "\<dots> = take_bit (8 + 8 * n) y"
    by (rule bit_word_eqI) (auto simp: bit_simps)
  finally show ?thesis by (simp add: e)
qed

lemma le_value_map:
  "le_value (map (\<lambda>i. ucast (drop_bit (8 * i) x)) [k..<k + n]) = take_bit (8 * n) (drop_bit (8 * k) x)"
proof (induction n arbitrary: k)
  case (Suc n)
  have "[k..<k + Suc n] = k # [Suc k..<Suc k + n]" by (simp add: upt_conv_Cons)
  then show ?case
    using Suc.IH [of "Suc k"] byte_step [of "drop_bit (8 * k) x" n] by (simp add: drop_bit_drop_bit)
qed simp

lemma le_value_bytes: "le_value (le_bytes x) = x"
  using le_value_map [of x 0 8] by (simp add: le_bytes_def take_bit_word_eq_self)

lemma length_le_bytes [simp]: "length (le_bytes x) = 8"
  by (simp add: le_bytes_def)

section \<open>Windows of the entry array\<close>

text \<open>Entry \<open>j\<close> as its 520 bytes.\<close>

definition entry :: "u8 list \<Rightarrow> nat \<Rightarrow> u8 list" where
  "entry mem j = take sizeof_dirent (drop (sizeof_dirent * j) mem)"

text \<open>The name in an entry whose first 512 bytes hold a terminator.\<close>

definition name_in :: "u8 list \<Rightarrow> u8 list" where
  "name_in ent = takeWhile (\<lambda>c. c \<noteq> 0) ent"

lemma entry_name_in:
  assumes "0 \<in> set (take SPDK_MAX_NAME_COUNT (entry mem j))"
  shows "entry_name mem j = name_in (entry mem j)"
proof -
  have z: "0 \<in> set (entry mem j)" using assms in_set_takeD by metis
  have "drop (sizeof_dirent * j) mem = entry mem j @ drop sizeof_dirent (drop (sizeof_dirent * j) mem)"
    by (simp only: entry_def append_take_drop_id)
  then show ?thesis
    using takeWhile_append1 [OF z, of "\<lambda>c. c \<noteq> 0"] by (simp add: entry_name_def name_in_def)
qed

lemma named_entries_iff:
  "named_entries mem n \<longleftrightarrow> (\<forall>j<n. 0 \<in> set (take SPDK_MAX_NAME_COUNT (entry mem j)))"
  by (simp add: named_entries_def entry_def SPDK_MAX_NAME_COUNT_def sizeof_dirent_def)

lemma dir_names_entries:
  assumes "named_entries (dirents dir) (unat (d_dirent_count (dir_persist dir)))"
  shows "dir_names dir = map (\<lambda>j. name_in (entry (dirents dir) j)) [0..<unat (d_dirent_count (dir_persist dir))]"
  using assms by (auto simp: dir_names_def named_entries_iff entry_name_in)

lemma put_bytes_Inr:
  "off + length bs \<le> length mem \<Longrightarrow> put_bytes mem off bs = Inr (take off mem @ bs @ drop (off + length bs) mem)"
  by (simp add: put_bytes_def)

text \<open>Writing below an offset, and whole entries.\<close>

lemma entry_below:
  "sizeof_dirent * Suc j \<le> off \<Longrightarrow> off \<le> length mem \<Longrightarrow> entry (take off mem @ x) j = entry mem j"
  by (simp add: entry_def sizeof_dirent_def take_drop min_def)

lemma entry_append: "length x = sizeof_dirent * j \<Longrightarrow> length ent = sizeof_dirent \<Longrightarrow> entry (x @ ent @ y) j = ent"
  by (simp add: entry_def)

lemma entry_above:
  assumes "length x = sizeof_dirent * Suc i" and "i < j"
  shows "entry (x @ drop (sizeof_dirent * Suc i) mem) j = entry mem j"
  using assms by (simp add: entry_def sizeof_dirent_def)

section \<open>Adding an entry\<close>

text \<open>The room of a directory: its memory is as long as the stored size says, and the size is at
  least one io unit per entry. \<open>u\<close> is the io unit.\<close>

definition dir_room :: "u64 \<Rightarrow> spdkfs_dir \<Rightarrow> bool" where
  "dir_room u dir \<longleftrightarrow>
     length (dirents dir) = unat (d_size (dir_persist dir)) \<and>
     unat (d_dirent_count (dir_persist dir)) * unat u \<le> unat (d_size (dir_persist dir))"

text \<open>No 64-bit size overflows when one more entry is added.\<close>

definition dir_small :: "u64 \<Rightarrow> spdkfs_dir \<Rightarrow> bool" where
  "dir_small u dir \<longleftrightarrow> unat (d_size (dir_persist dir)) + unat u < 2 ^ 64 \<and>
     unat (d_dirent_count (dir_persist dir)) * sizeof_dirent + sizeof_dirent < 2 ^ 64"

lemma unat_small_sum: "unat (a :: u64) + unat b < 2 ^ 64 \<Longrightarrow> unat (a + b) = unat a + unat b"
  by (simp add: unat_word_ariths take_bit_nat_eq_self flip: take_bit_eq_mod)

lemma unat_count_bytes:
  assumes "unat (c :: u64) * sizeof_dirent < 2 ^ 64"
  shows "unat (c * of_nat sizeof_dirent) = unat c * sizeof_dirent"
  using assms by (simp add: unat_word_ariths take_bit_nat_eq_self sizeof_dirent_def flip: take_bit_eq_mod)

lemma room_first:
  assumes "dir_room u dir" and "sizeof_dirent \<le> unat u" and "d_size (dir_persist dir) = 0"
  shows "dirent_room junk u dir = Inr (dir\<lparr>dirents := fresh_mem junk (unat u),
           dir_persist := (dir_persist dir)\<lparr>d_size := u\<rparr>\<rparr>)"
    and "d_dirent_count (dir_persist dir) = 0"
proof -
  have u: "0 < unat u" using assms(2) by (simp add: sizeof_dirent_def)
  then have u0: "u \<noteq> 0" by auto
  show c: "d_dirent_count (dir_persist dir) = 0"
    using assms u unat_0_iff by (fastforce simp: dir_room_def)
  have "u div u = 1" using u by (simp add: word_unat_eq_iff unat_div)
  then show "dirent_room junk u dir = Inr (dir\<lparr>dirents := fresh_mem junk (unat u),
           dir_persist := (dir_persist dir)\<lparr>d_size := u\<rparr>\<rparr>)"
    using assms(3) u0 c by (simp add: dirent_room_def Let_def)
qed

text \<open>\<open>add_dirent\<close> makes room for one more entry, whatever was there before.\<close>

lemma dirent_room_enough:
  assumes "dir_room u dir" and "sizeof_dirent \<le> unat u" and "dir_small u dir"
  shows "\<exists>dir1. dirent_room junk u dir = Inr dir1 \<and> length (dirents dir1) = unat (d_size (dir_persist dir1)) \<and>
     (unat (d_dirent_count (dir_persist dir)) + 1) * unat u \<le> unat (d_size (dir_persist dir1)) \<and>
     d_dirent_count (dir_persist dir1) = d_dirent_count (dir_persist dir) \<and>
     d_blob dir1 = d_blob dir \<and> d_dirty dir1 = d_dirty dir \<and> d_initialized dir1 = d_initialized dir \<and>
     d_has_fs dir1 = d_has_fs dir \<and>
     (d_size (dir_persist dir) \<noteq> 0 \<longrightarrow> (\<exists>n. dirents dir1 = dirents dir @ fresh_mem junk n)) \<and>
     (d_size (dir_persist dir) = 0 \<longrightarrow> dirents dir1 = fresh_mem junk (unat u))"
proof (cases "d_size (dir_persist dir) = 0")
  case True
  then show ?thesis
    using room_first [OF assms(1,2) True] by (simp add: fresh_mem_def)
next
  case False
  let ?p = "dir_persist dir"
  define c where "c = unat (d_dirent_count ?p)"
  define sz where "sz = unat (d_size ?p)"
  have u: "0 < unat u" "u \<noteq> 0" using assms(2) by (auto simp: sizeof_dirent_def)
  have len: "length (dirents dir) = sz" and inv: "c * unat u \<le> sz"
    using assms(1) by (simp_all add: dir_room_def c_def sz_def)
  have small: "sz + unat u < 2 ^ 64" "c * sizeof_dirent < 2 ^ 64"
    using assms(3) by (simp_all add: dir_small_def c_def sz_def)
  have sum: "unat (d_size ?p + u) = sz + unat u"
    using unat_small_sum small(1) by (simp add: sz_def)
  show ?thesis
  proof (cases "d_size ?p div u \<le> d_dirent_count ?p * of_nat sizeof_dirent")
    case True
    have "dirent_room junk u dir = Inr (dir\<lparr>dirents := dirents dir @ fresh_mem junk (unat u),
        dir_persist := ?p\<lparr>d_size := d_size ?p + u\<rparr>\<rparr>)"
      using False True u len sum by (simp add: dirent_room_def Let_def fresh_mem_def)
    then show ?thesis
      using False len inv sum by (auto simp: fresh_mem_def c_def [symmetric])
  next
    case full: False
    have "c * sizeof_dirent < sz div unat u"
      using full small(2) by (simp add: word_le_nat_alt unat_count_bytes unat_div c_def sz_def not_le)
    then have "c + 1 \<le> sz div unat u" by (simp add: sizeof_dirent_def)
    then have "(c + 1) * unat u \<le> sz div unat u * unat u" by (rule mult_le_mono1)
    also have "\<dots> \<le> sz" by simp
    finally have "(c + 1) * unat u \<le> sz" .
    moreover have "dirent_room junk u dir = Inr dir"
      using False full u by (simp add: dirent_room_def Let_def)
    ultimately show ?thesis
      using False len by (auto simp: c_def sz_def fresh_mem_def intro!: exI [of _ 0])
  qed
qed

text \<open>The memory after the two stores of an entry at \<open>off\<close>.\<close>

lemma put_entry:
  assumes "off + sizeof_dirent \<le> length m" and "length nm \<le> SPDK_MAX_NAME_COUNT" and "length i = 8"
  shows "bind_res (put_bytes m (off + SPDK_MAX_NAME_COUNT) i) (\<lambda>mem1. put_bytes mem1 off nm) =
    Inr (take off m @ (nm @ drop (length nm) (take SPDK_MAX_NAME_COUNT (drop off m)) @ i) @ drop (off + sizeof_dirent) m)"
proof -
  let ?m1 = "take (off + SPDK_MAX_NAME_COUNT) m @ i @ drop (off + SPDK_MAX_NAME_COUNT + 8) m"
  have 1: "put_bytes m (off + SPDK_MAX_NAME_COUNT) i = Inr ?m1"
    using assms by (simp add: put_bytes_def sizeof_dirent_def SPDK_MAX_NAME_COUNT_def)
  have "put_bytes ?m1 off nm = Inr (take off ?m1 @ nm @ drop (off + length nm) ?m1)"
    using assms by (intro put_bytes_Inr) (simp add: sizeof_dirent_def SPDK_MAX_NAME_COUNT_def)
  moreover have "take off ?m1 = take off m"
    using assms by (simp add: sizeof_dirent_def SPDK_MAX_NAME_COUNT_def)
  moreover have "drop (off + length nm) ?m1 =
      drop (length nm) (take SPDK_MAX_NAME_COUNT (drop off m)) @ i @ drop (off + sizeof_dirent) m"
  proof -
    have "drop off (take (off + SPDK_MAX_NAME_COUNT) m) = take SPDK_MAX_NAME_COUNT (drop off m)"
      by (simp add: drop_take)
    then have "drop (off + length nm) (take (off + SPDK_MAX_NAME_COUNT) m) =
        drop (length nm) (take SPDK_MAX_NAME_COUNT (drop off m))"
      by (metis drop_drop add.commute)
    then show ?thesis
      using assms by (simp add: sizeof_dirent_def SPDK_MAX_NAME_COUNT_def add.commute)
  qed
  ultimately show ?thesis using 1 by simp
qed

text \<open>\<open>add_dirent\<close> in one statement. \<open>m\<close> is the memory of the directory once there is room.\<close>

lemma add_dirent_result:
  assumes "dir_room u dir" and "sizeof_dirent \<le> unat u" and "dir_small u dir"
    and c: "c = unat (d_dirent_count (dir_persist dir))" and nm: "nm = take SPDK_MAX_NAME_COUNT filename"
  shows "\<exists>m dir'. add_dirent junk u i filename dir = Inr dir' \<and>
     unat (d_dirent_count (dir_persist dir')) = Suc c \<and> dir_room u dir' \<and> d_dirty dir' \<and> d_blob dir' = d_blob dir \<and>
     entry (dirents dir') c = nm @ drop (length nm) (take SPDK_MAX_NAME_COUNT (drop (sizeof_dirent * c) m)) @ le_bytes i \<and>
     (\<forall>j<c. entry (dirents dir') j = entry m j) \<and> sizeof_dirent * Suc c \<le> length m \<and>
     drop (sizeof_dirent * Suc c) (dirents dir') = drop (sizeof_dirent * Suc c) m \<and>
     (\<forall>j<c. entry m j = entry (dirents dir) j) \<and>
     (if d_size (dir_persist dir) = 0 then m = fresh_mem junk (unat u) else \<exists>n. m = dirents dir @ fresh_mem junk n)"
proof -
  let ?dir = "dir\<lparr>d_dirty := True\<rparr>"
  have pre: "dir_room u ?dir" "dir_small u ?dir" using assms(1,3) by (simp_all add: dir_room_def dir_small_def)
  obtain dir1 where d1: "dirent_room junk u ?dir = Inr dir1" "length (dirents dir1) = unat (d_size (dir_persist dir1))"
      "(c + 1) * unat u \<le> unat (d_size (dir_persist dir1))"
      "d_dirent_count (dir_persist dir1) = d_dirent_count (dir_persist dir)"
      "d_blob dir1 = d_blob dir" "d_dirty dir1"
      "d_size (dir_persist dir) \<noteq> 0 \<longrightarrow> (\<exists>n. dirents dir1 = dirents dir @ fresh_mem junk n)"
      "d_size (dir_persist dir) = 0 \<longrightarrow> dirents dir1 = fresh_mem junk (unat u)"
    using dirent_room_enough [OF pre(1) assms(2) pre(2), of junk] c by auto
  define m where "m = dirents dir1"
  have "sizeof_dirent * Suc c \<le> (c + 1) * unat u" using mult_le_mono1 [OF assms(2), of "Suc c"] by (simp add: mult.commute)
  then have len: "sizeof_dirent * Suc c \<le> length m" using d1(2,3) by (simp add: m_def)
  have len': "sizeof_dirent * c + sizeof_dirent \<le> length m" using len by simp
  define ent where "ent = nm @ drop (length nm) (take SPDK_MAX_NAME_COUNT (drop (sizeof_dirent * c) m)) @ le_bytes i"
  define mem where "mem = take (sizeof_dirent * c) m @ ent @ drop (sizeof_dirent * c + sizeof_dirent) m"
  define dir' where "dir' = dir1\<lparr>dirents := mem,
    dir_persist := (dir_persist dir1)\<lparr>d_dirent_count := d_dirent_count (dir_persist dir1) + 1\<rparr>\<rparr>"
  have nml: "length nm \<le> SPDK_MAX_NAME_COUNT" by (simp add: nm)
  have entl: "length ent = sizeof_dirent"
    using len nml by (simp add: ent_def sizeof_dirent_def SPDK_MAX_NAME_COUNT_def)
  have "bind_res (put_bytes m (sizeof_dirent * c + SPDK_MAX_NAME_COUNT) (le_bytes i))
      (\<lambda>mem1. put_bytes mem1 (sizeof_dirent * c) nm) = Inr mem"
    using put_entry [OF len' nml, of "le_bytes i"] by (simp add: mem_def ent_def)
  then have add: "add_dirent junk u i filename dir = Inr dir'"
    using d1(1,4) c by (auto simp: add_dirent_def Let_def m_def nm dir'_def bind_res_Inr_iff)
  have cnt: "unat (d_dirent_count (dir_persist dir')) = Suc c"
    using assms(3) d1(4) c unat_small_sum [of "d_dirent_count (dir_persist dir)" 1]
    by (simp add: dir'_def dir_small_def sizeof_dirent_def)
  have ml: "length mem = length m" using len' entl by (simp add: mem_def)
  have ent: "entry mem c = ent" using len' entl by (simp add: mem_def entry_append)
  have below: "entry mem j = entry m j" if "j < c" for j
    using entry_below [of j "sizeof_dirent * c" m] that len' mult_le_mono2 [of "Suc j" c sizeof_dirent]
    by (simp add: mem_def)
  have above: "drop (sizeof_dirent * Suc c) mem = drop (sizeof_dirent * Suc c) m"
    using len' entl by (simp add: mem_def add.commute)
  have old: "entry m j = entry (dirents dir) j" if "j < c" for j
  proof (cases "d_size (dir_persist dir) = 0")
    case True
    have "0 < unat u" using assms(2) by (simp add: sizeof_dirent_def)
    then have "c = 0" using assms(1) True c by (auto simp: dir_room_def)
    then show ?thesis using that by simp
  next
    case False
    then obtain n where n: "m = dirents dir @ fresh_mem junk n" using d1(7) by (auto simp: m_def)
    have "sizeof_dirent * Suc j \<le> c * sizeof_dirent" using that by (simp add: mult.commute Suc_leI del: mult_Suc_right)
    also have "\<dots> \<le> c * unat u" by (rule mult_le_mono2 [OF assms(2)])
    also have "\<dots> \<le> length (dirents dir)" using assms(1) c by (simp add: dir_room_def)
    finally show ?thesis
      using entry_below [of j "length (dirents dir)" "dirents dir" "fresh_mem junk n"] by (simp add: n)
  qed
  have room: "dir_room u dir'"
    using d1(2,3,4) cnt ml by (simp add: dir_room_def dir'_def m_def)
  show ?thesis
    by (intro exI [of _ m] exI [of _ dir'])
      (use add cnt room ent below above old len d1(5-8) in \<open>simp add: dir'_def m_def [symmetric] ent_def\<close>)
qed

lemma entry_fits: "sizeof_dirent * Suc j \<le> length mem \<Longrightarrow> length (entry mem j) = sizeof_dirent"
  by (simp add: entry_def)

lemma dirent_id_entry:
  assumes "sizeof_dirent * Suc j \<le> length (dirents dir)"
  shows "dirent_id dir j = Inr (le_value (drop SPDK_MAX_NAME_COUNT (entry (dirents dir) j)))"
proof -
  have "take 8 (drop (sizeof_dirent * j + SPDK_MAX_NAME_COUNT) (dirents dir)) =
      drop SPDK_MAX_NAME_COUNT (entry (dirents dir) j)"
    by (simp add: entry_def sizeof_dirent_def SPDK_MAX_NAME_COUNT_def drop_take add.commute)
  then show ?thesis
    using assms by (simp add: dirent_id_def get_bytes_def sizeof_dirent_def SPDK_MAX_NAME_COUNT_def)
qed

lemma room_entries:
  assumes "dir_room u dir" and "sizeof_dirent \<le> unat u" and "j < unat (d_dirent_count (dir_persist dir))"
  shows "sizeof_dirent * Suc j \<le> length (dirents dir)"
proof -
  have "sizeof_dirent * Suc j \<le> unat (d_dirent_count (dir_persist dir)) * sizeof_dirent"
    using assms(3) by (simp add: mult.commute Suc_leI del: mult_Suc_right)
  also have "\<dots> \<le> unat (d_dirent_count (dir_persist dir)) * unat u" by (rule mult_le_mono2 [OF assms(2)])
  also have "\<dots> \<le> length (dirents dir)" using assms(1) by (simp add: dir_room_def)
  finally show ?thesis .
qed

text \<open>All memory behind the last entry is zero.\<close>

definition zero_tail :: "spdkfs_dir \<Rightarrow> bool" where
  "zero_tail dir \<longleftrightarrow>
     (\<forall>b \<in> set (drop (sizeof_dirent * unat (d_dirent_count (dir_persist dir))) (dirents dir)). b = 0)"

definition name_ok :: "u8 list \<Rightarrow> bool" where
  "name_ok nm \<longleftrightarrow> 0 \<notin> set nm \<and> length nm < SPDK_MAX_NAME_COUNT"

lemma takeWhile_nonzero_zeros:
  assumes "0 \<notin> set xs" and "\<forall>b \<in> set ys. b = (0 :: u8)" and "ys \<noteq> []"
  shows "takeWhile (\<lambda>c. c \<noteq> 0) (xs @ ys @ zs) = xs"
proof -
  obtain ys' where "ys = 0 # ys'" using assms(2,3) by (cases ys) auto
  then show ?thesis using assms(1) by (auto simp: takeWhile_append)
qed

lemma add_dirent_zero_memory:
  assumes "dir_room u dir" and "sizeof_dirent \<le> unat u" and "dir_small u dir" and "zero_tail dir"
    and "named_entries (dirents dir) (unat (d_dirent_count (dir_persist dir)))" and "name_ok filename"
    and c: "c = unat (d_dirent_count (dir_persist dir))"
  shows "\<exists>dir'. add_dirent (\<lambda>_. 0) u i filename dir = Inr dir' \<and> dir_names dir' = dir_names dir @ [filename] \<and>
     dirent_id dir' c = Inr i \<and> (\<forall>j<c. dirent_id dir' j = dirent_id dir j) \<and>
     dir_room u dir' \<and> zero_tail dir' \<and> named_entries (dirents dir') (Suc c) \<and> d_dirty dir' \<and>
     unat (d_dirent_count (dir_persist dir')) = Suc c"
proof -
  have nmt: "take SPDK_MAX_NAME_COUNT filename = filename" and z: "0 \<notin> set filename"
    using assms(6) by (simp_all add: name_ok_def)
  obtain m dir' where r: "add_dirent (\<lambda>_. 0) u i filename dir = Inr dir'"
      "unat (d_dirent_count (dir_persist dir')) = Suc c" "dir_room u dir'" "d_dirty dir'"
      "entry (dirents dir') c = filename @ drop (length filename) (take SPDK_MAX_NAME_COUNT (drop (sizeof_dirent * c) m)) @ le_bytes i"
      "\<forall>j<c. entry (dirents dir') j = entry m j" "sizeof_dirent * Suc c \<le> length m"
      "drop (sizeof_dirent * Suc c) (dirents dir') = drop (sizeof_dirent * Suc c) m"
      "\<forall>j<c. entry m j = entry (dirents dir) j"
      "if d_size (dir_persist dir) = 0 then m = fresh_mem (\<lambda>_. 0) (unat u) else \<exists>n. m = dirents dir @ fresh_mem (\<lambda>_. 0) n"
    using add_dirent_result [OF assms(1-3) c refl, of "\<lambda>_. 0" i filename] unfolding nmt by blast
  have zm: "\<forall>b \<in> set (drop (sizeof_dirent * c) m). b = 0"
    using r(10) assms(4) c by (auto simp: fresh_mem_def zero_tail_def map_replicate_const split: if_splits)
  define tl where "tl = drop (length filename) (take SPDK_MAX_NAME_COUNT (drop (sizeof_dirent * c) m))"
  have tl: "\<forall>b \<in> set tl. b = 0"
    using zm set_drop_subset set_take_subset unfolding tl_def by (meson in_mono)
  have "length tl = SPDK_MAX_NAME_COUNT - length filename"
    using r(7) by (simp add: tl_def sizeof_dirent_def SPDK_MAX_NAME_COUNT_def)
  then have tl_ne: "tl \<noteq> []" and full: "length (filename @ tl) = SPDK_MAX_NAME_COUNT"
    using assms(6) by (auto simp: name_ok_def)
  have ent: "entry (dirents dir') c = filename @ tl @ le_bytes i" using r(5) by (simp add: tl_def)
  have old: "entry (dirents dir') j = entry (dirents dir) j" if "j < c" for j using r(6,9) that by simp
  have "0 \<in> set tl" using tl tl_ne by (metis hd_in_set)
  then have zc: "0 \<in> set (take SPDK_MAX_NAME_COUNT (entry (dirents dir') c))"
    using full ent by (simp add: name_ok_def)
  have named: "named_entries (dirents dir') (Suc c)"
    using assms(5) zc old by (auto simp: named_entries_iff c less_Suc_eq)
  have nc: "name_in (entry (dirents dir') c) = filename"
    using takeWhile_nonzero_zeros [OF z tl tl_ne] ent by (simp add: name_in_def)
  have names: "dir_names dir' = dir_names dir @ [filename]"
    using dir_names_entries [of dir'] dir_names_entries [of dir] named assms(5) r(2) nc old by (simp add: c)
  have len': "sizeof_dirent * Suc j \<le> length (dirents dir')" if "j \<le> c" for j
    using room_entries [OF r(3) assms(2), of j] r(2) that by simp
  have "dirent_id dir' c = Inr i"
    using dirent_id_entry [OF len', of c] ent full by (simp add: le_value_bytes)
  moreover have "dirent_id dir' j = dirent_id dir j" if "j < c" for j
    using dirent_id_entry [OF len', of j] dirent_id_entry [OF room_entries [OF assms(1,2)], of j] old that c by simp
  moreover have "zero_tail dir'"
  proof -
    have "drop (sizeof_dirent * Suc c) m = drop sizeof_dirent (drop (sizeof_dirent * c) m)" by simp
    then show ?thesis using zm r(8) r(2) in_set_dropD unfolding zero_tail_def by metis
  qed
  ultimately show ?thesis using r(1-4) names named by blast
qed

section \<open>Removing an entry\<close>

lemma shift_dirents_result:
  assumes "i \<le> n" and "sizeof_dirent * Suc n \<le> length mem"
  shows "\<exists>mem'. shift_dirents i n mem = Inr mem' \<and> length mem' = length mem \<and>
     (\<forall>j. entry mem' j = (if i \<le> j \<and> j < n then entry mem (Suc j) else entry mem j))"
  using assms
proof (induction "n - i" arbitrary: i mem)
  case 0
  then show ?case by (intro exI [of _ mem], subst shift_dirents.simps) auto
next
  case (Suc k)
  then have i: "i < n" "k = n - Suc i" "Suc i \<le> n" by simp_all
  have fit: "sizeof_dirent * Suc (Suc i) \<le> length mem"
    using Suc.prems(2) i(1) mult_le_mono2 [of "Suc (Suc i)" "Suc n" sizeof_dirent] by simp
  define bs where "bs = entry mem (Suc i)"
  have bs: "get_bytes mem (sizeof_dirent * Suc i) sizeof_dirent = Inr bs" "length bs = sizeof_dirent"
    using fit by (simp_all add: get_bytes_def bs_def entry_def)
  define mem1 where "mem1 = take (sizeof_dirent * i) mem @ bs @ drop (sizeof_dirent * Suc i) mem"
  have p: "put_bytes mem (sizeof_dirent * i) bs = Inr mem1"
    using fit bs(2) by (simp add: put_bytes_def mem1_def add.commute)
  have len: "length mem1 = length mem" using fit bs(2) by (simp add: mem1_def)
  have e1: "entry mem1 j = (if j = i then entry mem (Suc i) else entry mem j)" for j
  proof -
    consider "j < i" | "j = i" | "i < j" by linarith
    then show ?thesis
    proof cases
      case 1
      then have "sizeof_dirent * Suc j \<le> sizeof_dirent * i" by (intro mult_le_mono2) simp
      then show ?thesis using 1 fit entry_below [of j "sizeof_dirent * i" mem] by (simp add: mem1_def)
    next
      case 2
      then show ?thesis using fit bs(2) by (simp add: mem1_def entry_append bs_def)
    next
      case 3
      have "length (take (sizeof_dirent * i) mem @ bs) = sizeof_dirent * Suc i" using fit bs(2) by simp
      from entry_above [OF this 3] show ?thesis using 3 by (simp add: mem1_def)
    qed
  qed
  obtain mem' where "shift_dirents (Suc i) n mem1 = Inr mem'" "length mem' = length mem1"
      "\<forall>j. entry mem' j = (if Suc i \<le> j \<and> j < n then entry mem1 (Suc j) else entry mem1 j)"
    using Suc.hyps(1) [OF i(2,3), of mem1] Suc.prems(2) len by auto
  moreover have "shift_dirents i n mem = shift_dirents (Suc i) n mem1"
    using i(1) bs(1) p by (subst shift_dirents.simps) simp
  ultimately show ?case
    using len e1 i(1) by (intro exI [of _ mem']) auto
qed

section \<open>Properties\<close>

definition empty_dir :: spdkfs_dir where
  "empty_dir = \<lparr>d_has_fs = True, d_blob = 1, d_initialized = True,
     dir_persist = \<lparr>d_mode = 0, d_atime = 0, d_mtime = 0, d_ctime = 0, d_dirent_count = 0, d_size = 0, d_blob_id = 1\<rparr>,
     dirents = [], d_dirty = False\<rparr>"

lemma empty_dir [simp]: "dir_room u empty_dir" "dir_small 4096 empty_dir" "zero_tail empty_dir"
  "named_entries mem 0"
  "d_dirent_count (dir_persist empty_dir) = 0" "d_size (dir_persist empty_dir) = 0" "dir_names empty_dir = []"
  by (simp_all add: empty_dir_def dir_room_def dir_small_def zero_tail_def named_entries_def dir_names_def
      sizeof_dirent_def)

text \<open>C14. With an io unit of at least 520 bytes and memory that the allocator hands out zeroed,
  \<open>add_dirent\<close> stays inside the entry array and appends exactly one entry with the given name
  and id: the earlier names and ids are unchanged, the directory is marked dirty, and the room,
  the zeroed tail and the termination of the names are kept for the next addition.\<close>

theorem add_dirent_correct:
  assumes "dir_room u dir" and "sizeof_dirent \<le> unat u" and "dir_small u dir" and "zero_tail dir"
    and "named_entries (dirents dir) (unat (d_dirent_count (dir_persist dir)))" and "name_ok filename"
    and "c = unat (d_dirent_count (dir_persist dir))"
  shows "\<exists>dir'. add_dirent (\<lambda>_. 0) u i filename dir = Inr dir' \<and> dir_names dir' = dir_names dir @ [filename] \<and>
     dirent_id dir' c = Inr i \<and> (\<forall>j<c. dirent_id dir' j = dirent_id dir j) \<and>
     dir_room u dir' \<and> zero_tail dir' \<and> named_entries (dirents dir') (Suc c) \<and> d_dirty dir' \<and>
     unat (d_dirent_count (dir_persist dir')) = Suc c"
  using assms by (rule add_dirent_zero_memory)

theorem add_dirent_correct_witness:
  "\<exists>dir'. add_dirent (\<lambda>_. 0) 4096 77 [97, 98] empty_dir = Inr dir' \<and> dir_names dir' = [[97, 98]] \<and>
     dirent_id dir' 0 = Inr 77"
  using add_dirent_correct [of 4096 empty_dir "[97, 98]" 0 77]
  by (auto simp: sizeof_dirent_def name_ok_def SPDK_MAX_NAME_COUNT_def)

text \<open>C38. With the usual io unit of 512 bytes, less than an entry, the very first entry of a
  directory is written past the end of the array: its id lies behind the 512 bytes allocated.\<close>

theorem add_dirent_overflows:
  assumes "d_size (dir_persist dir) = 0" and "d_dirent_count (dir_persist dir) = 0"
    and "u \<noteq> 0" and "unat u < sizeof_dirent"
  shows "add_dirent junk u i filename dir = Inl Out_of_bounds"
proof -
  have "0 < unat u" using assms(3) by (simp add: unat_gt_0)
  then have "u div u = 1" by (simp add: word_unat_eq_iff unat_div)
  then have "dirent_room junk u (dir\<lparr>d_dirty := True\<rparr>) = Inr (dir\<lparr>d_dirty := True, dirents := fresh_mem junk (unat u),
      dir_persist := (dir_persist dir)\<lparr>d_size := u\<rparr>\<rparr>)"
    using assms(1-3) by (simp add: dirent_room_def Let_def)
  then show ?thesis
    using assms(2,4) by (simp add: add_dirent_def Let_def put_bytes_def fresh_mem_def sizeof_dirent_def SPDK_MAX_NAME_COUNT_def)
qed

theorem add_dirent_overflows_witness:
  "add_dirent (\<lambda>_. 0) 512 77 [97, 98] empty_dir = Inl Out_of_bounds"
  using add_dirent_overflows [of empty_dir 512 "\<lambda>_. 0" 77 "[97, 98]"] by (simp add: sizeof_dirent_def)

text \<open>A name is stored without a terminator. If the fresh memory has a non-zero byte behind it,
  looking up the name just added to an empty directory does not find it.\<close>

theorem add_dirent_unterminated:
  assumes "dir_room u dir" and "sizeof_dirent \<le> unat u" and "dir_small u dir"
    and "d_size (dir_persist dir) = 0" and "name_ok filename" and "junk (length filename) \<noteq> 0"
  shows "\<exists>dir'. add_dirent junk u i filename dir = Inr dir' \<and> spdkfs_dir_lookup dir' filename = Inr (- 1)"
proof -
  have nmt: "take SPDK_MAX_NAME_COUNT filename = filename" and len: "length filename < 512"
    using assms(5) by (simp_all add: name_ok_def SPDK_MAX_NAME_COUNT_def)
  have c0: "unat (d_dirent_count (dir_persist dir)) = 0"
    using room_first(2) [OF assms(1,2,4)] by simp
  obtain dir' where r: "add_dirent junk u i filename dir = Inr dir'" "unat (d_dirent_count (dir_persist dir')) = 1"
      "entry (dirents dir') 0 = filename @ drop (length filename) (take 512 (fresh_mem junk (unat u))) @ le_bytes i"
    using add_dirent_result [OF assms(1-3) refl refl, of junk i filename] assms(4)
    unfolding nmt c0 by (auto simp: SPDK_MAX_NAME_COUNT_def)
  have "drop (length filename) (take 512 (fresh_mem junk (unat u))) =
      junk (length filename) # drop (Suc (length filename)) (take 512 (fresh_mem junk (unat u)))"
    using len assms(2) by (subst Cons_nth_drop_Suc [symmetric]) (auto simp: fresh_mem_def sizeof_dirent_def)
  moreover have "dirents dir' = entry (dirents dir') 0 @ drop sizeof_dirent (dirents dir')"
    by (simp add: entry_def)
  ultimately obtain rest where mem: "dirents dir' = filename @ junk (length filename) # rest"
    using r(3) by auto
  have "strcmp_eq (filename @ x # rest) filename = Inr (x = 0)" for x
    by (induction filename) auto
  then have "strcmp_eq (dirents dir') filename = Inr False"
    using mem assms(6) by simp
  then have "spdkfs_dir_lookup dir' filename = Inr (- 1)"
    using r(2) by (simp add: spdkfs_dir_lookup_def lookup_dirents.simps [of _ _ _ 0] lookup_dirents.simps [of _ _ _ "Suc 0"])
  with r(1) show ?thesis by blast
qed

theorem add_dirent_unterminated_witness:
  "\<exists>dir'. add_dirent (\<lambda>_. 255) 4096 77 [97, 98] empty_dir = Inr dir' \<and> spdkfs_dir_lookup dir' [97, 98] = Inr (- 1)"
  by (rule add_dirent_unterminated) (simp_all add: sizeof_dirent_def name_ok_def SPDK_MAX_NAME_COUNT_def)

text \<open>An entry that reuses the place of a removed one keeps the end of the old name: a name
  shorter than the one the memory still holds is extended by the rest of it.\<close>

theorem add_dirent_stale:
  assumes "dir_room u dir" and "sizeof_dirent \<le> unat u" and "dir_small u dir"
    and "c = unat (d_dirent_count (dir_persist dir))" and "sizeof_dirent * Suc c \<le> length (dirents dir)"
    and "0 \<in> set (take SPDK_MAX_NAME_COUNT (entry (dirents dir) c))" and "old = name_in (entry (dirents dir) c)"
    and "name_ok filename" and "length filename < length old"
  shows "\<exists>dir'. add_dirent junk u i filename dir = Inr dir' \<and>
     entry_name (dirents dir') c = filename @ drop (length filename) old"
proof -
  have nmt: "take SPDK_MAX_NAME_COUNT filename = filename" and z: "0 \<notin> set filename"
    using assms(8) by (simp_all add: name_ok_def)
  have "dirents dir \<noteq> []" using assms(5) by (auto simp: sizeof_dirent_def)
  then have "d_size (dir_persist dir) \<noteq> 0" using assms(1) by (auto simp: dir_room_def)
  then obtain n m dir' where r: "add_dirent junk u i filename dir = Inr dir'"
      "entry (dirents dir') c = filename @ drop (length filename) (take SPDK_MAX_NAME_COUNT (drop (sizeof_dirent * c) m)) @ le_bytes i"
      "m = dirents dir @ fresh_mem junk n"
    using add_dirent_result [OF assms(1-4) refl, of junk i filename] unfolding nmt by auto
  define w where "w = take SPDK_MAX_NAME_COUNT (entry (dirents dir) c)"
  have "take SPDK_MAX_NAME_COUNT (drop (sizeof_dirent * c) m) = w"
    using assms(5) by (simp add: w_def entry_def r(3) sizeof_dirent_def SPDK_MAX_NAME_COUNT_def)
  then have ent: "entry (dirents dir') c = filename @ drop (length filename) w @ le_bytes i" using r(2) by simp
  have e: "w @ drop SPDK_MAX_NAME_COUNT (entry (dirents dir) c) = entry (dirents dir) c" by (simp add: w_def)
  have "takeWhile (\<lambda>c. c \<noteq> 0) (w @ drop SPDK_MAX_NAME_COUNT (entry (dirents dir) c)) = takeWhile (\<lambda>c. c \<noteq> 0) w"
    by (rule takeWhile_append1 [of 0]) (use assms(6) in \<open>simp_all add: w_def\<close>)
  then have old: "old = takeWhile (\<lambda>c. c \<noteq> 0) w"
    using assms(7) by (simp add: name_in_def e)
  obtain ys zs where ys: "w = ys @ 0 # zs" "0 \<notin> set ys"
    using assms(6) by (auto simp: w_def [symmetric] dest: split_list_first)
  have oy: "old = ys" using old ys by (auto simp: takeWhile_append)
  have dw: "drop (length filename) w = drop (length filename) old @ 0 # zs"
    using ys(1) oy assms(9) by simp
  have nz: "0 \<notin> set (filename @ drop (length filename) old)"
    using z ys(2) oy by (auto dest: in_set_dropD)
  have "length w \<le> SPDK_MAX_NAME_COUNT" by (simp add: w_def)
  then have "0 \<in> set (take SPDK_MAX_NAME_COUNT (entry (dirents dir') c))"
    using ent dw ys(1) oy assms(9) by (auto simp: take_Cons')
  then have "entry_name (dirents dir') c = name_in (entry (dirents dir') c)" by (rule entry_name_in)
  also have "\<dots> = filename @ drop (length filename) old"
    using ent dw takeWhile_nonzero_zeros [OF nz, of "[0]" "zs @ le_bytes i"] by (simp add: name_in_def)
  finally show ?thesis using r(1) by blast
qed

theorem add_dirent_stale_witness:
  "\<exists>dir'. add_dirent (\<lambda>_. 0) 4096 77 [120]
       (empty_dir\<lparr>dirents := [97, 98, 99, 0] @ replicate 4092 0,
                  dir_persist := (dir_persist empty_dir)\<lparr>d_size := 4096\<rparr>\<rparr>) = Inr dir' \<and>
     entry_name (dirents dir') 0 = [120, 98, 99]"
  using add_dirent_stale [of 4096 "empty_dir\<lparr>dirents := [97, 98, 99, 0] @ replicate 4092 0,
                  dir_persist := (dir_persist empty_dir)\<lparr>d_size := 4096\<rparr>\<rparr>" 0 "[97, 98, 99]" "[120]" "\<lambda>_. 0" 77]
  by (simp add: empty_dir_def dir_room_def dir_small_def entry_def name_in_def name_ok_def sizeof_dirent_def
      SPDK_MAX_NAME_COUNT_def)

text \<open>The removal of an entry, with the directory it leaves.\<close>

lemma unlink_entry:
  assumes "idle (g_thread g)" and "g_workdir_set g" and "\<not> stack_done e"
    and "find_dir e file (g_root g) = int k" and "n = unat (d_dirent_count (dir_persist (g_root g)))" and "k < n"
    and "sizeof_dirent * n \<le> length (dirents (g_root g))" and "dirent_id (g_root g) k = Inr i"
    and "lib_completes L p (submit L (Bs_delete_blob i) (lib (g_thread g))) c b" and "p < POLLER_MAX_TIME"
  shows "\<exists>g' mem. monopoly_unlink L e file g = Inr (junk_result e, g') \<and> settled b (g_thread g') \<and>
     g_root g' = (g_root g)\<lparr>dirents := mem, dir_persist := (dir_persist (g_root g))
       \<lparr>d_dirent_count := d_dirent_count (dir_persist (g_root g)) - 1\<rparr>\<rparr> \<and>
     unat (d_dirent_count (dir_persist (g_root g)) - 1) = n - 1 \<and> length mem = length (dirents (g_root g)) \<and>
     g' = g\<lparr>g_thread := g_thread g', g_root := g_root g'\<rparr> \<and>
     (\<forall>j. entry mem j = (if k \<le> j \<and> j < n - 1 then entry (dirents (g_root g)) (Suc j) else entry (dirents (g_root g)) j))"
proof -
  obtain th where u: "blob_unlink L False i (g_thread g) = Inr (bserrno c = 0, th)" "settled b th"
    using blob_close_unlink_correct_aux [OF assms(1) assms(9,10), of i "blob_unlink L False i"] by auto
  have "d_dirent_count (dir_persist (g_root g)) \<noteq> 0" using assms(5,6) by auto
  then have cnt: "unat (d_dirent_count (dir_persist (g_root g)) - 1) = n - 1"
    using assms(5) by (simp add: unat_minus_one)
  have "sizeof_dirent * Suc (n - 1) \<le> length (dirents (g_root g))" using assms(6,7) by simp
  moreover have "k \<le> n - 1" using assms(6) by simp
  ultimately obtain mem where m: "shift_dirents k (n - 1) (dirents (g_root g)) = Inr mem"
      "length mem = length (dirents (g_root g))"
      "\<forall>j. entry mem j = (if k \<le> j \<and> j < n - 1 then entry (dirents (g_root g)) (Suc j) else entry (dirents (g_root g)) j)"
    using shift_dirents_result [of k "n - 1" "dirents (g_root g)"] assms(6) by auto
  let ?g = "g\<lparr>g_thread := th, g_root := (g_root g)\<lparr>dirents := mem, dir_persist := (dir_persist (g_root g))
    \<lparr>d_dirent_count := d_dirent_count (dir_persist (g_root g)) - 1\<rparr>\<rparr>\<rparr>"
  have "monopoly_unlink L e file g = Inr (junk_result e, ?g)"
    using assms(2,3,4,8) u(1) m(1) cnt by (simp add: monopoly_unlink_def Let_def workdir_def)
  then show ?thesis using u(2) cnt m(2,3) by (intro exI [of _ ?g] exI [of _ mem]) simp
qed


definition example_globals :: "mem_bs \<Rightarrow> spdkfs_dir \<Rightarrow> mem_bs globals" where
  "example_globals b dir = \<lparr>g_thread = idle_thread b, g_fdtable = fdtable_zero, g_root = dir, g_workdir_set = True,
     g_mm = mm_start, g_buffer = replicate 4096 0\<rparr>"

definition example_env :: env where
  "example_env = \<lparr>stack_done = False, junk_blob = 77, junk_file = example_persist, junk_dir = dir_persist empty_dir,
     junk_mem = (\<lambda>_. 0), time_now = 99, junk_result = 5, find_dir = (\<lambda>nm dir. 0)\<rparr>"

lemma example_dirent_id: "dirent_id example_dir 0 = Inr 1"
  by (simp add: dirent_id_def get_bytes_def example_dir_def example_dirents_def sizeof_dirent_def
      SPDK_MAX_NAME_COUNT_def)

lemma example_globals_simps [simp]:
  "g_thread (example_globals b dir) = idle_thread b" "g_root (example_globals b dir) = dir"
  "g_workdir_set (example_globals b dir)" "\<not> stack_done example_env" "junk_result example_env = 5"
  "find_dir example_env nm dir = 0"
  by (simp_all add: example_globals_def example_env_def)

lemma example_dir_simps [simp]:
  "d_dirent_count (dir_persist example_dir) = 2" "length (dirents example_dir) = 1040"
  by (simp_all add: example_dir_def example_dirents_def)


end
