(* ===== verification/Transfer_Props.thy ===== *)
theory Transfer_Props
  imports Dirent_Props
begin

text \<open>
  Reading, writing, seeking, opening and closing through a descriptor. The chunked transfer
  that \<open>monopoly_read\<close> and \<open>monopoly_write\<close> share is a locale: its client is the loop, its
  providers are the bodies built on \<open>simple_fs_read\<close> and \<open>simple_fs_write\<close>.
\<close>

section \<open>The chunk loop\<close>

lemma c_int_0: "c_int 0 = 0"
  by (simp add: c_int_def)

text \<open>Each chunk is transferred as a whole or not at all, and the position moves by what was.\<close>

locale chunk_body =
  fixes body :: "u64 \<Rightarrow> u64 \<Rightarrow> 's \<Rightarrow> (u64 \<times> 's) res" and pos :: "'s \<Rightarrow> u64"
  assumes all_or_nothing: "body n off s = Inr (r, s') \<Longrightarrow> r = n \<or> r = 0"
    and moves: "body n off s = Inr (r, s') \<Longrightarrow> pos s' = pos s + r"
begin

text \<open>What the loop has transferred after \<open>k\<close> full chunks of \<open>b\<close> bytes out of \<open>m\<close>.\<close>

definition after_chunks :: "nat \<Rightarrow> nat \<Rightarrow> nat \<Rightarrow> nat" where
  "after_chunks m b k = min m (k * b)"

lemma chunk_size:
  assumes "amount \<noteq> 0" and "bufsz \<noteq> 0" and "unat bufsz < 2 ^ 31" and "i < unat (upper_div amount bufsz)"
  shows "c_int (min bufsz (amount - of_nat i * bufsz)) = min bufsz (amount - of_nat i * bufsz)"
    and "unat (min bufsz (amount - of_nat i * bufsz)) = min (unat bufsz) (unat amount - i * unat bufsz)"
    and "i * unat bufsz < unat amount"
proof -
  let ?b = "unat bufsz" and ?m = "unat amount"
  have pos: "0 < ?b" "0 < ?m" using assms(1,2) by (simp_all add: unat_gt_0)
  have "(unat (upper_div amount bufsz) - 1) * ?b < ?m" by (rule upper_div_covers(2) [OF pos(2,1)])
  moreover have "i * ?b \<le> (unat (upper_div amount bufsz) - 1) * ?b" using assms(4) by (intro mult_le_mono1) simp
  ultimately show lt: "i * ?b < ?m" by linarith
  have m64: "?m < 2 ^ 64" using unsigned_less [of amount] by simp
  have "i \<le> i * ?b" using pos(1) by simp
  then have i64: "i < 2 ^ 64" using lt m64 by linarith
  have ib: "unat (of_nat i * bufsz) = i * ?b"
    using lt m64 i64 by (simp add: unat_word_ariths unsigned_of_nat take_bit_nat_eq_self flip: take_bit_eq_mod)
  then have "of_nat i * bufsz \<le> amount" using lt by (simp add: word_le_nat_alt)
  then have diff: "unat (amount - of_nat i * bufsz) = ?m - i * ?b"
    using ib by (simp add: unat_sub)
  have "min bufsz (amount - of_nat i * bufsz) = (if bufsz \<le> amount - of_nat i * bufsz then bufsz else amount - of_nat i * bufsz)"
    by (simp add: min_def)
  then show u: "unat (min bufsz (amount - of_nat i * bufsz)) = min ?b (?m - i * ?b)"
    using diff by (simp add: word_le_nat_alt min_def)
  show "c_int (min bufsz (amount - of_nat i * bufsz)) = min bufsz (amount - of_nat i * bufsz)"
    using assms(3) u by (intro c_int_small) simp
qed

lemma loop_result:
  assumes "amount \<noteq> 0" and "bufsz \<noteq> 0" and "unat bufsz < 2 ^ 31"
    and "i \<le> unat (upper_div amount bufsz)" and "unat acc = after_chunks (unat amount) (unat bufsz) i"
    and "chunk_loop body bufsz amount i acc s = Inr (r, s')"
  shows "\<exists>k. i \<le> k \<and> k \<le> unat (upper_div amount bufsz) \<and> unat r = after_chunks (unat amount) (unat bufsz) k \<and>
     pos s' = pos s + (r - acc) \<and> (k = i \<longrightarrow> r = acc) \<and>
     (k < unat (upper_div amount bufsz) \<longrightarrow> (\<exists>n t. body n (of_nat k * bufsz) t = Inr (0, s')))"
  using assms(4-)
proof (induction "unat (upper_div amount bufsz) - i" arbitrary: i acc s)
  case 0
  then show ?case by (auto simp: chunk_loop.simps [of _ _ _ i])
next
  case (Suc d)
  let ?b = "unat bufsz" and ?m = "unat amount" and ?N = "unat (upper_div amount bufsz)"
  define n where "n = min bufsz (amount - of_nat i * bufsz)"
  have i: "i < ?N" "d = ?N - Suc i" "Suc i \<le> ?N" using Suc.hyps(2) by simp_all
  note cs = chunk_size [OF assms(1-3) i(1), folded n_def]
  obtain q t where q: "body n (of_nat i * bufsz) s = Inr (q, t)"
      "(if c_int q \<noteq> 0 then chunk_loop body bufsz amount (Suc i) (acc + c_int q) t else Inr (acc, t)) = Inr (r, s')"
    using Suc.prems(3) i(1) cs(1) by (auto simp: chunk_loop.simps [of _ _ _ i] Let_def n_def bind_res_Inr_iff)
  have q0: "q = n \<or> q = 0" and tp: "pos t = pos s + q"
    using all_or_nothing [OF q(1)] moves [OF q(1)] by auto
  have cq: "c_int q = q" using q0 cs(1) by (auto simp: c_int_0)
  show ?case
  proof (cases "q = 0")
    case True
    then show ?thesis using q i(1) tp Suc.prems(2) by (intro exI [of _ i]) (auto simp: c_int_0)
  next
    case False
    then have qn: "q = n" using q0 by simp
    have accn: "unat acc = i * ?b" using Suc.prems(2) cs(3) by (simp add: after_chunks_def)
    have m64: "?m < 2 ^ 64" using unsigned_less [of amount] by simp
    have un: "unat n = min ?b (?m - i * ?b)" by (rule cs(2))
    have sum: "i * ?b + unat n = after_chunks ?m ?b (Suc i)"
      using cs(3) by (simp add: un after_chunks_def min_def) linarith
    have "unat acc + unat n < 2 ^ 64" using un cs(3) m64 accn by (simp add: min_def) linarith
    then have acc': "unat (acc + n) = after_chunks ?m ?b (Suc i)"
      using sum accn unat_small_sum by simp
    have "chunk_loop body bufsz amount (Suc i) (acc + n) t = Inr (r, s')"
      using q(2) False qn cq by simp
    from Suc.hyps(1) [OF i(2,3) acc' this] obtain k where
      k: "Suc i \<le> k" "k \<le> ?N" "unat r = after_chunks ?m ?b k" "pos s' = pos t + (r - (acc + n))"
        "k < ?N \<longrightarrow> (\<exists>n t. body n (of_nat k * bufsz) t = Inr (0, s'))" by blast
    then show ?thesis using tp qn by (intro exI [of _ k]) auto
  qed
qed

text \<open>A whole transfer: what is returned is a number of full chunks or everything, the position
  moves by exactly that, and it is everything unless some chunk transferred nothing.\<close>

lemma transfer:
  assumes "amount \<noteq> 0" and "bufsz \<noteq> 0" and "unat bufsz < 2 ^ 31"
    and "chunk_loop body bufsz amount 0 0 s = Inr (r, s')"
  shows "r \<le> amount" and "pos s' = pos s + r" and "r \<noteq> amount \<Longrightarrow> unat r mod unat bufsz = 0"
    and "r \<noteq> amount \<Longrightarrow> \<exists>n off t. body n off t = Inr (0, s')"
proof -
  let ?N = "unat (upper_div amount bufsz)"
  obtain k where k: "k \<le> ?N" "unat r = min (unat amount) (k * unat bufsz)" "pos s' = pos s + r"
      "k < ?N \<longrightarrow> (\<exists>n t. body n (of_nat k * bufsz) t = Inr (0, s'))"
    using loop_result [OF assms(1-3) _ _ assms(4)] by (auto simp: after_chunks_def)
  show "r \<le> amount" using k(2) by (simp add: word_le_nat_alt)
  show "pos s' = pos s + r" by (rule k(3))
  show "unat r mod unat bufsz = 0" if "r \<noteq> amount"
    using that k(2) by (auto simp: min_def word_unat_eq_iff split: if_splits)
  have "unat amount \<le> ?N * unat bufsz"
    using assms(1,2) by (intro upper_div_covers(1)) (simp_all add: unat_gt_0)
  then show "\<exists>n off t. body n off t = Inr (0, s')" if "r \<noteq> amount"
    using that k(1,2,4) by (cases "k = ?N") (auto simp: word_unat_eq_iff)
qed

end

section \<open>The bodies of read and write\<close>

lemma read_result:
  assumes "simple_fs_read L f sz buf th = Inr (r, f', buf', th')"
  shows "r = sz \<or> r = 0" and "f_pos f' = f_pos f + r" and "f_blob f' = f_blob f"
  using assms unfolding simple_fs_read_def
  by (auto simp: bind_res_Inr_iff split: if_splits)

lemma read_chunk_read:
  assumes "read_chunk L n off s = Inr (r, s')"
  shows "\<exists>buf th. simple_fs_read L (t_file s) n (t_buffer s) (t_thread s) = Inr (r, t_file s', buf, th)"
  using assms unfolding read_chunk_def by (auto simp: bind_res_Inr_iff Let_def split: if_splits)

lemma write_chunk_write:
  assumes "write_chunk L n off s = Inr (r, s')"
  shows "\<exists>buf0 buf th. simple_fs_write L (t_file s) n buf0 (t_thread s) = Inr (r, t_file s', buf, th)"
  using assms unfolding write_chunk_def by (auto simp: bind_res_Inr_iff Let_def split: if_splits) blast+

lemma read_chunk_result:
  assumes "read_chunk L n off s = Inr (r, s')"
  shows "r = n \<or> r = 0" and "f_pos (t_file s') = f_pos (t_file s) + r"
  using read_chunk_read [OF assms] read_result by blast+

lemma write_chunk_result:
  assumes "write_chunk L n off s = Inr (r, s')"
  shows "r = n \<or> r = 0" and "f_pos (t_file s') = f_pos (t_file s) + r"
proof -
  obtain buf0 buf th where w: "simple_fs_write L (t_file s) n buf0 (t_thread s) = Inr (r, t_file s', buf, th)"
    using write_chunk_write [OF assms] by blast
  show "r = n \<or> r = 0" and "f_pos (t_file s') = f_pos (t_file s) + r"
    using write_result(4) [OF w] by auto
qed

interpretation read_loop: chunk_body "read_chunk L" "\<lambda>s. f_pos (t_file s)" for L
  by unfold_locales (rule read_chunk_result, assumption)+

interpretation write_loop: chunk_body "write_chunk L" "\<lambda>s. f_pos (t_file s)" for L
  by unfold_locales (rule write_chunk_result, assumption)+

section \<open>Descriptors\<close>

lemma file_of_set_open [simp]:
  "file_of_fd g fd = Inr f0 \<Longrightarrow> file_of_fd (set_open_file fd f g') fd =
     (if int (length (open_files (g_fdtable g'))) \<le> fd then Inl Out_of_bounds else Inr f)"
  by (auto simp: file_of_fd_def set_open_file_def split: if_splits)

lemma open_files_frame [simp]:
  "live_fds (tab\<lparr>open_files := xs\<rparr>) = live_fds tab"
  "length xs = 256 \<Longrightarrow> fd_ok tab \<Longrightarrow> fd_ok (tab\<lparr>open_files := xs\<rparr>)"
  by (auto simp: fd_ok_def live_fds_def)

lemma install_file_result:
  assumes "fd_ok (g_fdtable g)" and "install_file f g = Inr (fd, g')"
  shows "fd_ok (g_fdtable g') \<and> g_thread g' = g_thread g \<and> g_root g' = g_root g \<and>
     (fd = - 1 \<and> g_fdtable g' = g_fdtable g \<or>
      0 \<le> fd \<and> fd < 256 \<and> nat fd \<notin> live_fds (g_fdtable g) \<and>
      live_fds (g_fdtable g') = insert (nat fd) (live_fds (g_fdtable g)) \<and> file_of_fd g' fd = Inr f)"
proof -
  let ?tab = "g_fdtable g"
  have len: "length (open_files ?tab) = 256" "length (used_fd ?tab) = 256" using assms(1) by (simp_all add: fd_ok_def)
  consider fd' where "get_fd_from_table ?tab = Inr (int fd', claim_fd ?tab fd')" "fd' < 256" "fd' \<notin> live_fds ?tab"
    | "get_fd_from_table ?tab = Inr (- 1, ?tab)"
    using get_fd_result [OF assms(1)] by blast
  then show ?thesis
  proof cases
    case 1
    then have g': "fd = int fd'" "g' = set_open_file (int fd') f (g\<lparr>g_fdtable := claim_fd ?tab fd'\<rparr>)"
      using assms(2) by (auto simp: install_file_def)
    have "open_files (claim_fd ?tab fd') = open_files ?tab" by (simp add: claim_fd_def)
    then show ?thesis
      using 1(2,3) g' len claim_ok [OF assms(1) 1(2,3)] live_claim [OF len(2) 1(2)]
      by (simp add: set_open_file_def file_of_fd_def)
  next
    case 2
    then show ?thesis using assms by (auto simp: install_file_def)
  qed
qed

section \<open>Whole transfers\<close>

lemma sint_small:
  assumes "unat (x :: u64) < 2 ^ 63"
  shows "sint x = uint x"
proof -
  have "int (unat x) < int (2 ^ 63)" using assms by (simp only: of_nat_less_iff)
  then have "uint x < 2 ^ 63" by simp
  moreover have "- (2 ^ 63) \<le> uint x" using order_trans [OF _ uint_ge_0 [of x]] by simp
  ultimately show ?thesis by (simp add: sint_uint signed_take_bit_int_eq_self_iff)
qed

lemma sdiv_nonneg: "0 \<le> a \<Longrightarrow> 0 \<le> b \<Longrightarrow> a sdiv b = a div (b :: int)"
  by (auto simp: signed_divide_int_def sgn_if)

lemma rounded_down:
  fixes n u :: u64
  assumes "n div u \<noteq> 0" and "u \<noteq> 0"
  shows "n div u * u \<noteq> 0" and "n div u * u \<le> n"
proof -
  have "unat n div unat u * unat u \<le> unat n" by simp
  moreover have "unat n < 2 ^ 64" using unsigned_less [of n] by simp
  ultimately have "unat n div unat u * unat u < 2 ^ 64" by (rule order_le_less_trans)
  then have e: "unat (n div u * u) = unat n div unat u * unat u"
    using unat_mult_lem [of "n div u" u] by (simp add: unat_div)
  then show "n div u * u \<le> n" by (simp add: word_le_nat_alt)
  have "unat (n div u) \<noteq> 0" "unat u \<noteq> 0" using assms unat_0_iff by blast+
  then have "unat (n div u * u) \<noteq> 0" using e by (simp add: unat_div)
  then show "n div u * u \<noteq> 0" by (rule contrapos_nn) simp
qed

lemma file_after_transfer:
  assumes "file_of_fd g fd = Inr f"
  shows "file_of_fd (end_transfer fd s g) fd = Inr (t_file s)"
    and "file_of_fd (set_open_file fd f' (g\<lparr>g_thread := th\<rparr>)) fd = Inr f'"
  using assms by (auto simp: end_transfer_def file_of_fd_def set_open_file_def split: if_splits)

lemma monopoly_read_split:
  assumes "monopoly_read L fd buf user nbytes g = Inr (r, user', g')"
    and "u = int_io_unit L g" and "nbytes div u \<noteq> 0" and "amount = nbytes div u * u"
  obtains (chunks) f s where "file_of_fd g fd = Inr f" "u \<noteq> 0" "buf_size g \<noteq> 0"
      "chunk_loop (read_chunk L) (buf_size g) amount 0 0
         \<lparr>t_file = f, t_user = user, t_buffer = g_buffer g, t_thread = g_thread g\<rparr> = Inr (r, s)"
      "g' = end_transfer fd s g" "user' = t_user s"
    | (direct) f f' th where "file_of_fd g fd = Inr f" "u \<noteq> 0"
      "simple_fs_read L f amount user (g_thread g) = Inr (r, f', user', th)"
      "g' = set_open_file fd f' (g\<lparr>g_thread := th\<rparr>)"
  using assms by (auto simp: monopoly_read_def bind_res_Inr_iff Let_def split: if_splits)

lemma monopoly_write_split:
  assumes "monopoly_write L fd buf user nbytes g = Inr (r, user', g')"
    and "u = int_io_unit L g" and "nbytes div u \<noteq> 0" and "amount = nbytes div u * u"
  obtains (chunks) f s where "file_of_fd g fd = Inr f" "u \<noteq> 0" "buf_size g \<noteq> 0"
      "chunk_loop (write_chunk L) (buf_size g) amount 0 0
         \<lparr>t_file = f, t_user = user, t_buffer = g_buffer g, t_thread = g_thread g\<rparr> = Inr (r, s)"
      "g' = end_transfer fd s g" "user' = t_user s"
    | (direct) f f' th where "file_of_fd g fd = Inr f" "u \<noteq> 0"
      "simple_fs_write L f amount user (g_thread g) = Inr (r, f', user', th)"
      "g' = set_open_file fd f' (g\<lparr>g_thread := th\<rparr>)"
  using assms by (auto simp: monopoly_write_def bind_res_Inr_iff Let_def split: if_splits)

section \<open>Operations on an idle thread\<close>

text \<open>A process with the example file open as descriptor 0 and a shared buffer of 512 bytes.\<close>

definition open_globals :: "spdkfs_file \<Rightarrow> mem_bs globals" where
  "open_globals f = \<lparr>g_thread = idle_thread example_disk,
     g_fdtable = \<lparr>file_count = 1, used_fd = True # replicate 255 False, open_files = Some f # replicate 255 None\<rparr>,
     g_root = empty_dir, g_workdir_set = True, g_mm = mm_start, g_buffer = replicate 512 0\<rparr>"

lemma open_globals_simps [simp]:
  "file_of_fd (open_globals f) 0 = Inr f" "buf_size (open_globals f) = 512"
  "int_io_unit (mem_lib 512 1024) (open_globals f) = 512" "g_thread (open_globals f) = idle_thread example_disk"
  "g_buffer (open_globals f) = replicate 512 0" "g_mm (open_globals f) = mm_start"
  by (simp_all add: open_globals_def file_of_fd_def buf_size_def int_io_unit_def c_int_small)

lemma mm_start_find: "p \<noteq> 0 \<Longrightarrow> spdkfs_mm_find mm_start p = Inr False"
  by (simp add: spdkfs_mm_find_def mm_start_def radix_tree_lookup_def radix_tree_maxindex_def
      height_to_maxindex_zero_def RADIX_TREE_INIT_def RADIX_TREE_MAX_PATH_def word_gt_0)

text \<open>A transfer that fits into one chunk.\<close>

lemma one_chunk:
  assumes "body n 0 s = Inr (n, s')" and "n \<noteq> 0" and "c_int n = n" and "n \<le> bufsz" and "upper_div n bufsz = 1"
  shows "chunk_loop body bufsz n 0 0 s = Inr (n, s')"
  using assms by (simp add: chunk_loop.simps [of _ _ _ 0] chunk_loop.simps [of _ _ _ "Suc 0"] Let_def min_absorb2)

lemma example_monopoly_read:
  "\<exists>g'. monopoly_read (mem_lib 512 1024) 0 1 (replicate 600 9) 600 (open_globals (example_file\<lparr>f_pos := 0\<rparr>)) =
     Inr (512, replicate 512 0 @ replicate 88 9, g')"
proof -
  let ?f = "example_file\<lparr>f_pos := 0\<rparr>"
  let ?s = "\<lparr>t_file = ?f, t_user = replicate 600 9, t_buffer = replicate 512 0, t_thread = idle_thread example_disk\<rparr>"
  obtain th where "generic_blob_io (mem_lib 512 1024) 1 512 0 (replicate 512 0) True (idle_thread example_disk) =
      Inr (True, replicate 512 0, th)"
    using blob_read_done [of "idle_thread example_disk" "mem_lib 512 1024" 1 0 512 0 "replicate 512 0" example_disk
        "replicate 512 0"] example_read_done by auto
  then have "\<exists>f1 th1. simple_fs_read (mem_lib 512 1024) ?f 512 (replicate 512 0) (idle_thread example_disk) =
      Inr (512, f1, replicate 512 0, th1)"
    by (simp add: simple_fs_read_def example_file_def example_persist_def)
  then obtain f1 th1 where r: "simple_fs_read (mem_lib 512 1024) ?f 512 (replicate 512 0) (idle_thread example_disk) =
      Inr (512, f1, replicate 512 0, th1)" by blast
  define s1 where "s1 = ?s\<lparr>t_file := f1, t_thread := th1, t_user := replicate 512 0 @ replicate 88 9\<rparr>"
  have "read_chunk (mem_lib 512 1024) 512 0 ?s = Inr (512, s1)"
    using r by (simp add: read_chunk_def Let_def c_int_small get_bytes_def put_bytes_def s1_def)
  then have "chunk_loop (read_chunk (mem_lib 512 1024)) 512 512 0 0 ?s = Inr (512, s1)"
    by (rule one_chunk) (simp_all add: c_int_small upper_div_def)
  then show ?thesis
    by (simp add: monopoly_read_def Let_def mm_start_find s1_def)
qed

lemma example_monopoly_write:
  "\<exists>g'. monopoly_write (mem_lib 512 1024) 0 1 (replicate 600 7) 600 (open_globals example_file) =
     Inr (512, replicate 600 7, g')"
proof -
  let ?s = "\<lparr>t_file = example_file, t_user = replicate 600 7, t_buffer = replicate 512 0, t_thread = idle_thread example_disk\<rparr>"
  obtain f1 th1 where w: "simple_fs_write (mem_lib 512 1024) example_file 512 (replicate 512 7) (idle_thread example_disk) =
      Inr (512, f1, replicate 512 7, th1)" using example_write by blast
  define s1 where "s1 = ?s\<lparr>t_file := f1, t_buffer := replicate 512 7, t_thread := th1\<rparr>"
  have "write_chunk (mem_lib 512 1024) 512 0 ?s = Inr (512, s1)"
    using w by (simp add: write_chunk_def Let_def c_int_small get_bytes_def put_bytes_def s1_def flip: replicate_add)
  then have "chunk_loop (write_chunk (mem_lib 512 1024)) 512 512 0 0 ?s = Inr (512, s1)"
    by (rule one_chunk) (simp_all add: c_int_small upper_div_def)
  then show ?thesis
    by (simp add: monopoly_write_def Let_def mm_start_find s1_def)
qed

section \<open>Descriptors under the operations\<close>

text \<open>Replacing the file behind one descriptor leaves the others alone.\<close>

lemma file_of_fd_update:
  assumes "open_files (g_fdtable g') = (open_files (g_fdtable g))[fd := Some f]" and "fd < length (open_files (g_fdtable g))"
  shows "file_of_fd g' (int j) = (if j = fd then Inr f else file_of_fd g (int j))"
  using assms by (auto simp: file_of_fd_def)

lemma install_free:
  assumes "fd_ok (g_fdtable g)" and "card (live_fds (g_fdtable g)) < 255"
  shows "\<exists>fd g'. install_file f g = Inr (int fd, g') \<and> fd < 256 \<and> fd \<notin> live_fds (g_fdtable g) \<and>
     fd_ok (g_fdtable g') \<and> live_fds (g_fdtable g') = insert fd (live_fds (g_fdtable g)) \<and>
     (\<forall>j. file_of_fd g' (int j) = (if j = fd then Inr f else file_of_fd g (int j))) \<and>
     g' = g\<lparr>g_fdtable := g_fdtable g'\<rparr>"
proof -
  obtain fd where fd: "get_fd_from_table (g_fdtable g) = Inr (int fd, claim_fd (g_fdtable g) fd)" "fd < 256"
      "fd \<notin> live_fds (g_fdtable g)"
    using get_fd_result [OF assms(1)] assms(2) by auto
  define g' where "g' = set_open_file (int fd) f (g\<lparr>g_fdtable := claim_fd (g_fdtable g) fd\<rparr>)"
  have ins: "install_file f g = Inr (int fd, g')" using fd by (simp add: install_file_def g'_def)
  have len: "length (open_files (g_fdtable g)) = 256" using assms(1) by (simp add: fd_ok_def)
  have "open_files (g_fdtable g') = (open_files (g_fdtable g))[fd := Some f]"
    by (simp add: g'_def set_open_file_def claim_fd_def)
  then have files: "file_of_fd g' (int j) = (if j = fd then Inr f else file_of_fd g (int j))" for j
    using len fd(2) by (intro file_of_fd_update) simp_all
  have "g' = g\<lparr>g_fdtable := g_fdtable g'\<rparr>" by (simp add: g'_def set_open_file_def)
  then show ?thesis
    using install_file_result [OF assms(1) ins] ins fd(2,3) files
    by (intro exI [of _ fd] exI [of _ g']) auto
qed

text \<open>Creating a file under a new name, with the state it leaves.\<close>

lemma monopoly_create_new:
  assumes "idle (g_thread g)" and "g_workdir_set g" and "\<not> stack_done e" and "d_initialized (g_root g)"
    and "fd_ok (g_fdtable g)" and "card (live_fds (g_fdtable g)) < 255" and "spdkfs_dir_lookup (g_root g) name = Inr (- 1)"
    and "lib_completes L k1 (submit L Bs_create_blob (lib (g_thread g))) c1 b1" and "bserrno c1 = 0"
    and "lib_completes L k2 (submit L (Bs_open_blob (c_blobid c1)) b1) c2 b2" and "bserrno c2 = 0"
    and "k1 + k2 + 1 < POLLER_MAX_TIME" and "h = c_blob c2" and "h \<noteq> 0"
    and "p = (junk_file e)\<lparr>f_size := 0, f_blob_id := get_id L b2 h, i_writecount := 0, i_ctime := time_now e\<rparr>"
    and "b3 = set_xattr L h file_xattr (File_ctx p) b2" and "u = c_int (io_unit_size L b3)"
    and "add_dirent (junk_mem e) u (get_id L b3 h) name (g_root g) = Inr dir'"
  shows "\<exists>fd g'. monopoly_create L e name g = Inr (int fd, g') \<and> fd < 256 \<and> fd \<notin> live_fds (g_fdtable g) \<and>
     fd_ok (g_fdtable g') \<and> live_fds (g_fdtable g') = insert fd (live_fds (g_fdtable g)) \<and>
     (\<forall>j. file_of_fd g' (int j) =
        (if j = fd then Inr \<lparr>f_blob = h, f_pos = 0, file_persist = p\<rparr> else file_of_fd g (int j))) \<and>
     settled b3 (g_thread g') \<and> g_root g' = dir' \<and>
     g' = g\<lparr>g_thread := g_thread g', g_root := dir', g_fdtable := g_fdtable g'\<rparr>"
proof -
  obtain th where th: "blob_create L False (junk_blob e) (g_thread g) = Inr (True, h, th)" "settled b2 th"
    using blob_create_correct_aux [OF assms(1,8-10,12) refl, of "junk_blob e"] assms(11,13,14) by auto
  let ?f = "\<lparr>f_blob = h, f_pos = 0, file_persist = p\<rparr>"
  let ?th = "put_xattr L h file_xattr (File_ctx p) th"
  let ?g = "g\<lparr>g_thread := ?th, g_root := dir'\<rparr>"
  have cr: "simple_fs_create L (junk_file e) (time_now e) \<lparr>f_blob = h, f_pos = 0, file_persist = junk_file e\<rparr> th = (?f, ?th)"
    using th(2) assms(15) by (simp add: simple_fs_create_def settled_def Let_def)
  have lib: "settled b3 ?th" using th(2) assms(16) by simp
  then have "lib ?th = b3" by (simp add: settled_def)
  then have "add_dirent (junk_mem e) (int_io_unit L (g\<lparr>g_thread := ?th\<rparr>)) (get_id L (lib ?th) h) name (g_root g) = Inr dir'"
    using assms(17,18) by (simp add: int_io_unit_def)
  then have "monopoly_create L e name g = install_file ?f ?g"
    using assms(2-4,7) th(1) cr by (simp add: monopoly_create_def workdir_def Let_def)
  moreover obtain fd g' where g': "install_file ?f ?g = Inr (int fd, g')" "fd < 256" "fd \<notin> live_fds (g_fdtable g)"
      "fd_ok (g_fdtable g')" "live_fds (g_fdtable g') = insert fd (live_fds (g_fdtable g))"
      "\<forall>j. file_of_fd g' (int j) = (if j = fd then Inr ?f else file_of_fd ?g (int j))"
      "g' = ?g\<lparr>g_fdtable := g_fdtable g'\<rparr>"
    using install_free [of ?g ?f] assms(5,6) by auto
  moreover have "g_thread g' = ?th" "g_root g' = dir'" by (subst g'(7), simp)+
  moreover have "file_of_fd ?g j = file_of_fd g j" for j by (simp add: file_of_fd_def)
  moreover have "g' = g\<lparr>g_thread := ?th, g_root := dir', g_fdtable := g_fdtable g'\<rparr>" by (subst g'(7)) simp
  ultimately show ?thesis using lib by (intro exI [of _ fd] exI [of _ g']) simp
qed

text \<open>Opening a file that is there, with the state it leaves.\<close>

lemma monopoly_open_there:
  assumes "idle (g_thread g)" and "g_workdir_set g" and "\<not> stack_done e"
    and "fd_ok (g_fdtable g)" and "card (live_fds (g_fdtable g)) < 255"
    and "spdkfs_dir_lookup (g_root g) name = Inr (int k)" and "dirent_id (g_root g) k = Inr i"
    and "lib_completes L n (submit L (Bs_open_blob i) (lib (g_thread g))) c b" and "n < POLLER_MAX_TIME"
    and "h = c_blob c" and "get_xattr L b h file_xattr = Some (File_ctx p)"
  shows "\<exists>fd g'. monopoly_open L e name g = Inr (int fd, g') \<and> fd < 256 \<and> fd \<notin> live_fds (g_fdtable g) \<and>
     fd_ok (g_fdtable g') \<and> live_fds (g_fdtable g') = insert fd (live_fds (g_fdtable g)) \<and>
     (\<forall>j. file_of_fd g' (int j) =
        (if j = fd then Inr \<lparr>f_blob = h, f_pos = 0, file_persist = p\<rparr> else file_of_fd g (int j))) \<and>
     settled b (g_thread g') \<and> g' = g\<lparr>g_thread := g_thread g', g_fdtable := g_fdtable g'\<rparr>"
proof -
  obtain th where o: "blob_open L False (junk_blob e) i (g_thread g) = Inr (bserrno c = 0, h, th)" "settled b th"
    using blob_open_correct_aux [OF assms(1,8,9), of "junk_blob e"] assms(10) by auto
  let ?f = "\<lparr>f_blob = h, f_pos = 0, file_persist = p\<rparr>" and ?g = "g\<lparr>g_thread := th\<rparr>"
  have "simple_fs_open L \<lparr>f_blob = h, f_pos = 0, file_persist = junk_file e\<rparr> th = Inr ?f"
    using o(2) assms(11) by (simp add: simple_fs_open_def settled_def sizeof_file_ctx_def)
  then have "monopoly_open L e name g = install_file ?f ?g"
    using assms(2,3,6,7) o(1) by (simp add: monopoly_open_def workdir_def)
  moreover obtain fd g' where g': "install_file ?f ?g = Inr (int fd, g')" "fd < 256" "fd \<notin> live_fds (g_fdtable g)"
      "fd_ok (g_fdtable g')" "live_fds (g_fdtable g') = insert fd (live_fds (g_fdtable g))"
      "\<forall>j. file_of_fd g' (int j) = (if j = fd then Inr ?f else file_of_fd ?g (int j))"
      "g' = ?g\<lparr>g_fdtable := g_fdtable g'\<rparr>"
    using install_free [of ?g ?f] assms(4,5) by auto
  moreover have "g_thread g' = th" by (subst g'(7), simp)
  moreover have "file_of_fd ?g j = file_of_fd g j" for j by (simp add: file_of_fd_def)
  moreover have "g' = g\<lparr>g_thread := th, g_fdtable := g_fdtable g'\<rparr>" by (subst g'(7)) simp
  ultimately show ?thesis using o(2) by (intro exI [of _ fd] exI [of _ g']) simp
qed

text \<open>Closing, likewise. The table still holds the file.\<close>

lemma monopoly_close_there:
  assumes "idle (g_thread g)" and "\<not> stack_done e" and "fd_ok (g_fdtable g)" and "fd \<in> live_fds (g_fdtable g)"
    and "file_of_fd g (int fd) = Inr f"
    and "lib_completes L n (submit L (Blob_close (f_blob f))
      (set_xattr L (f_blob f) file_xattr (File_ctx (file_persist f)) (lib (g_thread g)))) c b" and "n < POLLER_MAX_TIME"
  shows "\<exists>g'. monopoly_close L e (int fd) g = Inr (0, g') \<and> fd_ok (g_fdtable g') \<and>
     live_fds (g_fdtable g') = live_fds (g_fdtable g) - {fd} \<and> settled b (g_thread g') \<and>
     (\<forall>j. file_of_fd g' (int j) = file_of_fd g (int j)) \<and>
     g' = g\<lparr>g_thread := g_thread g', g_fdtable := g_fdtable g'\<rparr>"
proof -
  let ?th = "put_xattr L (f_blob f) file_xattr (File_ctx (file_persist f)) (g_thread g)"
  obtain th where c: "blob_close L False (f_blob f) ?th = Inr (bserrno c = 0, th)" "settled b th"
    using blob_close_unlink_correct_aux [of ?th L n "Blob_close (f_blob f)" c b "f_blob f"] assms(1,6,7) by auto
  obtain tab where tab: "return_fd_to_table (int fd) (g_fdtable g) = Inr tab" "fd_ok tab"
      "live_fds tab = live_fds (g_fdtable g) - {fd}" "open_files tab = open_files (g_fdtable g)"
    using return_ok [OF assms(3,4)] by blast
  let ?g = "g\<lparr>g_thread := th, g_fdtable := tab\<rparr>"
  have "monopoly_close L e (int fd) g = Inr (0, ?g)"
    using assms(2,5) c(1) tab(1) by (simp add: monopoly_close_def simple_fs_close_def)
  moreover have "file_of_fd ?g j = file_of_fd g j" for j using tab(4) by (simp add: file_of_fd_def)
  ultimately show ?thesis using tab(2,3) c(2) by (intro exI [of _ ?g]) simp
qed

lemma monopoly_open_correct_aux:
  assumes "idle (g_thread g)" and "g_workdir_set g" and "\<not> stack_done e" and "fd_ok (g_fdtable g)"
    and "card (live_fds (g_fdtable g)) < 255"
    and "spdkfs_dir_lookup (g_root g) file = Inr (int k)" and "dirent_id (g_root g) k = Inr i"
    and "lib_completes L n (submit L (Bs_open_blob i) (lib (g_thread g))) c b" and "n < POLLER_MAX_TIME"
    and "get_xattr L b (c_blob c) file_xattr = Some (File_ctx p)"
  shows "\<exists>fd g'. monopoly_open L e file g = Inr (fd, g') \<and> 0 \<le> fd \<and> nat fd \<notin> live_fds (g_fdtable g) \<and>
     live_fds (g_fdtable g') = insert (nat fd) (live_fds (g_fdtable g)) \<and> fd_ok (g_fdtable g') \<and>
     file_of_fd g' fd = Inr \<lparr>f_blob = c_blob c, f_pos = 0, file_persist = p\<rparr> \<and> settled b (g_thread g')"
proof -
  obtain fd g' where "monopoly_open L e file g = Inr (int fd, g')" "fd \<notin> live_fds (g_fdtable g)" "fd_ok (g_fdtable g')"
      "live_fds (g_fdtable g') = insert fd (live_fds (g_fdtable g))" "settled b (g_thread g')"
      "\<forall>j. file_of_fd g' (int j) =
        (if j = fd then Inr \<lparr>f_blob = c_blob c, f_pos = 0, file_persist = p\<rparr> else file_of_fd g (int j))"
    using monopoly_open_there [OF assms(1-9) refl assms(10)] by blast
  then show ?thesis by (intro exI [of _ "int fd"] exI [of _ g']) simp
qed

section \<open>Properties\<close>

text \<open>\<open>monopoly_read\<close>, through an ordinary buffer or a DMA buffer, returns at most the bytes asked
  for, moves the position of that file by exactly what it returns, and what it returns is
  everything, rounded down to io units, unless some \<open>simple_fs_read\<close> returned 0.\<close>

theorem monopoly_read_result:
  assumes "monopoly_read L fd buf user nbytes g = Inr (r, user', g')" and "unat (buf_size g) < 2 ^ 31"
    and "u = int_io_unit L g" and "nbytes div u \<noteq> 0"
  shows "\<exists>f f'. file_of_fd g fd = Inr f \<and> file_of_fd g' fd = Inr f' \<and> f_pos f' = f_pos f + r \<and>
     r \<le> nbytes div u * u \<and> nbytes div u * u \<le> nbytes \<and>
     (r \<noteq> nbytes div u * u \<longrightarrow>
        (\<exists>f0 n bf th f1 bf1 th1. simple_fs_read L f0 n bf th = Inr (0, f1, bf1, th1)))"
  using assms(1,3,4) refl
proof (cases rule: monopoly_read_split)
  case (chunks f s)
  note tr = read_loop.transfer [OF rounded_down(1) [OF assms(4) chunks(2)] chunks(3) assms(2) chunks(4)]
  have "\<exists>f0 n bf th f1 bf1 th1. simple_fs_read L f0 n bf th = Inr (0, f1, bf1, th1)" if "r \<noteq> nbytes div u * u"
    using tr(4) [OF that] read_chunk_read by blast
  then show ?thesis
    using chunks tr(1,2) file_after_transfer(1) [OF chunks(1)] rounded_down(2) [OF assms(4) chunks(2)] by auto
next
  case (direct f f' th)
  have "\<exists>f0 n bf th f1 bf1 th1. simple_fs_read L f0 n bf th = Inr (0, f1, bf1, th1)" if "r \<noteq> nbytes div u * u"
    using direct(3) read_result(1) [OF direct(3)] that by blast
  then show ?thesis
    using direct(1,4) read_result(1,2) [OF direct(3)] file_after_transfer(2) [OF direct(1)]
      rounded_down(2) [OF assms(4) direct(2)] by auto
qed

theorem monopoly_read_result_witness:
  "\<exists>g' f'. monopoly_read (mem_lib 512 1024) 0 1 (replicate 600 9) 600 (open_globals (example_file\<lparr>f_pos := 0\<rparr>)) =
       Inr (512, replicate 512 0 @ replicate 88 9, g') \<and> file_of_fd g' 0 = Inr f' \<and> f_pos f' = 512"
proof -
  obtain g' where r: "monopoly_read (mem_lib 512 1024) 0 1 (replicate 600 9) 600 (open_globals (example_file\<lparr>f_pos := 0\<rparr>)) =
      Inr (512, replicate 512 0 @ replicate 88 9, g')"
    using example_monopoly_read by blast
  have "\<exists>f'. file_of_fd g' 0 = Inr f' \<and> f_pos f' = f_pos (example_file\<lparr>f_pos := 0\<rparr>) + 512"
  proof -
    have "unat (buf_size (open_globals (example_file\<lparr>f_pos := 0\<rparr>))) < 2 ^ 31" by simp
    moreover have "(512 :: u64) = int_io_unit (mem_lib 512 1024) (open_globals (example_file\<lparr>f_pos := 0\<rparr>))" by simp
    moreover have "(600 :: u64) div 512 \<noteq> 0" by simp
    ultimately obtain f f' where "file_of_fd (open_globals (example_file\<lparr>f_pos := 0\<rparr>)) 0 = Inr f"
        "file_of_fd g' 0 = Inr f'" "f_pos f' = f_pos f + 512"
      using monopoly_read_result [OF r] by blast
    then show ?thesis by simp
  qed
  then show ?thesis
    using r by auto
qed

text \<open>\<open>monopoly_write\<close> likewise, with \<open>simple_fs_write\<close>.\<close>

theorem monopoly_write_result:
  assumes "monopoly_write L fd buf user nbytes g = Inr (r, user', g')" and "unat (buf_size g) < 2 ^ 31"
    and "u = int_io_unit L g" and "nbytes div u \<noteq> 0"
  shows "\<exists>f f'. file_of_fd g fd = Inr f \<and> file_of_fd g' fd = Inr f' \<and> f_pos f' = f_pos f + r \<and>
     r \<le> nbytes div u * u \<and> nbytes div u * u \<le> nbytes \<and>
     (r \<noteq> nbytes div u * u \<longrightarrow>
        (\<exists>f0 n bf th f1 bf1 th1. simple_fs_write L f0 n bf th = Inr (0, f1, bf1, th1)))"
  using assms(1,3,4) refl
proof (cases rule: monopoly_write_split)
  case (chunks f s)
  note tr = write_loop.transfer [OF rounded_down(1) [OF assms(4) chunks(2)] chunks(3) assms(2) chunks(4)]
  have "\<exists>f0 n bf th f1 bf1 th1. simple_fs_write L f0 n bf th = Inr (0, f1, bf1, th1)" if "r \<noteq> nbytes div u * u"
    using tr(4) [OF that] write_chunk_write by blast
  then show ?thesis
    using chunks tr(1,2) file_after_transfer(1) [OF chunks(1)] rounded_down(2) [OF assms(4) chunks(2)] by auto
next
  case (direct f f' th)
  have "\<exists>f0 n bf th f1 bf1 th1. simple_fs_write L f0 n bf th = Inr (0, f1, bf1, th1)" if "r \<noteq> nbytes div u * u"
    using direct(3) write_result(4) [OF direct(3)] that by blast
  then show ?thesis
    using direct(1,4) write_result(4) [OF direct(3)] file_after_transfer(2) [OF direct(1)]
      rounded_down(2) [OF assms(4) direct(2)] by auto
qed

theorem monopoly_write_result_witness:
  "\<exists>g' f'. monopoly_write (mem_lib 512 1024) 0 1 (replicate 600 7) 600 (open_globals example_file) =
       Inr (512, replicate 600 7, g') \<and> file_of_fd g' 0 = Inr f' \<and> f_pos f' = 1024"
proof -
  obtain g' where r: "monopoly_write (mem_lib 512 1024) 0 1 (replicate 600 7) 600 (open_globals example_file) =
      Inr (512, replicate 600 7, g')"
    using example_monopoly_write by blast
  have "unat (buf_size (open_globals example_file)) < 2 ^ 31" by simp
  moreover have "(512 :: u64) = int_io_unit (mem_lib 512 1024) (open_globals example_file)" by simp
  moreover have "(600 :: u64) div 512 \<noteq> 0" by simp
  ultimately obtain f f' where "file_of_fd (open_globals example_file) 0 = Inr f"
      "file_of_fd g' 0 = Inr f'" "f_pos f' = f_pos f + 512"
    using monopoly_write_result [OF r] by blast
  moreover have "f_pos example_file = 512" by (simp add: example_file_def)
  ultimately show ?thesis using r by auto
qed

text \<open>\<open>monopoly_lseek\<close> rounds a non-negative offset down to an io unit and sets the position to
  it (\<open>SEEK_SET\<close>) or moves the position by it (\<open>SEEK_CUR\<close>); any other \<open>whence\<close>, \<open>SEEK_END\<close>
  included, leaves the position alone and is not an error. The result is the position.\<close>

theorem lseek_correct:
  assumes "file_of_fd g fd = Inr f" and "u = int_io_unit L g" and "u \<noteq> 0" and "unat u < 2 ^ 31"
    and "unat offset < 2 ^ 63" and "a = offset div u * u"
    and "p = (if whence = SEEK_SET then a else if whence = SEEK_CUR then f_pos f + a else f_pos f)"
  shows "\<exists>g'. monopoly_lseek L fd offset whence g = Inr (p, g') \<and> file_of_fd g' fd = Inr (f\<lparr>f_pos := p\<rparr>)"
proof -
  have "unat u < 2 ^ 63" using assms(4) by simp
  then have "seek_align offset u = a"
    using assms(5,6) by (simp add: seek_align_def sint_small sdiv_nonneg uint_div [symmetric])
  moreover have "fd \<noteq> - 1" using assms(1) by (auto simp: file_of_fd_def)
  ultimately show ?thesis
    using assms(1,2,3,7) file_after_transfer(2) [OF assms(1), of _ "g_thread g"]
    by (simp add: monopoly_lseek_def Let_def SEEK_SET_def SEEK_CUR_def)
qed

theorem lseek_correct_witness:
  "\<exists>g'. monopoly_lseek (mem_lib 512 1024) 0 700 1 (open_globals example_file) = Inr (1024, g') \<and>
     file_of_fd g' 0 = Inr (example_file\<lparr>f_pos := 1024\<rparr>)"
  by (rule lseek_correct [where u = 512 and a = 512])
    (simp_all add: SEEK_SET_def SEEK_CUR_def example_file_def)


definition open_disk :: mem_bs where
  "open_disk = mem_empty\<lparr>bs_data := [1 \<mapsto> []], bs_xattr := (\<lambda>i. [file_xattr \<mapsto> File_ctx example_persist])\<rparr>"

lemma example_lookup: "spdkfs_dir_lookup example_dir [97] = Inr 0"
  by (simp add: spdkfs_dir_lookup_def lookup_dirents.simps [of _ _ _ 0] example_dir_def example_dirents_def)

lemma example_globals_fdtable [simp]: "g_fdtable (example_globals b dir) = fdtable_zero"
  by (simp add: example_globals_def)

lemma live_fds_zero [simp]: "live_fds (fdtable_zero :: 'f fdtable) = {}"
  by (auto simp: live_fds_def fdtable_zero_def)



lemma open_globals_table: "fd_ok (g_fdtable (open_globals f))" "live_fds (g_fdtable (open_globals f)) = {0}"
proof -
  show "live_fds (g_fdtable (open_globals f)) = {0}"
    by (auto simp: live_fds_def open_globals_def nth_Cons' split: if_splits)
  then show "fd_ok (g_fdtable (open_globals f))"
    by (simp add: fd_ok_def) (simp add: open_globals_def)
qed


text \<open>\<open>monopoly_create\<close> of a new name that returns -1, as it does when no descriptor is free,
  has added the entry to the directory all the same: the blob and the name stay behind.\<close>

theorem monopoly_create_leaks:
  assumes "monopoly_create L e file g = Inr (- 1, g')" and "spdkfs_dir_lookup (g_root g) file = Inr (- 1)"
    and "g_workdir_set g"
  shows "d_dirent_count (dir_persist (g_root g')) = d_dirent_count (dir_persist (g_root g)) + 1 \<and>
     d_dirty (g_root g')"
proof -
  obtain dir' u i g1 f where a: "add_dirent (junk_mem e) u i file (g_root g) = Inr dir'"
      "install_file f (g1\<lparr>g_root := dir'\<rparr>) = Inr (- 1, g')"
    using assms by (auto simp: monopoly_create_def workdir_def bind_res_Inr_iff Let_def simple_fs_create_def
        split: if_splits)
  have "g_root g' = dir'"
    using a(2) by (auto simp: install_file_def set_open_file_def bind_res_Inr_iff split: if_splits)
  moreover have "d_dirent_count (dir_persist dir') = d_dirent_count (dir_persist (g_root g)) + 1 \<and> d_dirty dir'"
    using a(1) by (auto simp: add_dirent_def dirent_room_def Let_def bind_res_Inr_iff split: if_splits)
  ultimately show ?thesis by simp
qed

definition full_globals :: "mem_bs globals" where
  "full_globals = (example_globals mem_empty empty_dir)
     \<lparr>g_fdtable := \<lparr>file_count = 256, used_fd = replicate 256 True, open_files = replicate 256 None\<rparr>\<rparr>"

lemma example_create_full: "\<exists>g'. monopoly_create (mem_lib 4096 8192) example_env [97] full_globals = Inr (- 1, g')"
proof -
  let ?L = "mem_lib 4096 8192" and ?b = "mem_empty\<lparr>bs_data := [1 \<mapsto> []], bs_next := 2\<rparr>"
  let ?c = "\<lparr>bserrno = 0, c_blobid = 1, c_blob = 1, c_data = []\<rparr>"
  obtain th where b: "blob_create ?L False 77 (idle_thread mem_empty) = Inr (True, 1, th)" "settled ?b th"
    using blob_create_correct_aux [of "idle_thread mem_empty" ?L 0 ?c ?b 0 ?c ?b 1 77]
    by (auto simp: mem_empty_def answer_def POLLER_MAX_TIME_def)
  obtain dir' where d: "add_dirent (\<lambda>_. 0) 4096 1 [97] empty_dir = Inr dir'"
    using add_dirent_zero_memory [of 4096 empty_dir "[97]" 0 1]
    by (auto simp: sizeof_dirent_def name_ok_def SPDK_MAX_NAME_COUNT_def)
  have g: "g_thread full_globals = idle_thread mem_empty" "workdir full_globals = Inr empty_dir"
      "spdkfs_dir_lookup empty_dir [97] = Inr (- 1)" "d_initialized empty_dir" "\<not> stack_done example_env"
      "junk_blob example_env = 77" "junk_mem example_env = (\<lambda>_. 0)"
    by (simp_all add: full_globals_def example_globals_def workdir_def example_env_def empty_dir_def
        spdkfs_dir_lookup_def lookup_dirents.simps)
  have io: "int_io_unit ?L (full_globals\<lparr>g_thread := t\<rparr>) = 4096" for t
    by (simp add: int_io_unit_def c_int_small)
  have full: "get_fd_from_table (g_fdtable full_globals) = Inr (- 1, g_fdtable full_globals)"
    by (simp add: full_globals_def get_fd_from_table_def SPDK_MAX_FILE_CNT_def)
  show ?thesis
    using b(1) d full by (simp add: monopoly_create_def g io simple_fs_create_def Let_def install_file_def)
qed

theorem monopoly_create_leaks_witness:
  "\<exists>g'. monopoly_create (mem_lib 4096 8192) example_env [97] full_globals = Inr (- 1, g') \<and>
     d_dirent_count (dir_persist (g_root g')) = 1"
proof -
  obtain g' where g': "monopoly_create (mem_lib 4096 8192) example_env [97] full_globals = Inr (- 1, g')"
    using example_create_full by blast
  have "spdkfs_dir_lookup (g_root full_globals) [97] = Inr (- 1)" "g_workdir_set full_globals"
      "g_root full_globals = empty_dir"
    by (simp_all add: full_globals_def spdkfs_dir_lookup_def lookup_dirents.simps)
  then show ?thesis
    using monopoly_create_leaks [OF g'] g' by simp
qed

end
