(* ===== verification/Super.thy ===== *)
theory Super
  imports Transfer_Props
begin

text \<open>
  \<^verbatim>\<open>simple_fs/super.c\<close> after the blobstore is mounted: loading the root directory and unloading
  the file system. The callbacks of this file that serve the blob operations are in the theory
  of those.
\<close>

section \<open>Operations\<close>

text \<open>\<open>load_root\<close>: the root directory lives in the super blob. A super blob without clusters has
  never been written; the directory is then created. The fresh structure holds \<open>junk\<close>.\<close>

definition load_root ::
  "'b spdk \<Rightarrow> env \<Rightarrow> spdkfs_dir \<Rightarrow> blob \<Rightarrow> 'b thread \<Rightarrow> (spdkfs_dir \<times> 'b thread) res" where
  "load_root L e junk super th =
     (let root = junk\<lparr>d_blob := super, d_has_fs := True\<rparr>
      in if num_clusters L (lib th) super = 0
         then Inr (op_mkdir (simplefs_dir_ops L) (junk_dir e) (time_now e) root th)
         else op_readdir (simplefs_dir_ops L) (junk_mem e) root th)"

text \<open>\<open>unload_simple_spdk_fs\<close>: free the DMA buffers, close the root directory, unload the
  blobstore, stop the subsystems. The calls to the allocator are part of the result.\<close>

definition unload_simple_spdk_fs ::
  "'b spdk \<Rightarrow> env \<Rightarrow> 'b globals \<Rightarrow> (alloc_call list \<times> 'b globals) res" where
  "unload_simple_spdk_fs L e g =
     bind_res (spdkfs_mm_free (g_mm g)) (\<lambda>(ok, calls, mm).
     bind_res (op_closedir (simplefs_dir_ops L) (stack_done e) (g_root g) (g_thread g)) (\<lambda>th1.
     bind_res (run_op L Unload_bs_fn (th1\<lparr>done_flag := False\<rparr>)) (\<lambda>(r1, th2).
     bind_res (run_op L Stop_subsystem (th2\<lparr>done_flag := False\<rparr>)) (\<lambda>(r2, th3).
       Inr (calls, g\<lparr>g_mm := mm, g_thread := th3\<rparr>)))))"

section \<open>Facts\<close>

lemma dir_read_settled:
  assumes "idle th" and "d_has_fs dir" and "get_xattr L (lib th) (d_blob dir) dir_xattr = Some (Dir_ctx p)"
    and "read_done L (lib th) (d_blob dir) 0 (d_size p) e bs b'" and "length bs = unat (d_size p)"
  shows "\<exists>th'. simple_dir_read L garbage dir th =
      Inr (dir\<lparr>dir_persist := p, dirents := bs, d_initialized := True, d_dirty := False\<rparr>, th') \<and> settled b' th'"
proof -
  have "load_dir_persist L dir th = Inr p"
    using assms(3) by (simp add: load_dir_persist_def sizeof_dir_ctx_def)
  then show ?thesis
    using blob_read_done [OF assms(1,4), of "fresh_mem garbage (unat (d_size p))"] assms(2,5)
    by (auto simp: simple_dir_read_def fresh_mem_def)
qed

lemma run_unload:
  assumes "idle th" and "lib_completes L k (submit L Bs_unload (free_io_channel L (lib th))) c b" and "k < POLLER_MAX_TIME"
  shows "\<exists>th'. run_op L Unload_bs_fn (th\<lparr>done_flag := False\<rparr>) = Inr (True, th') \<and> settled b th'"
proof -
  let ?th = "th\<lparr>done_flag := False\<rparr>"
  have "run_op L Unload_bs_fn ?th = Inr (True, raise_done (?th\<lparr>lib := b\<rparr>))"
    using assms by (intro unload_op.completes [where c = c and k = k and b' = b]) simp_all
  then show ?thesis using assms(1) by (simp add: raise_done_def)
qed

lemma run_stop:
  assumes "idle th" and "lib_completes L k (submit L Subsystem_fini (lib th)) c b" and "k < POLLER_MAX_TIME"
  shows "\<exists>th'. run_op L Stop_subsystem (th\<lparr>done_flag := False\<rparr>) = Inr (True, th') \<and> settled b th'"
proof -
  let ?th = "th\<lparr>done_flag := False\<rparr>"
  have "run_op L Stop_subsystem ?th = Inr (True, raise_done (?th\<lparr>lib := b\<rparr>))"
    using assms by (intro stop_op.completes [where c = c and k = k and b' = b]) simp_all
  then show ?thesis using assms(1) by (simp add: raise_done_def)
qed

text \<open>The rest of the unload, once the directory is closed.\<close>

lemma unload_closed:
  assumes "simple_dir_close L False (g_root g) (g_thread g) = Inr th1" and "settled b1 th1" and "\<not> stack_done e"
    and "mm_inv ub (g_mm g)"
    and "lib_completes L k2 (submit L Bs_unload (free_io_channel L b1)) c2 b2" and "k2 < POLLER_MAX_TIME"
    and "lib_completes L k3 (submit L Subsystem_fini b2) c3 b3" and "k3 < POLLER_MAX_TIME"
  shows "\<exists>g'. unload_simple_spdk_fs L e g = Inr ([], g') \<and> settled b3 (g_thread g')"
proof -
  have i1: "idle th1" "lib th1 = b1" using assms(2) by (simp_all add: settled_def)
  obtain th2 where 2: "run_op L Unload_bs_fn (th1\<lparr>done_flag := False\<rparr>) = Inr (True, th2)" "settled b2 th2"
    using run_unload [of th1 L k2 c2 b2] i1 assms(5,6) by auto
  have i2: "idle th2" "lib th2 = b2" using 2(2) by (simp_all add: settled_def)
  obtain th3 where 3: "run_op L Stop_subsystem (th2\<lparr>done_flag := False\<rparr>) = Inr (True, th3)" "settled b3 th3"
    using run_stop [of th2 L k3 c3 b3] i2 assms(7,8) by auto
  have "spdkfs_mm_free (g_mm g) = Inr (True, [], g_mm g)" by (rule mm_free_idle [OF assms(4)])
  then show ?thesis
    using assms(1,3) 2(1) 3 by (simp add: unload_simple_spdk_fs_def)
qed

lemma unload_done:
  assumes "idle (g_thread g)" and "\<not> stack_done e" and "mm_inv ub (g_mm g)" and "dir = g_root g" and "d_dirty dir"
    and "d_size (dir_persist dir) \<le> get_blob_size L (d_blob dir) (g_thread g)"
    and "write_done L (lib (g_thread g)) (d_blob dir) 0 (d_size (dir_persist dir)) (dirents dir) err b0"
    and "lib_completes L k1 (submit L (Blob_close (d_blob dir))
      (set_xattr L (d_blob dir) dir_xattr (Dir_ctx (dir_persist dir)) b0)) c1 b1" and "k1 < POLLER_MAX_TIME"
    and "lib_completes L k2 (submit L Bs_unload (free_io_channel L b1)) c2 b2" and "k2 < POLLER_MAX_TIME"
    and "lib_completes L k3 (submit L Subsystem_fini b2) c3 b3" and "k3 < POLLER_MAX_TIME"
  shows "\<exists>g'. unload_simple_spdk_fs L e g = Inr ([], g') \<and> settled b3 (g_thread g')"
proof -
  obtain th1 where "simple_dir_close L False dir (g_thread g) = Inr th1" "settled b1 th1"
    using dir_close_done [OF assms(1,5-9)] by blast
  then show ?thesis using unload_closed [OF _ _ assms(2,3,10-13)] assms(4) by blast
qed

section \<open>Properties\<close>

text \<open>C20. The root directory survives a restart: if the super blob carries the context that closing
  the directory stored and the library reads back the entry array that was written, \<open>load_root\<close>
  yields an initialised, clean directory with the same names and the same blob ids.\<close>

theorem load_root_restores:
  assumes "idle th" and "num_clusters L (lib th) super \<noteq> 0"
    and "get_xattr L (lib th) super dir_xattr = Some (Dir_ctx (dir_persist dir))"
    and "length (dirents dir) = unat (d_size (dir_persist dir))"
    and "read_done L (lib th) super 0 (d_size (dir_persist dir)) 0 (dirents dir) b"
  shows "\<exists>root th'. load_root L e junk super th = Inr (root, th') \<and> settled b th' \<and> d_blob root = super \<and>
     d_initialized root \<and> \<not> d_dirty root \<and> dir_names root = dir_names dir \<and>
     (\<forall>i. dirent_id root i = dirent_id dir i) \<and> (\<forall>name. spdkfs_dir_lookup root name = spdkfs_dir_lookup dir name)"
proof -
  let ?root = "junk\<lparr>d_blob := super, d_has_fs := True\<rparr>"
  obtain th' where "simple_dir_read L (junk_mem e) ?root th = Inr (?root\<lparr>dir_persist := dir_persist dir,
      dirents := dirents dir, d_initialized := True, d_dirty := False\<rparr>, th')" "settled b th'"
    using dir_read_settled [of th ?root L "dir_persist dir" 0 "dirents dir" b "junk_mem e"] assms by auto
  then show ?thesis
    using assms(2) by (simp add: load_root_def Let_def dir_names_def dirent_id_def spdkfs_dir_lookup_def)
qed

theorem load_root_restores_witness:
  "\<exists>root th'. load_root (mem_lib 512 1536) example_env empty_dir 1 (idle_thread example_dir_disk) = Inr (root, th') \<and>
     dir_names root = [[97], [98, 99]]"
proof -
  let ?d = "example_dir\<lparr>dirents := example_dirents @ replicate 496 0, dir_persist := (dir_persist example_dir)\<lparr>d_size := 1536\<rparr>\<rparr>"
  have "dir_names ?d = [[97], [98, 99]]"
    by (simp add: dir_names_def example_dir_def example_dirents_def entry_name_def sizeof_dirent_def upt_rec)
  moreover have "num_clusters (mem_lib 512 1536) example_dir_disk 1 \<noteq> 0" "length (dirents ?d) = 1536"
      "get_xattr (mem_lib 512 1536) example_dir_disk 1 dir_xattr = Some (Dir_ctx (dir_persist ?d))"
    by (simp_all add: example_dir_disk_def example_dirents_def)
  ultimately show ?thesis
    using load_root_restores [of "idle_thread example_dir_disk" "mem_lib 512 1536" 1 ?d example_dir_disk example_env empty_dir]
      example_dir_read_done by fastforce
qed

text \<open>Unloading stores a dirty root directory that fits its blob, closes it, frees the I/O
  channel, unloads the blobstore and stops the subsystems, in this order and each only after the one before has
  completed. Not one DMA buffer is freed.\<close>

theorem unload_correct:
  assumes "idle (g_thread g)" and "\<not> stack_done e" and "mm_inv ub (g_mm g)" and "dir = g_root g" and "d_dirty dir"
    and "d_size (dir_persist dir) \<le> get_blob_size L (d_blob dir) (g_thread g)"
    and "write_done L (lib (g_thread g)) (d_blob dir) 0 (d_size (dir_persist dir)) (dirents dir) err b0"
    and "lib_completes L k1 (submit L (Blob_close (d_blob dir))
      (set_xattr L (d_blob dir) dir_xattr (Dir_ctx (dir_persist dir)) b0)) c1 b1" and "k1 < POLLER_MAX_TIME"
    and "lib_completes L k2 (submit L Bs_unload (free_io_channel L b1)) c2 b2" and "k2 < POLLER_MAX_TIME"
    and "lib_completes L k3 (submit L Subsystem_fini b2) c3 b3" and "k3 < POLLER_MAX_TIME"
  shows "\<exists>g'. unload_simple_spdk_fs L e g = Inr ([], g') \<and> settled b3 (g_thread g')"
  using assms by (rule unload_done)

theorem unload_correct_witness:
  "\<exists>g'. unload_simple_spdk_fs (mem_lib 512 1536) example_env
       ((example_globals example_dir_disk (example_dir\<lparr>d_dirty := True, dirents := replicate 1536 7\<rparr>))
          \<lparr>g_mm := snd (spdkfs_mm_init (\<lambda>_ _. 0) mm_start)\<rparr>) = Inr ([], g') \<and>
     bs_data (lib (g_thread g')) = [1 \<mapsto> replicate 1536 7]"
proof -
  let ?d = "example_dir\<lparr>d_dirty := True, dirents := replicate 1536 7\<rparr>"
  let ?g = "(example_globals example_dir_disk ?d)\<lparr>g_mm := snd (spdkfs_mm_init (\<lambda>_ _. 0) mm_start)\<rparr>"
  let ?disk = "example_dir_disk\<lparr>bs_data := [1 \<mapsto> replicate 1536 7]\<rparr>"
  let ?b = "set_xattr (mem_lib 512 1536) 1 dir_xattr (Dir_ctx (dir_persist example_dir)) ?disk"
  have "\<exists>g'. unload_simple_spdk_fs (mem_lib 512 1536) example_env ?g = Inr ([], g') \<and> settled ?b (g_thread g')"
    by (rule unload_correct [where dir = ?d and ub = "\<lambda>_ _. 0" and ?b0.0 = ?disk and ?b1.0 = ?b and ?b2.0 = ?b and err = 0
          and ?k1.0 = 0 and ?k2.0 = 0 and ?k3.0 = 0 and ?c1.0 = "\<lparr>bserrno = 0, c_blobid = 1, c_blob = 1, c_data = []\<rparr>"
          and ?c2.0 = "\<lparr>bserrno = 0, c_blobid = 0, c_blob = 0, c_data = []\<rparr>"
          and ?c3.0 = "\<lparr>bserrno = 0, c_blobid = 0, c_blob = 0, c_data = []\<rparr>"])
      (use example_close_write example_dir_disk_size mm_start_inv in
        \<open>simp_all add: example_dir_def example_dir_disk_def mem_empty_def answer_def\<close>)
  then show ?thesis by (auto simp: settled_def)
qed

end
