(* ===== verification/Fs_Mount.thy ===== *)
theory Fs_Mount
  imports Prelude
begin

text \<open>
  Mounting (\<^verbatim>\<open>spdk_fs/fs.c\<close>): \<open>init_spdk_filesystem\<close> starts a chain of asynchronous requests
  (load the blobstore, initialise it if that fails, find the super blob, create and register
  one if there is none, open it), each continued by the completion callback of the one before.
  The callbacks are functions on the load context; a run of the chain is a step relation.
\<close>

section \<open>State\<close>

type_synonym blob_ref = u64

datatype mount_request =
    Req_load
  | Req_init
  | Req_get_super
  | Req_create_blob
  | Req_set_super u64
  | Req_open_blob u64

datatype mount_callback =
    Init_super_block_cb
  | Get_super_complete
  | Create_super_complete
  | Set_super_complete
  | Sb_open_complete

text \<open>What a completion delivers: the error number, a blob id, a blob or blobstore handle; and what
  \<^verbatim>\<open>spdk_bs_alloc_io_channel\<close> returns when it is called.\<close>

record mount_event =
  ev_errno :: int
  ev_id :: u64
  ev_blob :: blob_ref
  ev_bs :: u64
  ev_channel :: u64

text \<open>\<^verbatim>\<open>struct bs_load_context\<close> with the file system it points to, the callback of the request that is
  outstanding, and the requests made so far, in order.\<close>

record mount =
  is_loading :: bool
  super_blob_id :: u64
  m_done :: bool
  fs_bs :: "u64 option"
  fs_io_channel :: "u64 option"
  fs_super :: "blob_ref option"
  m_waiting :: "mount_callback option"
  m_requests :: "mount_request list"

definition ENOENT :: int where "ENOENT = 2"

definition send_request :: "mount_request \<Rightarrow> mount_callback \<Rightarrow> mount \<Rightarrow> mount" where
  "send_request r cb m = m\<lparr>m_requests := m_requests m @ [r], m_waiting := Some cb\<rparr>"

section \<open>The callbacks\<close>

definition spdk_bs_sb_open_complete :: "mount_event \<Rightarrow> mount \<Rightarrow> mount" where
  "spdk_bs_sb_open_complete ev m =
     (if ev_errno ev \<noteq> 0 then m\<lparr>m_done := True\<rparr>
      else m\<lparr>fs_super := Some (ev_blob ev), m_done := True\<rparr>)"

definition spdk_bs_set_super_complete :: "mount_event \<Rightarrow> mount \<Rightarrow> mount" where
  "spdk_bs_set_super_complete ev m =
     (if ev_errno ev \<noteq> 0 then m\<lparr>m_done := True\<rparr>
      else send_request (Req_open_blob (super_blob_id m)) Sb_open_complete m)"

definition spdk_bs_create_super_complete :: "mount_event \<Rightarrow> mount \<Rightarrow> mount" where
  "spdk_bs_create_super_complete ev m =
     (if ev_errno ev \<noteq> 0 then m\<lparr>m_done := True\<rparr>
      else send_request (Req_set_super (ev_id ev)) Set_super_complete (m\<lparr>super_blob_id := ev_id ev\<rparr>))"

definition spdk_bs_get_super_complete :: "mount_event \<Rightarrow> mount \<Rightarrow> mount" where
  "spdk_bs_get_super_complete ev m =
     (if ev_errno ev \<noteq> 0 then
        if ev_errno ev = - ENOENT then send_request Req_create_blob Create_super_complete m else m
      else send_request (Req_open_blob (ev_id ev)) Sb_open_complete m)"

definition spdk_init_super_block_cb :: "mount_event \<Rightarrow> mount \<Rightarrow> mount" where
  "spdk_init_super_block_cb ev m =
     (if ev_errno ev \<noteq> 0 then
        if is_loading m then send_request Req_init Init_super_block_cb (m\<lparr>is_loading := False\<rparr>) else m
      else send_request Req_get_super Get_super_complete
             (m\<lparr>fs_bs := Some (ev_bs ev), fs_io_channel := Some (ev_channel ev)\<rparr>))"

fun run_mount_cb :: "mount_callback \<Rightarrow> mount_event \<Rightarrow> mount \<Rightarrow> mount" where
  "run_mount_cb Init_super_block_cb = spdk_init_super_block_cb"
| "run_mount_cb Get_super_complete = spdk_bs_get_super_complete"
| "run_mount_cb Create_super_complete = spdk_bs_create_super_complete"
| "run_mount_cb Set_super_complete = spdk_bs_set_super_complete"
| "run_mount_cb Sb_open_complete = spdk_bs_sb_open_complete"

text \<open>\<open>init_spdk_filesystem\<close>: \<open>rc\<close> is the result of creating the device; \<open>None\<close> is \<^verbatim>\<open>exit(-1)\<close>.
  \<open>id0\<close> is what the fresh context holds in \<^verbatim>\<open>super_blob_id\<close>.\<close>

definition init_spdk_filesystem :: "int \<Rightarrow> u64 \<Rightarrow> mount option" where
  "init_spdk_filesystem rc id0 =
     (if rc \<noteq> 0 then None
      else Some (send_request Req_load Init_super_block_cb
        \<lparr>is_loading = True, super_blob_id = id0, m_done = False, fs_bs = None, fs_io_channel = None,
         fs_super = None, m_waiting = None, m_requests = []\<rparr>))"

section \<open>Runs\<close>

definition deliver :: "mount_event \<Rightarrow> mount \<Rightarrow> mount" where
  "deliver ev m = (case m_waiting m of None \<Rightarrow> m | Some cb \<Rightarrow> run_mount_cb cb ev (m\<lparr>m_waiting := None\<rparr>))"

inductive mount_step :: "mount \<Rightarrow> mount \<Rightarrow> bool" where
  step: "m_waiting m = Some cb \<Longrightarrow> mount_step m (run_mount_cb cb ev (m\<lparr>m_waiting := None\<rparr>))"

inductive mount_reach :: "mount \<Rightarrow> bool" where
  start: "init_spdk_filesystem rc id0 = Some m \<Longrightarrow> mount_reach m"
| more: "mount_reach m \<Longrightarrow> mount_step m m' \<Longrightarrow> mount_reach m'"

inductive_cases mount_stepE: "mount_step m m'"

lemmas mount_defs = spdk_bs_sb_open_complete_def spdk_bs_set_super_complete_def
  spdk_bs_create_super_complete_def spdk_bs_get_super_complete_def spdk_init_super_block_cb_def
  send_request_def

text \<open>The requests that lead to each callback being awaited. \<open>pre\<close> is the loading phase.\<close>

definition load_prefix :: "bool \<Rightarrow> mount_request list" where
  "load_prefix loading = (if loading then [Req_load] else [Req_load, Req_init])"

fun requests_for :: "mount_callback option \<Rightarrow> mount \<Rightarrow> bool" where
  "requests_for (Some Init_super_block_cb) m \<longleftrightarrow> m_requests m = load_prefix (is_loading m)"
| "requests_for (Some Get_super_complete) m \<longleftrightarrow> m_requests m = load_prefix (is_loading m) @ [Req_get_super]"
| "requests_for (Some Create_super_complete) m \<longleftrightarrow>
     m_requests m = load_prefix (is_loading m) @ [Req_get_super, Req_create_blob]"
| "requests_for (Some Set_super_complete) m \<longleftrightarrow>
     m_requests m = load_prefix (is_loading m) @ [Req_get_super, Req_create_blob, Req_set_super (super_blob_id m)]"
| "requests_for (Some Sb_open_complete) m \<longleftrightarrow>
     (\<exists>i. m_requests m = load_prefix (is_loading m) @ [Req_get_super, Req_open_blob i]) \<or>
     m_requests m = load_prefix (is_loading m) @
       [Req_get_super, Req_create_blob, Req_set_super (super_blob_id m), Req_open_blob (super_blob_id m)]"
| "requests_for None m \<longleftrightarrow> True"

definition mount_inv :: "mount \<Rightarrow> bool" where
  "mount_inv m \<longleftrightarrow> requests_for (m_waiting m) m \<and> (m_done m \<longrightarrow> m_waiting m = None) \<and>
     (fs_super m \<noteq> None \<longrightarrow> m_done m \<and> fs_bs m \<noteq> None) \<and>
     (m_waiting m \<noteq> None \<and> m_waiting m \<noteq> Some Init_super_block_cb \<longrightarrow> fs_bs m \<noteq> None) \<and>
     length (m_requests m) \<le> 6 \<and>
     (\<exists>tail. m_requests m = load_prefix (is_loading m) @ tail \<and> Req_init \<notin> set tail \<and> Req_load \<notin> set tail)"

lemma mount_inv_step:
  assumes "mount_inv m" and "m_waiting m = Some cb"
  shows "mount_inv (run_mount_cb cb ev (m\<lparr>m_waiting := None\<rparr>))"
  using assms by (cases cb) (auto simp: mount_inv_def mount_defs load_prefix_def)

lemma mount_reach_inv: "mount_reach m \<Longrightarrow> mount_inv m"
proof (induction rule: mount_reach.induct)
  case (start rc id0 m)
  then show ?case
    by (auto simp: init_spdk_filesystem_def send_request_def mount_inv_def load_prefix_def split: if_splits)
next
  case (more m m')
  then show ?case using mount_inv_step by (auto elim: mount_stepE)
qed

lemma deliver_step: "m_waiting m \<noteq> None \<Longrightarrow> mount_step m (deliver ev m)"
  by (auto simp: deliver_def intro: mount_step.intros)

text \<open>Steps left: a request that is made and one that is awaited count.\<close>

definition mount_rank :: "mount \<Rightarrow> nat" where
  "mount_rank m = 2 * (6 - length (m_requests m)) + (if m_waiting m = None then 0 else 1)"

lemma mount_step_rank:
  assumes "mount_inv m" and "mount_step m m'"
  shows "mount_rank m' < mount_rank m"
proof -
  obtain cb ev where cb: "m_waiting m = Some cb" and m': "m' = run_mount_cb cb ev (m\<lparr>m_waiting := None\<rparr>)"
    using assms(2) by (auto elim: mount_stepE)
  have "mount_inv m'" using mount_inv_step [OF assms(1) cb] m' by simp
  then have "length (m_requests m') \<le> 6" by (simp add: mount_inv_def)
  then show ?thesis
    using cb by (cases cb) (auto simp: m' mount_defs mount_rank_def split: if_splits)
qed

section \<open>Properties\<close>

definition ev_ok :: "u64 \<Rightarrow> mount_event" where
  "ev_ok x = \<lparr>ev_errno = 0, ev_id = x, ev_blob = x, ev_bs = x, ev_channel = x\<rparr>"

definition ev_err :: "int \<Rightarrow> mount_event" where
  "ev_err e = (ev_ok 0)\<lparr>ev_errno := - e\<rparr>"


definition mounted :: "u64 \<Rightarrow> mount_event list \<Rightarrow> mount" where
  "mounted id0 evs = fold deliver evs (the (init_spdk_filesystem 0 id0))"

lemma reach_fold: "mount_reach m \<Longrightarrow> mount_reach (fold deliver evs m)"
proof (induction evs arbitrary: m)
  case (Cons ev evs)
  have "mount_reach (deliver ev m)"
    using Cons.prems deliver_step [of m ev] mount_reach.more by (cases "m_waiting m") (auto simp: deliver_def)
  then show ?case using Cons.IH by simp
qed simp

lemma reach_mounted: "mount_reach (mounted id0 evs)"
  unfolding mounted_def by (rule reach_fold, rule mount_reach.start [of 0 id0]) (simp add: init_spdk_filesystem_def)


text \<open>C27. A mount makes at most six requests and then stops: there is no infinite run of callbacks
  from a reachable state, whatever the library answers.\<close>

theorem mount_terminates:
  "wf {(m', m). mount_reach m \<and> mount_step m m'} \<and> (mount_reach m \<longrightarrow> length (m_requests m) \<le> 6)"
proof
  have "{(m', m). mount_reach m \<and> mount_step m m'} \<subseteq> measure mount_rank"
    using mount_step_rank mount_reach_inv by auto
  then show "wf {(m', m). mount_reach m \<and> mount_step m m'}"
    by (rule wf_subset [OF wf_measure])
  show "mount_reach m \<longrightarrow> length (m_requests m) \<le> 6"
    using mount_reach_inv by (simp add: mount_inv_def)
qed

theorem mount_terminates_witness: "length (m_requests (mounted 0 [ev_ok 7, ev_ok 3, ev_ok 9])) \<le> 6"
  using mount_terminates [of "mounted 0 [ev_ok 7, ev_ok 3, ev_ok 9]"] reach_mounted by blast

text \<open>The two successful mounts. On a store with a super blob: load, look the super blob up, open
  it. On a fresh device: load fails, initialise, no super blob, create one, register it, open
  it. Each ends done, with the opened handle as the super blob.\<close>

theorem mount_succeeds:
  assumes "ev_errno e1 = 0" and "ev_errno e2 = 0" and "ev_errno e3 = 0"
    and "ev_errno f1 \<noteq> 0" and "ev_errno f2 = 0" and "ev_errno f3 = - ENOENT"
    and "ev_errno f4 = 0" and "ev_errno f5 = 0" and "ev_errno f6 = 0"
  shows "(let m = mounted id0 [e1, e2, e3] in m_done m \<and> m_waiting m = None \<and> fs_super m = Some (ev_blob e3) \<and>
       fs_bs m = Some (ev_bs e1) \<and> m_requests m = [Req_load, Req_get_super, Req_open_blob (ev_id e2)]) \<and>
     (let m = mounted id0 [f1, f2, f3, f4, f5, f6] in m_done m \<and> m_waiting m = None \<and>
       fs_super m = Some (ev_blob f6) \<and> fs_bs m = Some (ev_bs f2) \<and>
       m_requests m = [Req_load, Req_init, Req_get_super, Req_create_blob, Req_set_super (ev_id f4), Req_open_blob (ev_id f4)])"
  using assms by (simp add: mounted_def init_spdk_filesystem_def deliver_def mount_defs ENOENT_def)

theorem mount_succeeds_witness:
  "fs_super (mounted 0 [ev_err 5, ev_ok 7, ev_err 2, ev_ok 3, ev_ok 0, ev_ok 9]) = Some 9"
  using mount_succeeds [of "ev_ok 0" "ev_ok 0" "ev_ok 0" "ev_err 5" "ev_ok 7" "ev_err 2" "ev_ok 3" "ev_ok 0" "ev_ok 9" 0]
  by (simp add: ev_ok_def ev_err_def ENOENT_def Let_def)

text \<open>Two failures never raise the flag: initialisation failing after a failed load, and a super
  blob lookup that fails with anything but \<open>ENOENT\<close>. Nothing is outstanding and the caller, who
  polls for the flag, waits in vain; in every other reachable state something is outstanding or
  the flag is up.\<close>

theorem mount_hangs:
  assumes "mount_reach m" and "m_waiting m = Some cb" and "m' = run_mount_cb cb ev (m\<lparr>m_waiting := None\<rparr>)"
  shows "\<not> m_done m' \<and> m_waiting m' = None \<longleftrightarrow>
     ev_errno ev \<noteq> 0 \<and> (cb = Init_super_block_cb \<and> \<not> is_loading m \<or>
                         cb = Get_super_complete \<and> ev_errno ev \<noteq> - ENOENT)"
proof -
  have "\<not> m_done m" using mount_reach_inv [OF assms(1)] assms(2) by (auto simp: mount_inv_def)
  then show ?thesis
    using assms(2,3) by (cases cb) (auto simp: mount_defs)
qed

theorem mount_hangs_witness:
  "\<not> m_done (deliver (ev_err 5) (mounted 0 [ev_ok 7])) \<and> m_waiting (deliver (ev_err 5) (mounted 0 [ev_ok 7])) = None"
proof -
  have w: "m_waiting (mounted 0 [ev_ok 7]) = Some Get_super_complete"
    by (simp add: mounted_def init_spdk_filesystem_def deliver_def mount_defs ev_ok_def)
  then have "deliver (ev_err 5) (mounted 0 [ev_ok 7]) =
      run_mount_cb Get_super_complete (ev_err 5) ((mounted 0 [ev_ok 7])\<lparr>m_waiting := None\<rparr>)"
    by (simp add: deliver_def)
  from mount_hangs [OF reach_mounted w this] show ?thesis
    by (simp add: ev_err_def ev_ok_def ENOENT_def)
qed

text \<open>A done flag does not mean a mounted file system: if opening, creating or registering the
  super blob fails, the flag goes up with no super blob recorded, and nothing tells the caller.\<close>

theorem mount_done_without_super:
  assumes "mount_reach m" and "m_waiting m \<in> {Some Sb_open_complete, Some Set_super_complete, Some Create_super_complete}"
    and "ev_errno ev \<noteq> 0"
  shows "m_done (deliver ev m) \<and> fs_super (deliver ev m) = None"
proof -
  have "fs_super m = None" using mount_reach_inv [OF assms(1)] assms(2) by (auto simp: mount_inv_def)
  then show ?thesis using assms(2,3) by (auto simp: deliver_def mount_defs)
qed

theorem mount_done_without_super_witness:
  "m_done (mounted 0 [ev_ok 7, ev_ok 3, ev_err 5]) \<and> fs_super (mounted 0 [ev_ok 7, ev_ok 3, ev_err 5]) = None"
proof -
  have "m_waiting (mounted 0 [ev_ok 7, ev_ok 3]) = Some Sb_open_complete"
    by (simp add: mounted_def init_spdk_filesystem_def deliver_def mount_defs ev_ok_def)
  then show ?thesis
    using mount_done_without_super [OF reach_mounted, of 0 "[ev_ok 7, ev_ok 3]" "ev_err 5"]
    by (simp add: mounted_def ev_err_def)
qed

end
