(* ===== verification/Contents.thy ===== *)
theory Contents
  imports Transfer_Props
begin

text \<open>
  What reads and writes do to the bytes of a file. The blobstore is still a parameter; what is
  assumed of it is the documented behaviour of a blob: an aligned write inside the blob replaces
  exactly its bytes, an aligned read returns them, other requests leave them alone. From this
  the properties follow the bytes through the file layer, the chunk loops and the shared buffer.
\<close>

section \<open>A blob that keeps its bytes\<close>

definition in_range :: "u64 \<Rightarrow> u8 list \<Rightarrow> u64 \<Rightarrow> u64 \<Rightarrow> bool" where
  "in_range u D off sz \<longleftrightarrow>
     unat u dvd unat off \<and> unat u dvd unat sz \<and> sz \<noteq> 0 \<and> unat off + unat sz \<le> length D"

definition overwrite :: "nat \<Rightarrow> u8 list \<Rightarrow> u8 list \<Rightarrow> u8 list" where
  "overwrite off bs D = take off D @ bs @ drop (off + length bs) D"

text \<open>\<open>holds b D\<close> says that the library in the state \<open>b\<close> works and stores the bytes \<open>D\<close> in the blob.\<close>

definition keeps_bytes :: "'b spdk \<Rightarrow> u64 \<Rightarrow> blob \<Rightarrow> ('b \<Rightarrow> u8 list \<Rightarrow> bool) \<Rightarrow> bool" where
  "keeps_bytes L u blb holds \<longleftrightarrow> u \<noteq> 0 \<and> (\<forall>b D. holds b D \<longrightarrow>
     io_unit_size L b = u \<and> length D < 2 ^ 63 \<and>
     unat (num_clusters L b blb * cluster_size L b) = length D \<and>
     (\<forall>v. holds (set_xattr L blb file_xattr v b) D) \<and>
     (\<forall>off sz. in_range u D off sz \<longrightarrow>
        (\<exists>b'. read_done L b blb off sz 0 (take (unat sz) (drop (unat off) D)) b' \<and> holds b' D)) \<and>
     (\<forall>off sz buf. in_range u D off sz \<and> unat sz \<le> length buf \<longrightarrow>
        (\<exists>b'. write_done L b blb off sz buf 0 b' \<and> holds b' (overwrite (unat off) (take (unat sz) buf) D))))"

lemma keeps_bytesD:
  assumes "keeps_bytes L u blb holds" and "holds b D"
  shows "u \<noteq> 0" and "io_unit_size L b = u" and "length D < 2 ^ 63"
    and "unat (num_clusters L b blb * cluster_size L b) = length D"
    and "holds (set_xattr L blb file_xattr v b) D"
    and "in_range u D off sz \<Longrightarrow>
      \<exists>b'. read_done L b blb off sz 0 (take (unat sz) (drop (unat off) D)) b' \<and> holds b' D"
    and "in_range u D off sz \<Longrightarrow> unat sz \<le> length buf \<Longrightarrow>
      \<exists>b'. write_done L b blb off sz buf 0 b' \<and> holds b' (overwrite (unat off) (take (unat sz) buf) D)"
  using assms unfolding keeps_bytes_def by blast+

text \<open>The thread is idle and the blob holds \<open>D\<close>.\<close>

definition calm :: "('b \<Rightarrow> u8 list \<Rightarrow> bool) \<Rightarrow> u8 list \<Rightarrow> 'b thread \<Rightarrow> bool" where
  "calm holds D th \<longleftrightarrow> (\<exists>b. settled b th \<and> holds b D)"

lemma calm_iff: "calm holds D th \<longleftrightarrow> idle th \<and> holds (lib th) D"
  by (auto simp: calm_def settled_def)

lemma calm_put_xattr:
  assumes "keeps_bytes L u blb holds" and "calm holds D th"
  shows "calm holds D (put_xattr L blb file_xattr v th)"
  using assms keeps_bytesD(5) [OF assms(1), of "lib th" D v] by (simp add: calm_iff)

text \<open>The context of the file is what was stored last in the blob's attribute.\<close>

definition stored :: "'b spdk \<Rightarrow> spdkfs_file \<Rightarrow> 'b thread \<Rightarrow> bool" where
  "stored L f th \<longleftrightarrow> (\<exists>b. lib th = set_xattr L (f_blob f) file_xattr (File_ctx (file_persist f)) b)"

lemma stored_put_xattr [simp]: "stored L f (put_xattr L (f_blob f) file_xattr (File_ctx (file_persist f)) th)"
  by (auto simp: stored_def)

lemma stored_pos [simp]: "stored L (f\<lparr>f_pos := p\<rparr>) th = stored L f th"
  by (simp add: stored_def)

text \<open>A blob that can grow: asked for one cluster more, the library appends a cluster of unspecified
  bytes, as long as the blob stays within \<open>cap\<close> bytes.\<close>

definition grows_bytes :: "'b spdk \<Rightarrow> u64 \<Rightarrow> nat \<Rightarrow> blob \<Rightarrow> ('b \<Rightarrow> u8 list \<Rightarrow> bool) \<Rightarrow> bool" where
  "grows_bytes L C cap blb holds \<longleftrightarrow> C \<noteq> 0 \<and> cap < 2 ^ 63 \<and> (\<forall>b D. holds b D \<longrightarrow>
     cluster_size L b = C \<and> unat (num_clusters L b blb) * unat C = length D \<and>
     (length D + unat C \<le> cap \<longrightarrow>
        (\<exists>b' junk. resize_done L b blb (num_clusters L b blb + 1) True b' \<and> length junk = unat C \<and>
           holds b' (D @ junk))))"

lemma grows_bytesD:
  assumes "grows_bytes L C cap blb holds" and "holds b D"
  shows "C \<noteq> 0" and "cap < 2 ^ 63" and "cluster_size L b = C" and "unat (num_clusters L b blb) * unat C = length D"
    and "length D + unat C \<le> cap \<Longrightarrow>
      \<exists>b' junk. resize_done L b blb (num_clusters L b blb + 1) True b' \<and> length junk = unat C \<and> holds b' (D @ junk)"
  using assms unfolding grows_bytes_def by blast+

text \<open>Room for \<open>m\<close> bytes at \<open>p\<close>, written at most \<open>k\<close> at a time: inside the blob, or with growth.\<close>

definition room ::
  "'b spdk \<Rightarrow> u64 \<Rightarrow> nat \<Rightarrow> blob \<Rightarrow> ('b \<Rightarrow> u8 list \<Rightarrow> bool) \<Rightarrow> u8 list \<Rightarrow> nat \<Rightarrow> nat \<Rightarrow> nat \<Rightarrow> bool" where
  "room L C cap blb holds D p k m \<longleftrightarrow> p + m \<le> length D \<or>
     grows_bytes L C cap blb holds \<and> p \<le> length D \<and> k \<le> unat C \<and> p + m + unat C \<le> cap"

section \<open>Overwriting\<close>

lemma length_overwrite [simp]: "off + length bs \<le> length D \<Longrightarrow> length (overwrite off bs D) = length D"
  by (simp add: overwrite_def)

lemma overwrite_Nil [simp]: "overwrite off [] D = D"
  by (simp add: overwrite_def)

lemma overwrite_read [simp]:
  "off \<le> length D \<Longrightarrow> take (length bs) (drop off (overwrite off bs D)) = bs"
  by (simp add: overwrite_def)

lemma overwrite_append: "length xs = k \<Longrightarrow> overwrite k ys (xs @ zs) = xs @ ys @ drop (length ys) zs"
  by (simp add: overwrite_def)

lemma overwrite_extend:
  assumes "p + d + n \<le> length D" and "d + n \<le> length user"
  shows "overwrite (p + d) (take n (drop d user)) (overwrite p (take d user) D) = overwrite p (take (d + n) user) D"
proof -
  have len: "length (take d user) = d" "length (take n (drop d user)) = n" "length (take (d + n) user) = d + n"
    using assms(2) by simp_all
  have "overwrite p (take d user) D = (take p D @ take d user) @ drop (p + d) D"
    using len by (simp add: overwrite_def)
  then have "overwrite (p + d) (take n (drop d user)) (overwrite p (take d user) D) =
      (take p D @ take d user) @ take n (drop d user) @ drop n (drop (p + d) D)"
    using assms(1) len by (simp only:) (subst overwrite_append, simp_all)
  then show ?thesis
    using len by (simp add: overwrite_def take_add [of d n] add.commute add.left_commute)
qed

lemma overwrite_grown: "p + length w \<le> length D \<Longrightarrow> overwrite p w D @ junk = overwrite p w (D @ junk)"
  by (simp add: overwrite_def)

lemma fill_extend:
  assumes "d + n \<le> length X" and "d + n \<le> length user"
  shows "take d (take d X @ drop d user) @ take n (drop d X) @ drop (d + n) (take d X @ drop d user) =
    take (d + n) X @ drop (d + n) user"
proof -
  have len: "length (take d X) = d" using assms(1) by simp
  then have "drop (d + n) (take d X @ drop d user) = drop (d + n) user"
    by (simp add: add.commute)
  then show ?thesis using len by (simp add: take_add add.commute)
qed

lemma put_fill:
  assumes "d + n \<le> length X" and "d + n \<le> length user"
  shows "put_bytes (take d X @ drop d user) d (take n (drop d X)) = Inr (take (d + n) X @ drop (d + n) user)"
proof -
  have "length (take n (drop d X)) = n" "length (take d X @ drop d user) = length user"
    using assms by simp_all
  then show ?thesis
    unfolding put_bytes_def using fill_extend [OF assms] assms(2) by (simp only: not_less [symmetric] if_False)
qed

section \<open>The file layer\<close>

lemma unat_add_small: "unat a + unat b < 2 ^ 64 \<Longrightarrow> unat (a + b :: u64) = unat a + unat b"
  by (rule unat_small_sum)

lemma file_read_bytes:
  assumes "keeps_bytes L u (f_blob f) holds" and "calm holds D th"
    and "in_range u D (f_pos f) sz" and "512 dvd unat u"
    and "unat (f_pos f) + unat sz \<le> unat (f_size (file_persist f))" and "unat sz \<le> length buf"
  shows "\<exists>th'. simple_fs_read L f sz buf th = Inr (sz, f\<lparr>f_pos := f_pos f + sz\<rparr>,
      take (unat sz) (drop (unat (f_pos f)) D) @ drop (unat sz) buf, th') \<and> calm holds D th' \<and> stored L f th'"
proof -
  have h: "idle th" "holds (lib th) D" using assms(2) by (simp_all add: calm_iff)
  have r: "unat (f_pos f) + unat sz \<le> length D" "unat u dvd unat sz" using assms(3) by (simp_all add: in_range_def)
  obtain b' where b': "read_done L (lib th) (f_blob f) (f_pos f) sz 0 (take (unat sz) (drop (unat (f_pos f)) D)) b'"
      "holds b' D"
    using keeps_bytesD(6) [OF assms(1) h(2) assms(3)] by blast
  have len: "length (take (unat sz) (drop (unat (f_pos f)) D)) = unat sz" using r(1) by simp
  obtain th1 where io: "generic_blob_io L (f_blob f) sz (f_pos f) buf True th =
      Inr (True, take (unat sz) (drop (unat (f_pos f)) D) @ drop (unat sz) buf, th1)" "settled b' th1"
    using blob_read_done [OF h(1) b'(1), of buf] assms(6) len by auto
  have "512 dvd unat sz" using dvd_trans [OF assms(4) r(2)] .
  then have m: "sz mod 512 = 0" by (simp add: word_unat_eq_iff unat_mod)
  have "unat (f_size (file_persist f)) < 2 ^ 64" using unsigned_less [of "f_size (file_persist f)"] by simp
  then have "unat (f_pos f + sz) = unat (f_pos f) + unat sz"
    using assms(5) by (intro unat_add_small) simp
  then have "\<not> f_size (file_persist f) < f_pos f + sz" using assms(5) by (simp add: word_less_nat_alt)
  then show ?thesis
    using m io b'(2) calm_put_xattr [OF assms(1), of D th1]
    by (auto simp: simple_fs_read_def calm_def)
qed

lemma file_write_inside:
  assumes "keeps_bytes L u (f_blob f) holds" and "calm holds D th"
    and "in_range u D (f_pos f) sz" and "unat sz \<le> length buf"
  shows "\<exists>f' th'. simple_fs_write L f sz buf th = Inr (sz, f', buf, th') \<and>
      calm holds (overwrite (unat (f_pos f)) (take (unat sz) buf) D) th' \<and> stored L f' th'"
proof -
  have h: "idle th" "holds (lib th) D" using assms(2) by (simp_all add: calm_iff)
  have r: "unat (f_pos f) + unat sz \<le> length D" using assms(3) by (simp add: in_range_def)
  obtain b' where b': "write_done L (lib th) (f_blob f) (f_pos f) sz buf 0 b'"
      "holds b' (overwrite (unat (f_pos f)) (take (unat sz) buf) D)"
    using keeps_bytesD(7) [OF assms(1) h(2) assms(3,4)] by blast
  have "unat (f_pos f + sz) = unat (f_pos f) + unat sz"
    using r keeps_bytesD(3) [OF assms(1) h(2)] by (intro unat_add_small) simp
  then have "f_pos f + sz \<le> get_blob_size L (f_blob f) th"
    using r keeps_bytesD(4) [OF assms(1) h(2)] by (simp add: get_blob_size_def word_le_nat_alt)
  from write_no_growth [OF h(1) this b'(1)] obtain th' where
    w: "simple_fs_write L f sz buf th = Inr (sz, (write_persist f)\<lparr>f_pos := f_pos f + sz\<rparr>, buf,
       put_xattr L (f_blob f) file_xattr (File_ctx (file_persist (write_persist f))) th')" "settled b' th'"
    by auto
  then have "calm holds (overwrite (unat (f_pos f)) (take (unat sz) buf) D) th'"
    using b'(2) by (auto simp: calm_def)
  from calm_put_xattr [OF assms(1) this] show ?thesis
    using w(1) by (auto simp: stored_def)
qed

lemma file_write_growing:
  assumes "keeps_bytes L u (f_blob f) holds" and "calm holds D th" and "grows_bytes L C cap (f_blob f) holds"
    and "length D < unat (f_pos f) + unat sz" and "unat (f_pos f) + unat sz \<le> length D + unat C"
    and "length D + unat C \<le> cap"
    and "unat u dvd unat (f_pos f)" and "unat u dvd unat sz" and "sz \<noteq> 0" and "unat sz \<le> length buf"
  shows "\<exists>f' th' junk. simple_fs_write L f sz buf th = Inr (sz, f', buf, th') \<and> length junk = unat C \<and>
      calm holds (overwrite (unat (f_pos f)) (take (unat sz) buf) (D @ junk)) th' \<and> stored L f' th'"
proof -
  have h: "idle th" "holds (lib th) D" using assms(2) by (simp_all add: calm_iff)
  note g = grows_bytesD [OF assms(3) h(2)]
  let ?n = "num_clusters L (lib th) (f_blob f)"
  obtain b1 junk where b1: "resize_done L (lib th) (f_blob f) (?n + 1) True b1" "length junk = unat C" "holds b1 (D @ junk)"
    using g(5) [OF assms(6)] by blast
  have "in_range u (D @ junk) (f_pos f) sz"
    using assms(5,7-9) b1(2) by (simp add: in_range_def)
  from keeps_bytesD(7) [OF assms(1) b1(3) this assms(10)] obtain b' where
    b': "write_done L b1 (f_blob f) (f_pos f) sz buf 0 b'"
      "holds b' (overwrite (unat (f_pos f)) (take (unat sz) buf) (D @ junk))" by blast
  have "unat (f_pos f + sz) = unat (f_pos f) + unat sz"
    using assms(5,6) g(2) by (intro unat_add_small) simp
  moreover have "unat (?n * C) = length D" using keeps_bytesD(4) [OF assms(1) h(2)] g(3) by simp
  ultimately have "?n * C < f_pos f + sz" using assms(4) by (simp add: word_less_nat_alt)
  moreover have "(unat ?n + 1) * unat C < 2 ^ 64" using g(2,4) assms(6) by (simp add: algebra_simps)
  ultimately obtain f' th' where w: "simple_fs_write L f sz buf th = Inr (sz, f', buf, th')"
      "settled (set_xattr L (f_blob f) file_xattr (File_ctx (file_persist f')) b') th'"
    using file_write_grows [OF h(1) g(3) [symmetric] refl _ g(1) _ b1(1) b'(1)] by auto
  then have "calm holds (overwrite (unat (f_pos f)) (take (unat sz) buf) (D @ junk)) th'"
    using keeps_bytesD(5) [OF assms(1) b'(2)] by (auto simp: calm_def)
  moreover have "stored L f' th'" using w write_result(2) [OF w(1)] by (auto simp: stored_def settled_def)
  ultimately show ?thesis using w(1) b1(2) by blast
qed

text \<open>A write with room for it: the bytes, the position, and the recorded size, which becomes the
  larger of what it was and the position before the write.\<close>

lemma file_write_bytes:
  assumes "keeps_bytes L u (f_blob f) holds" and "calm holds D th"
    and "unat u dvd unat (f_pos f)" and "unat u dvd unat sz" and "sz \<noteq> 0" and "unat sz \<le> length buf"
    and "room L C cap (f_blob f) holds D (unat (f_pos f)) (unat sz) (unat sz)"
  shows "\<exists>f' th' junk. simple_fs_write L f sz buf th = Inr (sz, f', buf, th') \<and>
      f_blob f' = f_blob f \<and> f_pos f' = f_pos f + sz \<and>
      f_size (file_persist f') = max (f_size (file_persist f)) (f_pos f) \<and>
      (unat (f_pos f) + unat sz \<le> length D \<longrightarrow> junk = []) \<and>
      unat (f_pos f) + unat sz \<le> length D + length junk \<and>
      calm holds (overwrite (unat (f_pos f)) (take (unat sz) buf) (D @ junk)) th' \<and> stored L f' th'"
proof -
  have "\<exists>f' th' junk. simple_fs_write L f sz buf th = Inr (sz, f', buf, th') \<and>
      (unat (f_pos f) + unat sz \<le> length D \<longrightarrow> junk = []) \<and>
      unat (f_pos f) + unat sz \<le> length D + length junk \<and>
      calm holds (overwrite (unat (f_pos f)) (take (unat sz) buf) (D @ junk)) th' \<and> stored L f' th'"
  proof (cases "unat (f_pos f) + unat sz \<le> length D")
    case True
    then show ?thesis
      using file_write_inside [OF assms(1,2) _ assms(6)] assms(3-5) by (fastforce simp: in_range_def)
  next
    case False
    then have "grows_bytes L C cap (f_blob f) holds" "unat (f_pos f) + unat sz \<le> length D + unat C"
        "length D + unat C \<le> cap"
      using assms(7) by (auto simp: room_def)
    then show ?thesis
      using file_write_growing [OF assms(1,2) _ _ _ _ assms(3-6)] False by (metis linorder_not_le)
  qed
  then obtain f' th' junk where w: "simple_fs_write L f sz buf th = Inr (sz, f', buf, th')"
      "unat (f_pos f) + unat sz \<le> length D \<longrightarrow> junk = []" "unat (f_pos f) + unat sz \<le> length D + length junk"
      "calm holds (overwrite (unat (f_pos f)) (take (unat sz) buf) (D @ junk)) th'" "stored L f' th'" by blast
  then show ?thesis using write_result [OF w(1)] assms(5) by blast
qed

section \<open>The chunk loop\<close>

text \<open>A loop whose bodies transfer everything until \<open>tot\<close> bytes are done, and then nothing. \<open>I d\<close> is
  what holds of the state when the first \<open>d\<close> bytes are done.\<close>

lemma chunk_loop_partial:
  assumes "amount \<noteq> 0" and "bufsz \<noteq> 0" and "unat bufsz < 2 ^ 31"
    and "tot \<le> unat amount" and "tot = unat amount \<or> unat bufsz dvd tot"
    and step: "\<And>d n s. I d s \<Longrightarrow> d + unat n \<le> tot \<Longrightarrow> n \<noteq> 0 \<Longrightarrow> n \<le> bufsz \<Longrightarrow> unat bufsz dvd d \<Longrightarrow>
        n = bufsz \<or> d + unat n = unat amount \<Longrightarrow>
        \<exists>s'. body n (of_nat d) s = Inr (n, s') \<and> I (d + unat n) s'"
    and stop: "\<And>n s. I tot s \<Longrightarrow> n \<noteq> 0 \<Longrightarrow> unat n = min (unat bufsz) (unat amount - tot) \<Longrightarrow>
        \<exists>s'. body n (of_nat tot) s = Inr (0, s') \<and> I tot s'"
    and "I (min tot (i * unat bufsz)) s" and "i \<le> unat (upper_div amount bufsz)"
    and "tot = unat amount \<or> i * unat bufsz \<le> tot"
  shows "\<exists>s'. chunk_loop body bufsz amount i (of_nat (min tot (i * unat bufsz))) s = Inr (of_nat tot, s') \<and> I tot s'"
  using assms(8-10)
proof (induction "unat (upper_div amount bufsz) - i" arbitrary: i s)
  case 0
  have "unat amount \<le> unat (upper_div amount bufsz) * unat bufsz"
    using assms(1,2) by (intro upper_div_covers(1)) (simp_all add: unat_gt_0)
  moreover have "i = unat (upper_div amount bufsz)" using 0 by simp
  ultimately have "min tot (i * unat bufsz) = tot" using assms(4) by simp
  then show ?case
    using 0 by (simp add: chunk_loop.simps [of _ _ _ i])
next
  case (Suc k)
  let ?b = "unat bufsz" and ?m = "unat amount"
  define n where "n = min bufsz (amount - of_nat i * bufsz)"
  have i: "i < unat (upper_div amount bufsz)" using Suc.hyps(2) by simp
  have cs: "c_int n = n" "unat n = min ?b (?m - i * ?b)" "i * ?b < ?m"
    using read_loop.chunk_size [OF assms(1-3) i] by (simp_all add: n_def)
  have pos: "0 < ?b" using assms(2) by (simp add: unat_gt_0)
  have n0: "n \<noteq> 0" using cs(2,3) pos by (auto simp: word_unat_eq_iff)
  have le: "n \<le> bufsz" using cs(2) by (simp add: word_le_nat_alt)
  have d: "min tot (i * ?b) = i * ?b" using cs(3) Suc.prems(3) by auto
  have off: "of_nat (i * ?b) = (of_nat i * bufsz :: u64)" by simp
  show ?case
  proof (cases "i * ?b = tot")
    case True
    then obtain s' where "body n (of_nat tot) s = Inr (0, s')" "I tot s'"
      using stop [OF _ n0, of s] Suc.prems(1) cs(2) by auto
    then show ?thesis
      using i cs(1) True off d
      by (subst chunk_loop.simps) (simp add: n_def [symmetric] c_int_0 del: of_nat_mult min_def)
  next
    case False
    have lt: "i * ?b < tot" using False cs(3) Suc.prems(3) by auto
    have fin: "n = bufsz \<or> i * ?b + unat n = ?m"
      using cs(2,3) by (auto simp: word_unat_eq_iff min_def split: if_splits)
    have whole: "tot = ?m \<or> Suc i * ?b \<le> tot"
      using assms(5) lt by (metis dvd_triv_right less_imp_Suc_add dvd_def mult.commute mult_less_cancel1 Suc_leI mult_le_mono1)
    then have sum_le: "i * ?b + unat n \<le> tot" using cs(2,3) by auto
    obtain s1 where s1: "body n (of_nat (i * ?b)) s = Inr (n, s1)" "I (i * ?b + unat n) s1"
      using step [OF _ sum_le n0 le dvd_triv_right fin, of s] Suc.prems(1) d by auto
    have next_d: "i * ?b + unat n = min tot (Suc i * ?b)" using cs(2,3) whole assms(4) by (auto simp: min_def)
    have acc: "of_nat (i * ?b) + n = (of_nat (i * ?b + unat n) :: u64)" by simp
    obtain s' where "chunk_loop body bufsz amount (Suc i) (of_nat (min tot (Suc i * ?b))) s1 = Inr (of_nat tot, s')"
        "I tot s'"
      using Suc.hyps(1) [of "Suc i" s1] Suc.hyps(2) s1(2) next_d i whole by fastforce
    then show ?thesis
      using i s1(1) cs(1) n0 acc next_d d
      by (subst chunk_loop.simps) (simp add: n_def [symmetric] off del: of_nat_mult of_nat_add min_def)
  qed
qed

text \<open>All the bodies transfer everything.\<close>

lemma chunk_loop_total:
  assumes "amount \<noteq> 0" and "bufsz \<noteq> 0" and "unat bufsz < 2 ^ 31"
    and step: "\<And>d n s. I d s \<Longrightarrow> d + unat n \<le> unat amount \<Longrightarrow> n \<noteq> 0 \<Longrightarrow> n \<le> bufsz \<Longrightarrow> unat bufsz dvd d \<Longrightarrow>
        n = bufsz \<or> d + unat n = unat amount \<Longrightarrow>
        \<exists>s'. body n (of_nat d) s = Inr (n, s') \<and> I (d + unat n) s'"
    and "I 0 s"
  shows "\<exists>s'. chunk_loop body bufsz amount 0 0 s = Inr (amount, s') \<and> I (unat amount) s'"
proof -
  have no: "unat n = 0" if "unat n = min (unat bufsz) (unat amount - unat amount)" for n :: u64 using that by simp
  show ?thesis
    using chunk_loop_partial [OF assms(1-3) order_refl disjI1 [OF refl], of I body 0 s] step assms(5) no
    by (simp add: unat_eq_0)
qed

section \<open>The bodies\<close>

text \<open>A transfer of \<open>amount\<close> bytes at the position of \<open>f\<close> that is aligned and inside the user's memory;
  \<open>b\<close> is the size of the shared buffer. It fits when it is inside the blob as well.\<close>

definition lined_up :: "u64 \<Rightarrow> nat \<Rightarrow> spdkfs_file \<Rightarrow> u64 \<Rightarrow> u8 list \<Rightarrow> bool" where
  "lined_up u b f amount user \<longleftrightarrow>
     unat u dvd b \<and> unat u dvd unat (f_pos f) \<and> unat u dvd unat amount \<and> unat amount \<le> length user"

definition fits :: "u64 \<Rightarrow> nat \<Rightarrow> spdkfs_file \<Rightarrow> u8 list \<Rightarrow> u64 \<Rightarrow> u8 list \<Rightarrow> bool" where
  "fits u b f D amount user \<longleftrightarrow> unat u dvd b \<and> unat u dvd unat (f_pos f) \<and> unat u dvd unat amount \<and>
     unat (f_pos f) + unat amount \<le> length D \<and> unat amount \<le> length user"

lemma fits_iff: "fits u b f D amount user \<longleftrightarrow> lined_up u b f amount user \<and> unat (f_pos f) + unat amount \<le> length D"
  by (auto simp: fits_def lined_up_def)

text \<open>How much of a read of \<open>m\<close> bytes in pieces of \<open>k\<close> is served when \<open>avail\<close> bytes are left before
  the recorded end: all of it, or the pieces that end before it.\<close>

definition served :: "nat \<Rightarrow> nat \<Rightarrow> nat \<Rightarrow> nat" where
  "served k m avail = (if m \<le> avail then m else avail div k * k)"

text \<open>The recorded size after \<open>m\<close> bytes are written at \<open>p\<close> in pieces of \<open>k\<close>: each piece raises it to
  where the piece began.\<close>

definition recorded :: "nat \<Rightarrow> nat \<Rightarrow> nat \<Rightarrow> nat \<Rightarrow> nat" where
  "recorded old p k m = (if m = 0 then old else max old (p + (m - 1) div k * k))"

lemma served_le: "served k m avail \<le> m" "served k m avail \<le> avail"
proof -
  have "avail div k * k \<le> avail" by simp
  then show "served k m avail \<le> m" "served k m avail \<le> avail"
    unfolding served_def by (simp_all del: div_times_less_eq_dividend)
qed

lemma served_whole: "k dvd served k m avail \<or> served k m avail = m"
  by (simp add: served_def)

lemma served_stop: "served k m avail < m \<Longrightarrow> 0 < k \<Longrightarrow> avail < served k m avail + min k (m - served k m avail)"
  using dividend_less_times_div [of k avail] by (auto simp: served_def mult.commute min_def split: if_splits)

lemma recorded_piece:
  assumes "k dvd d" and "0 < n" and "n \<le> k"
  shows "recorded old p k (d + n) = max (recorded old p k d) (p + d)"
proof -
  obtain j where j: "d = j * k" using assms(1) by (metis dvd_def mult.commute)
  have "(d + n - 1) div k = j" using assms(2,3) j by (intro div_nat_eqI) (auto simp: algebra_simps)
  then have e: "(d + n - 1) div k * k = d" using j by simp
  have "(d - 1) div k * k \<le> d - 1" by (rule div_times_less_eq_dividend)
  moreover obtain q where "(d - 1) div k * k = q" by blast
  ultimately have q: "(d - 1) div k * k = q" "q \<le> d" by linarith+
  show ?thesis unfolding recorded_def e q(1) using q(2) assms(2) by (auto simp: max_def)
qed

lemma recorded_ge: "old \<le> recorded old p k m"
  by (simp add: recorded_def)

lemma recorded_le: "recorded old p k m \<le> max old (p + m)"
proof -
  have "(m - 1) div k * k \<le> m - 1" by (rule div_times_less_eq_dividend)
  moreover obtain q where "(m - 1) div k * k = q" by blast
  ultimately have q: "(m - 1) div k * k = q" "q \<le> m" by linarith+
  show ?thesis unfolding recorded_def q(1) using q(2) by auto
qed

lemma recorded_once: "0 < m \<Longrightarrow> recorded old p m m = max old p"
  by (simp add: recorded_def)

definition read_so_far ::
  "'b spdk \<Rightarrow> ('b \<Rightarrow> u8 list \<Rightarrow> bool) \<Rightarrow> nat \<Rightarrow> spdkfs_file \<Rightarrow> u8 list \<Rightarrow> u8 list \<Rightarrow> 'b thread \<Rightarrow> nat \<Rightarrow> 'b transfer \<Rightarrow> bool"
where
  "read_so_far L holds b f D user th d s \<longleftrightarrow>
     t_file s = f\<lparr>f_pos := f_pos f + of_nat d\<rparr> \<and> t_user s = take d (drop (unat (f_pos f)) D) @ drop d user \<and>
     length (t_buffer s) = b \<and> calm holds D (t_thread s) \<and>
     (if d = 0 then t_thread s = th else stored L f (t_thread s))"

definition written_so_far ::
  "'b spdk \<Rightarrow> ('b \<Rightarrow> u8 list \<Rightarrow> bool) \<Rightarrow> nat \<Rightarrow> spdkfs_file \<Rightarrow> u8 list \<Rightarrow> nat \<Rightarrow> u8 list \<Rightarrow> nat \<Rightarrow> 'b transfer \<Rightarrow> bool"
where
  "written_so_far L holds b f D m user d s \<longleftrightarrow>
     f_blob (t_file s) = f_blob f \<and> f_pos (t_file s) = f_pos f + of_nat d \<and>
     unat (f_size (file_persist (t_file s))) = recorded (unat (f_size (file_persist f))) (unat (f_pos f)) b d \<and>
     t_user s = user \<and> length (t_buffer s) = b \<and> (d \<noteq> 0 \<longrightarrow> stored L (t_file s) (t_thread s)) \<and>
     (\<exists>junk. (unat (f_pos f) + m \<le> length D \<longrightarrow> junk = []) \<and> unat (f_pos f) + d \<le> length D + length junk \<and>
        calm holds (overwrite (unat (f_pos f)) (take d user) (D @ junk)) (t_thread s))"

lemma chunk_aligned:
  assumes "unat u dvd b" and "unat u dvd unat amount" and "b dvd d" and "unat n = b \<or> d + unat n = unat amount"
  shows "unat u dvd d" and "unat u dvd unat n"
proof -
  show ud: "unat u dvd d" by (rule dvd_trans [OF assms(1,3)])
  show "unat u dvd unat n"
    using assms(4)
  proof
    assume "d + unat n = unat amount"
    then have "unat n = unat amount - d" by simp
    then show ?thesis using dvd_diff_nat [OF assms(2) ud] by simp
  qed (use assms(1) in simp)
qed

lemma chunk_pos:
  assumes "unat (f_pos f) + d < 2 ^ 64"
  shows "unat (f_pos f + of_nat d) = unat (f_pos f) + d" and "unat (of_nat d :: u64) = d"
proof -
  show d: "unat (of_nat d :: u64) = d" using assms by (simp add: unsigned_of_nat take_bit_nat_eq_self)
  show "unat (f_pos f + of_nat d) = unat (f_pos f) + d"
    using unat_add_small [of "f_pos f" "of_nat d"] d assms by simp
qed

lemma read_chunk_intro:
  assumes "simple_fs_read L (t_file s) n (t_buffer s) (t_thread s) = Inr (n, f', buf, th)" and "c_int n = n" and "n \<noteq> 0"
    and "get_bytes buf 0 (unat n) = Inr bs" and "put_bytes (t_user s) (unat off) bs = Inr user'"
  shows "read_chunk L n off s = Inr (n, s\<lparr>t_file := f', t_buffer := buf, t_thread := th, t_user := user'\<rparr>)"
  using assms by (simp add: read_chunk_def)

lemma write_chunk_intro:
  assumes "get_bytes (t_user s) (unat off) (unat n) = Inr bs" and "put_bytes (t_buffer s) 0 bs = Inr buf"
    and "simple_fs_write L (t_file s) n buf (t_thread s) = Inr (n, f', buf', th)" and "c_int n = n" and "n \<noteq> 0"
    and "get_bytes buf' 0 (unat n) = Inr bs'" and "put_bytes (t_user s) (unat off) bs' = Inr user'"
  shows "write_chunk L n off s = Inr (n, s\<lparr>t_file := f', t_buffer := buf', t_thread := th, t_user := user'\<rparr>)"
  using assms by (simp add: write_chunk_def)

lemma read_body:
  assumes "keeps_bytes L u (f_blob f) holds" and "512 dvd unat u" and "lined_up u b f amount user"
    and "unat (f_pos f) + (d + unat n) \<le> unat (f_size (file_persist f))"
    and "unat (f_pos f) + (d + unat n) \<le> length D" and "length D < 2 ^ 63"
    and "read_so_far L holds b f D user th0 d s" and "d + unat n \<le> unat amount" and "n \<noteq> 0" and "b < 2 ^ 31"
    and "unat n \<le> b" and "b dvd d" and "unat n = b \<or> d + unat n = unat amount"
  shows "\<exists>s'. read_chunk L n (of_nat d) s = Inr (n, s') \<and> read_so_far L holds b f D user th0 (d + unat n) s'"
proof -
  let ?X = "drop (unat (f_pos f)) D" and ?f = "f\<lparr>f_pos := f_pos f + of_nat d\<rparr>"
  have al: "unat u dvd b" "unat u dvd unat (f_pos f)" "unat u dvd unat amount" "unat amount \<le> length user"
    using assms(3) by (simp_all add: lined_up_def)
  note ud = chunk_aligned [OF al(1,3) assms(12,13)]
  have "unat (f_pos f) + d < 2 ^ 64" using assms(5,6) by simp
  note r = chunk_pos [OF this]
  have s: "t_file s = ?f" "t_user s = take d ?X @ drop d user" "length (t_buffer s) = b" "calm holds D (t_thread s)"
    using assms(7) by (simp_all add: read_so_far_def)
  have len: "d + unat n \<le> length ?X" "d + unat n \<le> length user"
    using assms(5,8) al(4) by simp_all
  have "in_range u D (f_pos f + of_nat d) n"
    using r(1) ud al(2) assms(5,9) by (simp add: in_range_def)
  then obtain th where rd: "simple_fs_read L ?f n (t_buffer s) (t_thread s) =
      Inr (n, f\<lparr>f_pos := f_pos f + of_nat d + n\<rparr>, take (unat n) (drop d ?X) @ drop (unat n) (t_buffer s), th)"
      "calm holds D th" "stored L f th"
    using file_read_bytes [of L u ?f holds D "t_thread s" n "t_buffer s"] assms(1,2,4,11) s(3,4) r(1)
    by (auto simp: add.commute add.left_commute)
  have cn: "c_int n = n" using assms(10,11) by (intro c_int_small) simp
  have "length (take (unat n) (drop d ?X)) = unat n" using len(1) by simp
  then have gb: "get_bytes (take (unat n) (drop d ?X) @ drop (unat n) (t_buffer s)) 0 (unat n) = Inr (take (unat n) (drop d ?X))"
    and pb: "put_bytes (t_user s) (unat (of_nat d :: u64)) (take (unat n) (drop d ?X)) =
      Inr (take (d + unat n) ?X @ drop (d + unat n) user)"
    using put_fill [OF len] s(2) r(2) by (simp_all add: get_bytes_def)
  have "read_chunk L n (of_nat d) s = Inr (n, s\<lparr>t_file := f\<lparr>f_pos := f_pos f + of_nat d + n\<rparr>,
      t_buffer := take (unat n) (drop d ?X) @ drop (unat n) (t_buffer s), t_thread := th,
      t_user := take (d + unat n) ?X @ drop (d + unat n) user\<rparr>)"
    by (rule read_chunk_intro [OF _ cn assms(9) gb pb]) (simp only: s(1) rd(1))
  moreover have "0 < unat n" using assms(9) by (simp add: unat_gt_0)
  ultimately show ?thesis
    using rd(2,3) s(3) assms(11) len(1) by (simp add: read_so_far_def add.assoc)
qed

text \<open>A read that ends beyond the recorded size.\<close>

lemma file_read_beyond:
  assumes "512 dvd unat sz" and "unat (f_size (file_persist f)) < unat (f_pos f) + unat sz"
    and "unat (f_pos f) + unat sz < 2 ^ 64"
  shows "simple_fs_read L f sz buf th = Inr (0, f, buf, th)"
proof -
  have "sz mod 512 = 0" using assms(1) by (simp add: word_unat_eq_iff unat_mod)
  moreover have "f_size (file_persist f) < f_pos f + sz"
    using assms(2,3) unat_add_small [of "f_pos f" sz] by (simp add: word_less_nat_alt)
  ultimately show ?thesis by (simp add: simple_fs_read_def)
qed

lemma read_stop:
  assumes "512 dvd unat u" and "lined_up u b f amount user" and "read_so_far L holds b f D user th0 d s" and "b dvd d"
    and "unat n = b \<or> d + unat n = unat amount"
    and "unat (f_size (file_persist f)) < unat (f_pos f) + (d + unat n)" and "unat (f_pos f) + (d + unat n) < 2 ^ 64"
  shows "\<exists>s'. read_chunk L n (of_nat d) s = Inr (0, s') \<and> read_so_far L holds b f D user th0 d s'"
proof -
  have al: "unat u dvd b" "unat u dvd unat amount" using assms(2) by (simp_all add: lined_up_def)
  have "512 dvd unat n" by (rule dvd_trans [OF assms(1) chunk_aligned(2) [OF al assms(4,5)]])
  moreover have "unat (f_pos f) + d < 2 ^ 64" using assms(7) by simp
  note p = chunk_pos [OF this]
  ultimately have "simple_fs_read L (t_file s) n (t_buffer s) (t_thread s) = Inr (0, t_file s, t_buffer s, t_thread s)"
    using assms(3,6,7) p(1) by (intro file_read_beyond) (simp_all add: read_so_far_def add.assoc)
  then show ?thesis using assms(3) by (simp add: read_chunk_def c_int_0)
qed

lemma write_body:
  assumes "keeps_bytes L u (f_blob f) holds" and "lined_up u b f amount user"
    and "room L C cap (f_blob f) holds D (unat (f_pos f)) (min b (unat amount)) (unat amount)"
    and "unat (f_pos f) + unat amount < 2 ^ 63"
    and "written_so_far L holds b f D (unat amount) user d s" and "d + unat n \<le> unat amount" and "n \<noteq> 0" and "b < 2 ^ 31"
    and "unat n \<le> b" and "b dvd d" and "unat n = b \<or> d + unat n = unat amount"
  shows "\<exists>s'. write_chunk L n (of_nat d) s = Inr (n, s') \<and> written_so_far L holds b f D (unat amount) user (d + unat n) s'"
proof -
  let ?p = "unat (f_pos f)"
  have al: "unat u dvd b" "unat u dvd ?p" "unat u dvd unat amount" "unat amount \<le> length user"
    using assms(2) by (simp_all add: lined_up_def)
  note ud = chunk_aligned [OF al(1,3) assms(10,11)]
  have "?p + d < 2 ^ 64" using assms(4,6) by simp
  note r = chunk_pos [OF this]
  have s: "f_blob (t_file s) = f_blob f" "f_pos (t_file s) = f_pos f + of_nat d" "t_user s = user"
      "unat (f_size (file_persist (t_file s))) = recorded (unat (f_size (file_persist f))) ?p b d"
      "length (t_buffer s) = b"
    using assms(5) by (simp_all add: written_so_far_def)
  obtain junk where j: "?p + unat amount \<le> length D \<longrightarrow> junk = []" "?p + d \<le> length (D @ junk)"
      "calm holds (overwrite ?p (take d user) (D @ junk)) (t_thread s)"
    using assms(5) by (auto simp: written_so_far_def)
  let ?D = "overwrite ?p (take d user) (D @ junk)"
  have len: "d + unat n \<le> length user" using al(4) assms(6) by simp
  have lD: "length ?D = length (D @ junk)" using len j(2) by (intro length_overwrite) simp
  define buf where "buf = take (unat n) (drop d user) @ drop (unat n) (t_buffer s)"
  have buf: "take (unat n) buf = take (unat n) (drop d user)" "unat n \<le> length buf" "length buf = b"
    using len s(5) assms(9) by (simp_all add: buf_def)
  have rm: "room L C cap (f_blob (t_file s)) holds ?D (unat (f_pos (t_file s))) (unat n) (unat n)"
    using assms(3,6,9) j(1,2) lD s(1,2) r(1) by (auto simp: room_def)
  have ap: "unat u dvd unat (f_pos (t_file s))" using al(2) ud(1) s(2) r(1) by simp
  obtain f' th junk' where w: "simple_fs_write L (t_file s) n buf (t_thread s) = Inr (n, f', buf, th)"
      "f_blob f' = f_blob f" "f_pos f' = f_pos f + of_nat d + n"
      "f_size (file_persist f') = max (f_size (file_persist (t_file s))) (f_pos f + of_nat d)"
      "?p + d + unat n \<le> length (D @ junk) \<longrightarrow> junk' = []" "?p + d + unat n \<le> length (D @ junk) + length junk'"
      "calm holds (overwrite (?p + d) (take (unat n) (drop d user)) (?D @ junk')) th" "stored L f' th"
    using file_write_bytes [of L u "t_file s" holds ?D "t_thread s" n buf C cap, OF _ j(3) ap ud(2) assms(7) buf(2) rm]
      assms(1) s(1,2) buf(1) r(1) lD by auto
  have "?D @ junk' = overwrite ?p (take d user) (D @ junk @ junk')"
    using overwrite_grown [of ?p "take d user" "D @ junk" junk'] j(2) by simp
  then have new: "calm holds (overwrite ?p (take (d + unat n) user) (D @ junk @ junk')) th"
    using w(7) overwrite_extend [of ?p d "unat n" "D @ junk @ junk'" user] w(6) len by simp
  have "unat (max (f_size (file_persist (t_file s))) (f_pos f + of_nat d)) =
      max (unat (f_size (file_persist (t_file s)))) (?p + d)"
    using r(1) by (auto simp: max_def word_le_nat_alt)
  then have size: "unat (f_size (file_persist f')) = recorded (unat (f_size (file_persist f))) ?p b (d + unat n)"
    using w(4) s(4) recorded_piece [OF assms(10) _ assms(9)] assms(7) by (simp add: unat_gt_0)
  have cn: "c_int n = n" using assms(8,9) by (intro c_int_small) simp
  have same: "take d user @ take (unat n) (drop d user) @ drop (d + unat n) user = user"
    using append_take_drop_id [of "d + unat n" user] by (simp add: take_add)
  have bl: "length (take (unat n) (drop d user)) = unat n" using len by simp
  then have g1: "get_bytes (t_user s) (unat (of_nat d :: u64)) (unat n) = Inr (take (unat n) (drop d user))"
    and p1: "put_bytes (t_buffer s) 0 (take (unat n) (drop d user)) = Inr buf"
    and g2: "get_bytes buf 0 (unat n) = Inr (take (unat n) (drop d user))"
    and p2: "put_bytes (t_user s) (unat (of_nat d :: u64)) (take (unat n) (drop d user)) = Inr user"
    using len s(3,5) buf(1,2) assms(9) same r(2) by (simp_all add: get_bytes_def put_bytes_def buf_def)
  have wc: "write_chunk L n (of_nat d) s = Inr (n, s\<lparr>t_file := f', t_buffer := buf, t_thread := th, t_user := user\<rparr>)"
    by (rule write_chunk_intro [OF g1 p1 w(1) cn assms(7) g2 p2])
  have "(?p + unat amount \<le> length D \<longrightarrow> junk @ junk' = []) \<and> ?p + (d + unat n) \<le> length D + length (junk @ junk')"
    using j(1) w(5,6) assms(6) by auto
  then have "written_so_far L holds b f D (unat amount) user (d + unat n)
      (s\<lparr>t_file := f', t_buffer := buf, t_thread := th, t_user := user\<rparr>)"
    using w(2,3,8) size buf(3) new
    by (simp add: written_so_far_def add.assoc) (intro exI [of _ "junk @ junk'"], simp)
  then show ?thesis using wc by blast
qed

section \<open>Whole reads and writes\<close>

text \<open>What the two operations need: an open file of a blob that keeps its bytes, an idle thread, and
  sizes that an \<^verbatim>\<open>int\<close> can hold.\<close>

definition transfer_ready ::
  "'b spdk \<Rightarrow> u64 \<Rightarrow> ('b \<Rightarrow> u8 list \<Rightarrow> bool) \<Rightarrow> int \<Rightarrow> u64 \<Rightarrow> spdkfs_file \<Rightarrow> u8 list \<Rightarrow> 'b globals \<Rightarrow> bool" where
  "transfer_ready L u holds fd buf f D g \<longleftrightarrow>
     keeps_bytes L u (f_blob f) holds \<and> calm holds D (g_thread g) \<and> file_of_fd g fd = Inr f \<and>
     unat u < 2 ^ 31 \<and> g_buffer g \<noteq> [] \<and> length (g_buffer g) < 2 ^ 31 \<and>
     (\<exists>owned. spdkfs_mm_find (g_mm g) buf = Inr owned)"

lemma transfer_readyD:
  assumes "transfer_ready L u holds fd buf f D g"
  shows "keeps_bytes L u (f_blob f) holds" and "calm holds D (g_thread g)" and "file_of_fd g fd = Inr f"
    and "fd \<noteq> - 1" and "int_io_unit L g = u" and "u \<noteq> 0" and "buf_size g \<noteq> 0" and "unat (buf_size g) = length (g_buffer g)"
    and "length D < 2 ^ 63" and "length (g_buffer g) < 2 ^ 31" and "\<exists>owned. spdkfs_mm_find (g_mm g) buf = Inr owned"
proof -
  show kb: "keeps_bytes L u (f_blob f) holds" and cm: "calm holds D (g_thread g)" and fo: "file_of_fd g fd = Inr f"
    and bl: "length (g_buffer g) < 2 ^ 31" and "\<exists>owned. spdkfs_mm_find (g_mm g) buf = Inr owned"
    using assms by (simp_all add: transfer_ready_def)
  show "fd \<noteq> - 1" using fo by (auto simp: file_of_fd_def)
  have h: "holds (lib (g_thread g)) D" using cm by (simp add: calm_iff)
  have "io_unit_size L (lib (g_thread g)) = u" "unat u < 2 ^ 31"
    using keeps_bytesD(2) [OF kb h] assms by (simp_all add: transfer_ready_def)
  then show "int_io_unit L g = u" by (simp add: int_io_unit_def c_int_small)
  show "u \<noteq> 0" "length D < 2 ^ 63" using keeps_bytesD(1,3) [OF kb h] by blast+
  show ub: "unat (buf_size g) = length (g_buffer g)"
    using bl by (simp add: buf_size_def unsigned_of_nat take_bit_nat_eq_self)
  have "length (g_buffer g) \<noteq> 0" using assms by (simp add: transfer_ready_def)
  then show "buf_size g \<noteq> 0" using ub by (metis unsigned_0)
qed

text \<open>What a transfer through \<open>fd\<close> leaves alone.\<close>

definition io_frame :: "int \<Rightarrow> spdkfs_file \<Rightarrow> 'b globals \<Rightarrow> 'b globals \<Rightarrow> bool" where
  "io_frame fd f' g g' \<longleftrightarrow> g_fdtable g' = g_fdtable (set_open_file fd f' g) \<and> g_root g' = g_root g \<and>
     g_workdir_set g' = g_workdir_set g \<and> g_mm g' = g_mm g \<and> length (g_buffer g') = length (g_buffer g)"

lemma io_frame_intros:
  "io_frame fd f' g (set_open_file fd f' (g\<lparr>g_thread := th\<rparr>))"
  "t_file s = f' \<Longrightarrow> length (t_buffer s) = length (g_buffer g) \<Longrightarrow> io_frame fd f' g (end_transfer fd s g)"
  by (auto simp: io_frame_def set_open_file_def end_transfer_def)

text \<open>The general form of a read: it may run into the recorded end of the file.\<close>

lemma monopoly_read_moves:
  assumes "transfer_ready L u holds fd buf f D g" and "512 dvd unat u" and "amount = nbytes div u * u"
    and "lined_up u (length (g_buffer g)) f amount user" and "nbytes div u \<noteq> 0"
    and "spdkfs_mm_find (g_mm g) buf = Inr dma" and "k = (if dma then unat amount else length (g_buffer g))"
    and "moved = served k (unat amount) (unat (f_size (file_persist f)) - unat (f_pos f))"
    and "moved = 0 \<or> unat (f_pos f) + moved \<le> length D" and "unat (f_pos f) + unat amount < 2 ^ 64"
  shows "\<exists>g'. monopoly_read L fd buf user nbytes g =
      Inr (of_nat moved, take moved (drop (unat (f_pos f)) D) @ drop moved user, g') \<and>
      transfer_ready L u holds fd buf (f\<lparr>f_pos := f_pos f + of_nat moved\<rparr>) D g' \<and>
      io_frame fd (f\<lparr>f_pos := f_pos f + of_nat moved\<rparr>) g g' \<and> (if moved = 0 then g_thread g' = g_thread g else stored L f (g_thread g'))"
proof -
  note t = transfer_readyD [OF assms(1)]
  let ?X = "drop (unat (f_pos f)) D" and ?p = "unat (f_pos f)" and ?sz = "unat (f_size (file_persist f))"
  have am: "amount \<noteq> 0" using rounded_down(1) [OF assms(5) t(6)] assms(3) by simp
  then have m0: "0 < unat amount" by (simp add: unat_gt_0)
  have al: "unat u dvd ?p" "unat u dvd unat amount" "unat amount \<le> length user"
    using assms(4) by (simp_all add: lined_up_def)
  have un: "unat u < 2 ^ 31" "g_buffer g \<noteq> []" using assms(1) by (simp_all add: transfer_ready_def)
  show ?thesis
  proof (cases dma)
    case True
    have "\<exists>th. simple_fs_read L f amount user (g_thread g) = Inr (of_nat moved, f\<lparr>f_pos := f_pos f + of_nat moved\<rparr>,
        take moved ?X @ drop moved user, th) \<and> calm holds D th \<and> (if moved = 0 then th = g_thread g else stored L f th)"
    proof (cases "unat amount \<le> ?sz - ?p")
      case True
      then have "moved = unat amount" using assms(8) by (simp add: served_def)
      moreover have "in_range u D (f_pos f) amount" using al am m0 assms(9) calculation by (simp add: in_range_def)
      moreover have "?p + unat amount \<le> ?sz" using True m0 by linarith
      ultimately show ?thesis using file_read_bytes [OF t(1,2) _ assms(2) _ al(3)] m0 by auto
    next
      case False
      then have "moved = 0" using assms(7,8) True by (simp add: served_def)
      moreover have "?sz < ?p + unat amount" using False by linarith
      ultimately show ?thesis
        using file_read_beyond [of amount f] dvd_trans [OF assms(2) al(2)] assms(10) t(2) by auto
    qed
    then obtain th where th: "simple_fs_read L f amount user (g_thread g) =
        Inr (of_nat moved, f\<lparr>f_pos := f_pos f + of_nat moved\<rparr>, take moved ?X @ drop moved user, th)"
        "calm holds D th" "if moved = 0 then th = g_thread g else stored L f th" by blast
    let ?g = "set_open_file fd (f\<lparr>f_pos := f_pos f + of_nat moved\<rparr>) (g\<lparr>g_thread := th\<rparr>)"
    have "monopoly_read L fd buf user nbytes g = Inr (of_nat moved, take moved ?X @ drop moved user, ?g)"
      using True t assms(3,5,6) th(1) by (simp add: monopoly_read_def Let_def)
    moreover have "transfer_ready L u holds fd buf (f\<lparr>f_pos := f_pos f + of_nat moved\<rparr>) D ?g"
      using t un th(2) assms(6) file_after_transfer(2) [OF t(3)]
      by (simp add: transfer_ready_def) (simp add: set_open_file_def)
    moreover have "g_thread ?g = th" by (simp add: set_open_file_def)
    ultimately show ?thesis using th(3) io_frame_intros(1) by metis
  next
    case False
    let ?s = "\<lparr>t_file = f, t_user = user, t_buffer = g_buffer g, t_thread = g_thread g\<rparr>"
    let ?b = "length (g_buffer g)"
    have bs: "unat (buf_size g) < 2 ^ 31" and k: "k = ?b" "0 < ?b" using t(8,10) un(2) assms(7) False by simp_all
    have sv: "moved \<le> unat amount" "moved \<le> ?sz - ?p" "moved = unat amount \<or> unat (buf_size g) dvd moved"
      using served_le [of k "unat amount" "?sz - ?p"] served_whole [of k "unat amount" "?sz - ?p"] assms(8) k(1) t(8)
      by auto
    have step: "\<exists>s'. read_chunk L n (of_nat d) s = Inr (n, s') \<and> read_so_far L holds ?b f D user (g_thread g) (d + unat n) s'"
      if "read_so_far L holds ?b f D user (g_thread g) d s" "d + unat n \<le> moved" "n \<noteq> 0" "n \<le> buf_size g" "unat (buf_size g) dvd d"
        "n = buf_size g \<or> d + unat n = unat amount" for d n s
    proof -
      have "0 < unat n" using that(3) by (simp add: unat_gt_0)
      then show ?thesis
        using that sv assms(9) t(8,9,10) k
        by (intro read_body [OF t(1) assms(2,4)]) (auto simp: word_le_nat_alt word_unat_eq_iff)
    qed
    have stop: "\<exists>s'. read_chunk L n (of_nat moved) s = Inr (0, s') \<and> read_so_far L holds ?b f D user (g_thread g) moved s'"
      if "read_so_far L holds ?b f D user (g_thread g) moved s" "n \<noteq> 0" "unat n = min (unat (buf_size g)) (unat amount - moved)" for n s
    proof -
      have "0 < unat n" using that(2) by (simp add: unat_gt_0)
      then have lt: "moved < unat amount" using that(3) by simp
      then have "?sz - ?p < moved + unat n"
        using served_stop [of k "unat amount" "?sz - ?p"] assms(8) k that(3) t(8) by simp
      moreover have "moved + unat n \<le> unat amount" "unat n = ?b \<or> moved + unat n = unat amount"
        using that(3) lt t(8) by auto
      ultimately show ?thesis
        using that(1) sv(3) lt assms(10) t(8) by (intro read_stop [OF assms(2,4)]) auto
    qed
    have "read_so_far L holds ?b f D user (g_thread g) 0 ?s" using t(2) by (simp add: read_so_far_def)
    then have "\<exists>s'. chunk_loop (read_chunk L) (buf_size g) amount 0 0 ?s = Inr (of_nat moved, s') \<and>
        read_so_far L holds ?b f D user (g_thread g) moved s'"
      using chunk_loop_partial [OF am t(7) bs sv(1,3), of "read_so_far L holds ?b f D user (g_thread g)" "read_chunk L" 0 ?s] step stop
      by auto
    then obtain s' where s': "chunk_loop (read_chunk L) (buf_size g) amount 0 0 ?s = Inr (of_nat moved, s')"
        "t_file s' = f\<lparr>f_pos := f_pos f + of_nat moved\<rparr>" "t_user s' = take moved ?X @ drop moved user"
        "length (t_buffer s') = ?b" "calm holds D (t_thread s')"
        "if moved = 0 then t_thread s' = g_thread g else stored L f (t_thread s')"
      by (auto simp: read_so_far_def)
    let ?g = "end_transfer fd s' g"
    have "monopoly_read L fd buf user nbytes g = Inr (of_nat moved, take moved ?X @ drop moved user, ?g)"
      using False t assms(3,5,6) s'(1,3) by (simp add: monopoly_read_def Let_def)
    moreover have "transfer_ready L u holds fd buf (f\<lparr>f_pos := f_pos f + of_nat moved\<rparr>) D ?g"
      using s'(2,4,5) t assms(6) un file_after_transfer(1) [OF t(3), of s']
      by (simp add: transfer_ready_def) (auto simp: end_transfer_def set_open_file_def)
    moreover have "g_thread ?g = t_thread s'" by (simp add: end_transfer_def set_open_file_def)
    ultimately show ?thesis using s'(6) io_frame_intros(2) [of s' _ g fd, OF s'(2,4)] by metis
  qed
qed

lemma monopoly_read_bytes:
  assumes "transfer_ready L u holds fd buf f D g" and "512 dvd unat u" and "amount = nbytes div u * u"
    and "fits u (length (g_buffer g)) f D amount user" and "nbytes div u \<noteq> 0"
    and "unat (f_pos f) + unat amount \<le> unat (f_size (file_persist f))"
  shows "\<exists>g'. monopoly_read L fd buf user nbytes g =
      Inr (amount, take (unat amount) (drop (unat (f_pos f)) D) @ drop (unat amount) user, g') \<and>
      transfer_ready L u holds fd buf (f\<lparr>f_pos := f_pos f + amount\<rparr>) D g'"
proof -
  note t = transfer_readyD [OF assms(1)]
  have f: "lined_up u (length (g_buffer g)) f amount user" "unat (f_pos f) + unat amount \<le> length D"
    using assms(4) by (simp_all add: fits_iff)
  obtain dma where o: "spdkfs_mm_find (g_mm g) buf = Inr dma" using t(11) by blast
  have "unat amount = served k (unat amount) (unat (f_size (file_persist f)) - unat (f_pos f))" for k
    using assms(6) by (simp add: served_def)
  from monopoly_read_moves [OF assms(1-3) f(1) assms(5) o refl this disjI2 [OF f(2)]] show ?thesis
    using f(2) t(9) by auto
qed

text \<open>The general form of a write: it may need room beyond the end of the blob.\<close>

lemma monopoly_write_moves:
  assumes "transfer_ready L u holds fd buf f D g" and "amount = nbytes div u * u"
    and "lined_up u (length (g_buffer g)) f amount user" and "nbytes div u \<noteq> 0"
    and "spdkfs_mm_find (g_mm g) buf = Inr dma" and "k = (if dma then unat amount else length (g_buffer g))"
    and "room L C cap (f_blob f) holds D (unat (f_pos f)) (min k (unat amount)) (unat amount)"
    and "unat (f_pos f) + unat amount < 2 ^ 63"
  shows "\<exists>f' g' junk. monopoly_write L fd buf user nbytes g = Inr (amount, user, g') \<and>
      f_blob f' = f_blob f \<and> f_pos f' = f_pos f + amount \<and>
      unat (f_size (file_persist f')) = recorded (unat (f_size (file_persist f))) (unat (f_pos f)) k (unat amount) \<and>
      (unat (f_pos f) + unat amount \<le> length D \<longrightarrow> junk = []) \<and>
      unat (f_pos f) + unat amount \<le> length D + length junk \<and>
      transfer_ready L u holds fd buf f' (overwrite (unat (f_pos f)) (take (unat amount) user) (D @ junk)) g' \<and>
      io_frame fd f' g g' \<and> stored L f' (g_thread g')"
proof -
  note t = transfer_readyD [OF assms(1)]
  let ?D = "\<lambda>junk. overwrite (unat (f_pos f)) (take (unat amount) user) (D @ junk)" and ?p = "unat (f_pos f)"
  have am: "amount \<noteq> 0" using rounded_down(1) [OF assms(4) t(6)] assms(2) by simp
  then have m0: "unat amount \<noteq> 0" by (simp add: unat_eq_0)
  have al: "unat u dvd ?p" "unat u dvd unat amount" "unat amount \<le> length user"
    using assms(3) by (simp_all add: lined_up_def)
  have un: "unat u < 2 ^ 31" "g_buffer g \<noteq> []" using assms(1) by (simp_all add: transfer_ready_def)
  show ?thesis
  proof (cases dma)
    case True
    then have k: "k = unat amount" using assms(6) by simp
    then have "room L C cap (f_blob f) holds D ?p (unat amount) (unat amount)" using assms(7) by simp
    then obtain f' th junk where f': "simple_fs_write L f amount user (g_thread g) = Inr (amount, f', user, th)"
        "f_blob f' = f_blob f" "f_pos f' = f_pos f + amount"
        "f_size (file_persist f') = max (f_size (file_persist f)) (f_pos f)"
        "?p + unat amount \<le> length D \<longrightarrow> junk = []" "?p + unat amount \<le> length D + length junk" "calm holds (?D junk) th" "stored L f' th"
      using file_write_bytes [OF t(1,2) al(1,2) am al(3)] by blast
    have sz: "unat (f_size (file_persist f')) = recorded (unat (f_size (file_persist f))) ?p k (unat amount)"
      using f'(4) k am by (simp add: recorded_once unat_gt_0 max_def word_le_nat_alt)
    let ?g = "set_open_file fd f' (g\<lparr>g_thread := th\<rparr>)"
    have "monopoly_write L fd buf user nbytes g = Inr (amount, user, ?g)"
      using True t assms(2,4,5) f'(1) by (simp add: monopoly_write_def Let_def)
    moreover have "transfer_ready L u holds fd buf f' (?D junk) ?g"
      using f'(2,7) t assms(5) un file_after_transfer(2) [OF t(3)] by (simp add: transfer_ready_def) (simp add: set_open_file_def)
    moreover have "g_thread ?g = th" by (simp add: set_open_file_def)
    ultimately show ?thesis using f'(2,3,5,6,8) sz io_frame_intros(1) [of fd f' g th]
      by (intro exI [of _ f'] exI [of _ ?g] exI [of _ junk]) simp
  next
    case False
    let ?s = "\<lparr>t_file = f, t_user = user, t_buffer = g_buffer g, t_thread = g_thread g\<rparr>" and ?b = "length (g_buffer g)"
    have k: "k = ?b" and bs: "unat (buf_size g) < 2 ^ 31" using assms(6) False t(8,10) by simp_all
    have "written_so_far L holds ?b f D (unat amount) user 0 ?s"
      using t(2) assms(7) by (auto simp: written_so_far_def room_def recorded_def)
    then have "\<exists>s'. chunk_loop (write_chunk L) (buf_size g) amount 0 0 ?s = Inr (amount, s') \<and>
        written_so_far L holds ?b f D (unat amount) user (unat amount) s'"
      by (intro chunk_loop_total [OF am t(7) bs] write_body [OF t(1) assms(3) _ assms(8), of C cap])
        (use t(8,10) assms(7) k in \<open>simp_all add: word_le_nat_alt word_unat_eq_iff\<close>)
    then obtain s' junk where s': "chunk_loop (write_chunk L) (buf_size g) amount 0 0 ?s = Inr (amount, s')"
        "f_blob (t_file s') = f_blob f" "f_pos (t_file s') = f_pos f + amount"
        "unat (f_size (file_persist (t_file s'))) = recorded (unat (f_size (file_persist f))) ?p k (unat amount)"
        "t_user s' = user" "length (t_buffer s') = ?b" "?p + unat amount \<le> length D \<longrightarrow> junk = []"
        "?p + unat amount \<le> length D + length junk" "calm holds (?D junk) (t_thread s')" "stored L (t_file s') (t_thread s')"
      using k m0 by (auto simp: written_so_far_def)
    let ?g = "end_transfer fd s' g"
    have "monopoly_write L fd buf user nbytes g = Inr (amount, user, ?g)"
      using False t assms(2,4,5) s'(1,5) by (simp add: monopoly_write_def Let_def)
    moreover have "transfer_ready L u holds fd buf (t_file s') (?D junk) ?g"
      using s'(2,6,9) t assms(5) un file_after_transfer(1) [OF t(3), of s']
      by (simp add: transfer_ready_def) (auto simp: end_transfer_def set_open_file_def)
    moreover have "g_thread ?g = t_thread s'" by (simp add: end_transfer_def set_open_file_def)
    ultimately show ?thesis using s'(2-4,7,8,10) io_frame_intros(2) [OF refl s'(6), of fd]
      by (intro exI [of _ "t_file s'"] exI [of _ ?g] exI [of _ junk]) simp
  qed
qed

lemma monopoly_write_bytes:
  assumes "transfer_ready L u holds fd buf f D g" and "amount = nbytes div u * u"
    and "fits u (length (g_buffer g)) f D amount user" and "nbytes div u \<noteq> 0"
  shows "\<exists>f' g'. monopoly_write L fd buf user nbytes g = Inr (amount, user, g') \<and>
      f_blob f' = f_blob f \<and> f_pos f' = f_pos f + amount \<and> f_size (file_persist f) \<le> f_size (file_persist f') \<and>
      transfer_ready L u holds fd buf f' (overwrite (unat (f_pos f)) (take (unat amount) user) D) g' \<and>
      length (g_buffer g') = length (g_buffer g)"
proof -
  note t = transfer_readyD [OF assms(1)]
  have f: "lined_up u (length (g_buffer g)) f amount user" "unat (f_pos f) + unat amount \<le> length D"
    using assms(3) by (simp_all add: fits_iff)
  obtain dma where o: "spdkfs_mm_find (g_mm g) buf = Inr dma" using t(11) by blast
  have rm: "room L C cap (f_blob f) holds D (unat (f_pos f)) k (unat amount)" for C cap k
    using f(2) by (simp add: room_def)
  have "unat (f_pos f) + unat amount < 2 ^ 63" using f(2) t(9) by simp
  from monopoly_write_moves [OF assms(1,2) f(1) assms(4) o refl rm this] obtain f' g' junk where
    w: "monopoly_write L fd buf user nbytes g = Inr (amount, user, g')" "f_blob f' = f_blob f"
      "f_pos f' = f_pos f + amount" "junk = []" "io_frame fd f' g g'"
      "unat (f_size (file_persist f)) \<le> unat (f_size (file_persist f'))"
      "transfer_ready L u holds fd buf f' (overwrite (unat (f_pos f)) (take (unat amount) user) (D @ junk)) g'"
    using f(2) recorded_ge [of "unat (f_size (file_persist f))"] by auto
  then show ?thesis
    by (intro exI [of _ f'] exI [of _ g']) (simp add: io_frame_def word_le_nat_alt)
qed

section \<open>An example store\<close>

text \<open>The in-memory blobstore keeps its bytes.\<close>

definition mem_holds :: "nat \<Rightarrow> blob \<Rightarrow> mem_bs \<Rightarrow> u8 list \<Rightarrow> bool" where
  "mem_holds cl blb b D \<longleftrightarrow> bs_data b blb = Some D \<and> length D < 2 ^ 63 \<and> cl dvd length D"

lemma upper_div_exact:
  assumes "u \<noteq> 0" and "sz \<noteq> 0" and "unat u dvd unat sz"
  shows "unat (upper_div sz u) = unat sz div unat u"
proof -
  have pos: "0 < unat u" "0 < unat sz" using assms(1,2) by (simp_all add: unat_gt_0)
  obtain k where k: "unat sz = unat u * k" using assms(3) by blast
  then have "0 < k" using pos by (cases k) auto
  then obtain j where "k = Suc j" by (cases k) auto
  then have "(unat sz - 1) div unat u = j" using k pos(1) by (intro div_nat_eqI) (auto simp: algebra_simps)
  then show ?thesis using unat_upper_div [OF pos(2,1)] k pos(1) \<open>k = Suc j\<close> by simp
qed

lemma of_nat_u64: "n < 2 ^ 64 \<Longrightarrow> unat (of_nat n :: u64) = n"
  by (simp add: unsigned_of_nat take_bit_nat_eq_self)

lemma of_nat_u64_pos:
  assumes "0 < n" and "n < 2 ^ 64"
  shows "(of_nat n :: u64) \<noteq> 0"
  using of_nat_u64 [OF assms(2)] assms(1) by (metis less_irrefl unsigned_0)

text \<open>What the store does with a read, a write and a growth by one cluster of a blob it holds.\<close>

lemma mem_range:
  assumes "0 < n" and "n < 2 ^ 31" and "in_range (of_nat n) D off sz"
  shows "(of_nat n :: u64) \<noteq> 0" and "unat (of_nat n :: u64) = n" and "unat (off div of_nat n) * n = unat off"
    and "unat (upper_div sz (of_nat n)) * n = unat sz"
    and "(unat (off div of_nat n) + unat (upper_div sz (of_nat n))) * n \<le> length D"
proof -
  have small: "n < 2 ^ 64" by (rule order_less_trans [OF assms(2)]) simp
  show nz: "(of_nat n :: u64) \<noteq> 0" by (rule of_nat_u64_pos [OF assms(1) small])
  show un: "unat (of_nat n :: u64) = n" by (rule of_nat_u64 [OF small])
  show main: "unat (off div of_nat n) * n = unat off" "unat (upper_div sz (of_nat n)) * n = unat sz"
    using assms(3) upper_div_exact [OF nz, of sz] un by (simp_all add: in_range_def unat_div)
  show "(unat (off div of_nat n) + unat (upper_div sz (of_nat n))) * n \<le> length D"
    using assms(3) main by (simp add: in_range_def add_mult_distrib)
qed

lemma mem_read_done:
  assumes "0 < n" and "n < 2 ^ 31" and "bs_data b blb = Some D" and "in_range (of_nat n) D off sz"
  shows "read_done (mem_lib n cl) b blb off sz 0 (take (unat sz) (drop (unat off) D)) (b\<lparr>bs_pending := None\<rparr>)"
proof -
  note r = mem_range [OF assms(1,2,4)]
  show ?thesis
    using r assms(3)
    by (intro read_done_now [where u = "of_nat n" and c =
        "\<lparr>bserrno = 0, c_blobid = blb, c_blob = blb, c_data = take (unat sz) (drop (unat off) D)\<rparr>"])
      (simp_all add: answer_def)
qed

lemma mem_write_done:
  assumes "0 < n" and "n < 2 ^ 31" and "bs_data b blb = Some D" and "in_range (of_nat n) D off sz"
    and "unat sz \<le> length bf"
  shows "write_done (mem_lib n cl) b blb off sz bf 0
    (b\<lparr>bs_data := (bs_data b)(blb \<mapsto> overwrite (unat off) (take (unat sz) bf) D), bs_pending := None\<rparr>)"
proof -
  note r = mem_range [OF assms(1,2,4)]
  show ?thesis
    using r assms(3,5)
    by (intro write_done_now [where u = "of_nat n" and c =
        "\<lparr>bserrno = 0, c_blobid = blb, c_blob = blb, c_data = []\<rparr>"])
      (simp_all add: answer_def overwrite_def)
qed

lemma mem_clusters:
  assumes "bs_data b blb = Some D" and "length D < 2 ^ 63"
  shows "unat (num_clusters (mem_lib n cl) b blb) = length D div cl"
proof -
  have "length D div cl < 2 ^ 64" by (rule order_le_less_trans [OF div_le_dividend]) (use assms(2) in simp)
  then show ?thesis using assms(1) by (simp add: of_nat_u64)
qed

lemma mem_grow_done:
  assumes "bs_data b blb = Some D" and "length D < 2 ^ 63" and "cl dvd length D"
  shows "resize_done (mem_lib n cl) b blb (num_clusters (mem_lib n cl) b blb + 1) True
    (b\<lparr>bs_data := (bs_data b)(blb \<mapsto> D @ replicate cl 0), bs_pending := None\<rparr>)"
proof -
  let ?k = "num_clusters (mem_lib n cl) b blb"
  have k: "unat ?k = length D div cl" by (rule mem_clusters [OF assms(1,2)])
  have "length D div cl < 2 ^ 63" by (rule order_le_less_trans [OF div_le_dividend assms(2)])
  then have "unat (?k + 1) = length D div cl + 1" using k unat_small_sum [of ?k 1] by simp
  then have sz: "unat (?k + 1) * cl = length D + cl" using assms(3) by (simp add: algebra_simps)
  let ?b = "b\<lparr>bs_data := (bs_data b)(blb \<mapsto> D @ replicate cl 0), bs_pending := None\<rparr>"
  show ?thesis
    using assms(1) sz
    by (intro resize_done_now [where ?b1.0 = ?b and ?c1.0 = "\<lparr>bserrno = 0, c_blobid = blb, c_blob = blb, c_data = []\<rparr>"
          and ?c2.0 = "\<lparr>bserrno = 0, c_blobid = blb, c_blob = blb, c_data = []\<rparr>"])
      (simp_all add: answer_def)
qed

lemma mem_keeps_bytes:
  assumes "0 < n" and "n < 2 ^ 31" and "0 < cl" and "cl < 2 ^ 31"
  shows "keeps_bytes (mem_lib n cl) (of_nat n) blb (mem_holds cl blb)"
proof -
  have size: "unat (of_nat (length D div cl) * of_nat cl :: u64) = length D" if "length D < 2 ^ 63" "cl dvd length D" for D :: "u8 list"
    using that by (simp add: unsigned_of_nat take_bit_nat_eq_self flip: of_nat_mult)
  have "n < 2 ^ 64" by (rule order_less_trans [OF assms(2)]) simp
  then have nz: "(of_nat n :: u64) \<noteq> 0" by (rule of_nat_u64_pos [OF assms(1)])
  have rd: "\<exists>b'. read_done (mem_lib n cl) b blb off sz 0 (take (unat sz) (drop (unat off) D)) b' \<and> mem_holds cl blb b' D"
    if "mem_holds cl blb b D" and "in_range (of_nat n) D off sz" for b D off sz
    using that mem_read_done [OF assms(1,2) _ that(2), of b]
    by (intro exI [of _ "b\<lparr>bs_pending := None\<rparr>"]) (simp add: mem_holds_def)
  have wr: "\<exists>b'. write_done (mem_lib n cl) b blb off sz bf 0 b' \<and>
      mem_holds cl blb b' (overwrite (unat off) (take (unat sz) bf) D)"
    if "mem_holds cl blb b D" and "in_range (of_nat n) D off sz" and "unat sz \<le> length bf" for b D off sz bf
    using that mem_write_done [OF assms(1,2) _ that(2,3), of b]
    by (intro exI [of _ "b\<lparr>bs_data := (bs_data b)(blb \<mapsto> overwrite (unat off) (take (unat sz) bf) D), bs_pending := None\<rparr>"])
      (auto simp: mem_holds_def overwrite_def in_range_def)
  show ?thesis
    unfolding keeps_bytes_def
    using nz rd wr size by (auto simp: mem_holds_def)
qed

section \<open>Properties\<close>

lemma lseek_set:
  assumes "file_of_fd g fd = Inr f" and "int_io_unit L g = u" and "u \<noteq> 0" and "unat u < 2 ^ 31"
    and "unat offset < 2 ^ 63" and "unat u dvd unat offset"
  shows "monopoly_lseek L fd offset SEEK_SET g = Inr (offset, set_open_file fd (f\<lparr>f_pos := offset\<rparr>) g)"
proof -
  have "uint offset div uint u * uint u = uint offset"
    using assms(6) by (metis dvd_div_mult_self int_dvd_int_iff uint_nat)
  moreover have "unat u < 2 ^ 63" using assms(4) by simp
  ultimately have "seek_align offset u = offset"
    using assms(5) by (simp add: seek_align_def sint_small sdiv_nonneg)
  moreover have "fd \<noteq> - 1" using assms(1) by (auto simp: file_of_fd_def)
  ultimately show ?thesis
    using assms(1,2,3) by (simp add: monopoly_lseek_def Let_def SEEK_SET_def SEEK_CUR_def)
qed

lemma transfer_ready_seek:
  assumes "transfer_ready L u holds fd buf f D g" and "f_blob f' = f_blob f"
  shows "transfer_ready L u holds fd buf f' D (set_open_file fd f' g)"
  using assms file_after_transfer(2) [OF transfer_readyD(3) [OF assms(1)], of f' "g_thread g"]
  by (simp add: transfer_ready_def) (simp add: set_open_file_def)

text \<open>C7. Reading: over a blob that keeps its bytes, an aligned \<open>monopoly_read\<close> inside the file puts
  exactly the blob's bytes at the file's position into the user's memory, whatever the number of
  chunks the shared buffer cuts it into and whether or not the buffer is DMA memory, leaves the
  rest of the memory and the blob's bytes alone, and moves the position to the end of what it read.\<close>

theorem monopoly_read_contents:
  assumes "transfer_ready L u holds fd buf f D g" and "512 dvd unat u" and "amount = nbytes div u * u"
    and "fits u (length (g_buffer g)) f D amount user" and "nbytes div u \<noteq> 0"
    and "unat (f_pos f) + unat amount \<le> unat (f_size (file_persist f))"
  shows "\<exists>g'. monopoly_read L fd buf user nbytes g =
      Inr (amount, take (unat amount) (drop (unat (f_pos f)) D) @ drop (unat amount) user, g') \<and>
      transfer_ready L u holds fd buf (f\<lparr>f_pos := f_pos f + amount\<rparr>) D g'"
  using assms by (rule monopoly_read_bytes)

text \<open>The example disk of 1024 bytes behind a shared buffer of 512: two chunks.\<close>

definition rw_file :: spdkfs_file where
  "rw_file = \<lparr>f_blob = 1, f_pos = 0, file_persist = example_persist\<lparr>f_size := 1024\<rparr>\<rparr>"

lemma rw_ready: "transfer_ready (mem_lib 512 1024) 512 (mem_holds 1024 1) 0 1 rw_file (replicate 1024 0) (open_globals rw_file)"
  using mem_keeps_bytes [of 512 1024 1] mm_start_find [of 1]
  by (auto simp: transfer_ready_def rw_file_def calm_iff mem_holds_def example_disk_def)

lemma rw_fits: "unat amount \<le> 1024 \<Longrightarrow> 512 dvd unat amount \<Longrightarrow> length user = 1500 \<Longrightarrow>
    fits 512 (length (g_buffer (open_globals rw_file))) rw_file (replicate 1024 0) amount user"
  by (simp add: fits_def rw_file_def)

theorem monopoly_read_contents_witness:
  "\<exists>g'. monopoly_read (mem_lib 512 1024) 0 1 (replicate 1500 9) 1500 (open_globals rw_file) =
      Inr (1024, replicate 1024 0 @ replicate 476 9, g')"
proof -
  have "(1024 :: u64) = 1500 div 512 * 512" by simp
  moreover have "unat (f_pos rw_file) + unat (1024 :: u64) \<le> unat (f_size (file_persist rw_file))"
    by (simp add: rw_file_def)
  moreover have "fits 512 (length (g_buffer (open_globals rw_file))) rw_file (replicate 1024 0) 1024 (replicate 1500 9)"
    by (rule rw_fits) simp_all
  ultimately show ?thesis
    using monopoly_read_contents [OF rw_ready, of 1024 1500 "replicate 1500 9"] by (auto simp: rw_file_def)
qed

text \<open>C8. Writing: an aligned \<open>monopoly_write\<close> inside a blob that keeps its bytes replaces exactly the
  bytes at the file's position by the user's, over any number of chunks and for both kinds of
  buffer; the position moves to the end of what was written, the file size does not shrink and
  the user's memory, which the code copies back from the shared buffer, is unchanged.\<close>

theorem monopoly_write_contents:
  assumes "transfer_ready L u holds fd buf f D g" and "amount = nbytes div u * u"
    and "fits u (length (g_buffer g)) f D amount user" and "nbytes div u \<noteq> 0"
  shows "\<exists>f' g'. monopoly_write L fd buf user nbytes g = Inr (amount, user, g') \<and>
      f_blob f' = f_blob f \<and> f_pos f' = f_pos f + amount \<and> f_size (file_persist f) \<le> f_size (file_persist f') \<and>
      transfer_ready L u holds fd buf f' (overwrite (unat (f_pos f)) (take (unat amount) user) D) g' \<and>
      length (g_buffer g') = length (g_buffer g)"
  using assms by (rule monopoly_write_bytes)

theorem monopoly_write_contents_witness:
  "\<exists>g'. monopoly_write (mem_lib 512 1024) 0 1 (replicate 1500 9) 1500 (open_globals rw_file) =
      Inr (1024, replicate 1500 9, g') \<and> mem_holds 1024 1 (lib (g_thread g')) (replicate 1024 9)"
proof -
  have "(1024 :: u64) = 1500 div 512 * 512" by simp
  moreover have "fits 512 (length (g_buffer (open_globals rw_file))) rw_file (replicate 1024 0) 1024 (replicate 1500 9)"
    by (rule rw_fits) simp_all
  moreover have "overwrite 0 (take 1024 (replicate 1500 9)) (replicate 1024 0) = (replicate 1024 9 :: u8 list)"
    by (simp add: overwrite_def)
  ultimately show ?thesis
    using monopoly_write_contents [OF rw_ready, of 1024 1500 "replicate 1500 9"]
    by (auto simp: rw_file_def transfer_ready_def calm_iff)
qed

text \<open>C6. What is written is read back: writing, seeking back to where the write began and reading the
  same number of bytes into any other memory gives the bytes written, when the write stays
  within the file size that was recorded before.\<close>

theorem write_read_round_trip:
  assumes "transfer_ready L u holds fd buf f D g" and "512 dvd unat u" and "amount = nbytes div u * u"
    and "fits u (length (g_buffer g)) f D amount user" and "nbytes div u \<noteq> 0"
    and "unat (f_pos f) + unat amount \<le> unat (f_size (file_persist f))" and "unat amount \<le> length other"
  shows "\<exists>g1 g2 g3. monopoly_write L fd buf user nbytes g = Inr (amount, user, g1) \<and>
      monopoly_lseek L fd (f_pos f) SEEK_SET g1 = Inr (f_pos f, g2) \<and>
      monopoly_read L fd buf other nbytes g2 = Inr (amount, take (unat amount) user @ drop (unat amount) other, g3)"
proof -
  let ?D = "overwrite (unat (f_pos f)) (take (unat amount) user) D"
  obtain f1 g1 where w: "monopoly_write L fd buf user nbytes g = Inr (amount, user, g1)"
      "f_blob f1 = f_blob f" "f_size (file_persist f) \<le> f_size (file_persist f1)"
      "transfer_ready L u holds fd buf f1 ?D g1" "length (g_buffer g1) = length (g_buffer g)"
    using monopoly_write_bytes [OF assms(1,3,4,5)] by blast
  have fit: "unat (f_pos f) + unat amount \<le> length D" "unat amount \<le> length user" "unat u dvd unat (f_pos f)"
    using assms(4) by (simp_all add: fits_def)
  let ?f2 = "f1\<lparr>f_pos := f_pos f\<rparr>" and ?g2 = "set_open_file fd (f1\<lparr>f_pos := f_pos f\<rparr>) g1"
  note t = transfer_readyD [OF w(4)]
  have "unat u < 2 ^ 31" using assms(1) by (simp add: transfer_ready_def)
  then have sk: "monopoly_lseek L fd (f_pos f) SEEK_SET g1 = Inr (f_pos f, ?g2)"
    using lseek_set [OF t(3,5,6), of "f_pos f"] fit transfer_readyD(9) [OF assms(1)] by simp
  have r2: "transfer_ready L u holds fd buf ?f2 ?D ?g2" by (rule transfer_ready_seek [OF w(4)]) simp
  have "length ?D = length D" using fit by simp
  then have "fits u (length (g_buffer ?g2)) ?f2 ?D amount other"
    using assms(4,7) w(5) by (simp add: fits_def) (simp add: set_open_file_def)
  moreover have "unat (f_pos ?f2) + unat amount \<le> unat (f_size (file_persist ?f2))"
    using assms(6) w(3) by (simp add: word_le_nat_alt)
  ultimately obtain g3 where "monopoly_read L fd buf other nbytes ?g2 =
      Inr (amount, take (unat amount) (drop (unat (f_pos f)) ?D) @ drop (unat amount) other, g3)"
    using monopoly_read_bytes [OF r2 assms(2,3) _ assms(5)] by auto
  moreover have "take (unat amount) (drop (unat (f_pos f)) ?D) = take (unat amount) user"
    using overwrite_read [of "unat (f_pos f)" D "take (unat amount) user"] fit by simp
  ultimately show ?thesis using w(1) sk by auto
qed

theorem write_read_round_trip_witness:
  "\<exists>g1 g2 g3. monopoly_write (mem_lib 512 1024) 0 1 (replicate 1500 9) 1500 (open_globals rw_file) =
      Inr (1024, replicate 1500 9, g1) \<and>
    monopoly_lseek (mem_lib 512 1024) 0 0 SEEK_SET g1 = Inr (0, g2) \<and>
    monopoly_read (mem_lib 512 1024) 0 1 (replicate 1024 4) 1500 g2 = Inr (1024, replicate 1024 9, g3)"
proof -
  have "(1024 :: u64) = 1500 div 512 * 512" by simp
  moreover have "unat (f_pos rw_file) + unat (1024 :: u64) \<le> unat (f_size (file_persist rw_file))"
    by (simp add: rw_file_def)
  moreover have "fits 512 (length (g_buffer (open_globals rw_file))) rw_file (replicate 1024 0) 1024 (replicate 1500 9)"
    by (rule rw_fits) simp_all
  ultimately show ?thesis
    using write_read_round_trip [OF rw_ready, of 1024 1500 "replicate 1500 9" "replicate 1024 4"]
    by (auto simp: rw_file_def)
qed

end
