(* ===== verification/Interface.thy ===== *)
theory Interface
  imports Contents
begin

text \<open>
  \<^verbatim>\<open>simple_fs/interface.c\<close>: the functions that stand in for the C library's \<^verbatim>\<open>open\<close>, \<^verbatim>\<open>read\<close>,
  \<^verbatim>\<open>malloc\<close> and so on. Each decides, by the path, the descriptor or the state of the DMA
  allocator, whether a call goes to the file system or to the real system. The real system is a
  parameter: a state \<open>'k\<close> and the calls on it.
\<close>

section \<open>State\<close>

definition TESTFD :: int where "TESTFD = 10086"

definition O_CREAT :: u32 where "O_CREAT = 64"

text \<open>The system calls the code makes and the \<^verbatim>\<open>open\<close> it finds with \<^verbatim>\<open>dlsym\<close>; the third argument of
  \<open>real_open\<close> is the variadic one, which \<^verbatim>\<open>open\<close> takes as the mode.\<close>

record 'k kernel =
  real_open :: "u8 list \<Rightarrow> u32 \<Rightarrow> u64 \<Rightarrow> 'k \<Rightarrow> int \<times> 'k"
  sys_close :: "int \<Rightarrow> 'k \<Rightarrow> int \<times> 'k"
  sys_read :: "int \<Rightarrow> u8 list \<Rightarrow> u64 \<Rightarrow> 'k \<Rightarrow> u64 \<times> u8 list \<times> 'k"
  sys_write :: "int \<Rightarrow> u8 list \<Rightarrow> u64 \<Rightarrow> 'k \<Rightarrow> u64 \<times> 'k"
  sys_lseek :: "int \<Rightarrow> u64 \<Rightarrow> int \<Rightarrow> 'k \<Rightarrow> u64 \<times> 'k"
  sys_stat :: "u8 list \<Rightarrow> stat \<Rightarrow> 'k \<Rightarrow> int \<times> stat \<times> 'k"
  sys_unlink :: "u8 list \<Rightarrow> 'k \<Rightarrow> int \<times> 'k"

record ('b, 'k) process =
  p_fs :: "'b globals"
  p_kernel :: 'k
  p_open_found :: bool      \<comment> \<open>\<open>r_open\<close> has been looked up\<close>

definition initialize_interface :: "('b, 'k) process \<Rightarrow> ('b, 'k) process" where
  "initialize_interface p = p\<lparr>p_open_found := True\<rparr>"

text \<open>The result of an operation on the file system, or on the kernel, put back into the process.\<close>

definition on_fs :: "('r \<times> 'b globals) res \<Rightarrow> ('b, 'k) process \<Rightarrow> ('r \<times> ('b, 'k) process) res" where
  "on_fs r p = bind_res r (\<lambda>(x, g). Inr (x, p\<lparr>p_fs := g\<rparr>))"

definition on_kernel :: "'r \<times> 'k \<Rightarrow> ('b, 'k) process \<Rightarrow> ('r \<times> ('b, 'k) process) res" where
  "on_kernel r p = Inr (fst r, p\<lparr>p_kernel := snd r\<rparr>)"

section \<open>Paths\<close>

text \<open>\<^verbatim>\<open>memcmp(mem, pat, n) == 0\<close> for \<open>pat\<close> of length \<open>n\<close>, byte by byte up to the first difference.\<close>

fun memcmp_eq :: "u8 list \<Rightarrow> u8 list \<Rightarrow> bool res" where
  "memcmp_eq ms [] = Inr True"
| "memcmp_eq [] (c # cs) = Inl Out_of_bounds"
| "memcmp_eq (m # ms) (c # cs) = (if m = c then memcmp_eq ms cs else Inr False)"

definition spdkfs_prefix :: "u8 list" where
  "spdkfs_prefix = [115, 112, 100, 107, 102, 115, 47]"

text \<open>A path in memory is its bytes and the terminator.\<close>

definition spdk_ptop_blobfile :: "u8 list \<Rightarrow> bool res" where
  "spdk_ptop_blobfile file =
     (if length file < 5 then Inr False
      else bind_res (memcmp_eq (file @ [0]) spdkfs_prefix) (\<lambda>eq. Inr eq))"

section \<open>Files\<close>

text \<open>\<open>va\<close> is the address of the argument list, which the code passes on in place of the mode.\<close>

definition spdk_open ::
  "'b spdk \<Rightarrow> 'k kernel \<Rightarrow> env \<Rightarrow> u64 \<Rightarrow> u8 list \<Rightarrow> u32 \<Rightarrow> ('b, 'k) process \<Rightarrow> (int \<times> ('b, 'k) process) res" where
  "spdk_open L K e va file oflag p =
     bind_res (spdk_ptop_blobfile file) (\<lambda>blobfile.
     if \<not> blobfile then
       if \<not> p_open_found p then Inl Null_deref
       else on_kernel (real_open K file oflag va (p_kernel p)) p
     else if or oflag O_CREAT \<noteq> 0 then
       if SPDK_MAX_FILE_CNT < file_count (g_fdtable (p_fs p)) then Inr (- 1, p)
       else bind_res (monopoly_create L e file (p_fs p)) (\<lambda>(ret, g).
         if ret = - 1
         then bind_res (monopoly_open L e file g) (\<lambda>(fd, g'). Inr (TESTFD + fd, p\<lparr>p_fs := g'\<rparr>))
         else Inr (TESTFD + ret, p\<lparr>p_fs := g\<rparr>))
     else bind_res (monopoly_open L e file (p_fs p)) (\<lambda>(fd, g). Inr (TESTFD + fd, p\<lparr>p_fs := g\<rparr>)))"

definition spdk_close ::
  "'b spdk \<Rightarrow> 'k kernel \<Rightarrow> env \<Rightarrow> int \<Rightarrow> ('b, 'k) process \<Rightarrow> (int \<times> ('b, 'k) process) res" where
  "spdk_close L K e fd p =
     (if fd < TESTFD then on_kernel (sys_close K fd (p_kernel p)) p
      else on_fs (monopoly_close L e (fd - TESTFD) (p_fs p)) p)"

text \<open>The result of \<open>monopoly_read\<close> goes through an \<^verbatim>\<open>int\<close>. Both transfers return the user's memory.\<close>

definition spdk_read ::
  "'b spdk \<Rightarrow> 'k kernel \<Rightarrow> int \<Rightarrow> u64 \<Rightarrow> u8 list \<Rightarrow> u64 \<Rightarrow> ('b, 'k) process \<Rightarrow>
     (u64 \<times> u8 list \<times> ('b, 'k) process) res" where
  "spdk_read L K fd buf user nbytes p =
     (if fd < TESTFD then
        (case sys_read K fd user nbytes (p_kernel p) of (r, user', k) \<Rightarrow> Inr (r, user', p\<lparr>p_kernel := k\<rparr>))
      else bind_res (monopoly_read L (fd - TESTFD) buf user nbytes (p_fs p)) (\<lambda>(r, user', g).
        Inr (c_int r, user', p\<lparr>p_fs := g\<rparr>)))"

definition spdk_write ::
  "'b spdk \<Rightarrow> 'k kernel \<Rightarrow> int \<Rightarrow> u64 \<Rightarrow> u8 list \<Rightarrow> u64 \<Rightarrow> ('b, 'k) process \<Rightarrow>
     (u64 \<times> u8 list \<times> ('b, 'k) process) res" where
  "spdk_write L K fd buf user nbytes p =
     (if fd < TESTFD then
        (case sys_write K fd user nbytes (p_kernel p) of (r, k) \<Rightarrow> Inr (r, user, p\<lparr>p_kernel := k\<rparr>))
      else bind_res (monopoly_write L (fd - TESTFD) buf user nbytes (p_fs p)) (\<lambda>(r, user', g).
        Inr (r, user', p\<lparr>p_fs := g\<rparr>)))"

definition spdk_lseek ::
  "'b spdk \<Rightarrow> 'k kernel \<Rightarrow> int \<Rightarrow> u64 \<Rightarrow> int \<Rightarrow> ('b, 'k) process \<Rightarrow> (u64 \<times> ('b, 'k) process) res" where
  "spdk_lseek L K fd offset whence p =
     (if fd < TESTFD then on_kernel (sys_lseek K fd offset whence (p_kernel p)) p
      else on_fs (monopoly_lseek L (fd - TESTFD) offset whence (p_fs p)) p)"

definition spdk_stat ::
  "'b spdk \<Rightarrow> 'k kernel \<Rightarrow> env \<Rightarrow> u8 list \<Rightarrow> stat \<Rightarrow> ('b, 'k) process \<Rightarrow> (int \<times> stat \<times> ('b, 'k) process) res" where
  "spdk_stat L K e file st p =
     bind_res (spdk_ptop_blobfile file) (\<lambda>blobfile.
     if \<not> blobfile then
       (case sys_stat K file st (p_kernel p) of (r, st', k) \<Rightarrow> Inr (r, st', p\<lparr>p_kernel := k\<rparr>))
     else bind_res (monopoly_stat L e file st (p_fs p)) (\<lambda>(r, st', g). Inr (r, st', p\<lparr>p_fs := g\<rparr>)))"

definition spdk_unlink ::
  "'b spdk \<Rightarrow> 'k kernel \<Rightarrow> env \<Rightarrow> u8 list \<Rightarrow> ('b, 'k) process \<Rightarrow> (int \<times> ('b, 'k) process) res" where
  "spdk_unlink L K e pathname p =
     bind_res (spdk_ptop_blobfile pathname) (\<lambda>blobfile.
     if \<not> blobfile then on_kernel (sys_unlink K pathname (p_kernel p)) p
     else on_fs (monopoly_unlink L e pathname (p_fs p)) p)"

section \<open>Memory\<close>

text \<open>The three allocator functions; the C library's are found with \<^verbatim>\<open>dlsym\<close> at the first call, which
  has no other effect. The calls made to the allocators are part of the result.\<close>

definition interposed_malloc ::
  "(u64 \<Rightarrow> u64) \<Rightarrow> (u64 \<Rightarrow> u64) \<Rightarrow> u64 \<Rightarrow> mm_state \<Rightarrow> (u64 \<times> alloc_call list \<times> mm_state) res" where
  "interposed_malloc r_malloc sp_malloc sz s =
     (if \<not> spdkfs_mm_inited s then Inr (r_malloc sz, [U_malloc sz], s)
      else spdkfs_malloc r_malloc sp_malloc sz s)"

definition interposed_free :: "u64 \<Rightarrow> mm_state \<Rightarrow> (alloc_call list \<times> mm_state) res" where
  "interposed_free p s = (if \<not> spdkfs_mm_inited s then Inr ([U_free p], s) else spdkfs_free p s)"

definition interposed_realloc ::
  "(u64 \<Rightarrow> u64 \<Rightarrow> u64) \<Rightarrow> (u64 \<Rightarrow> u64 \<Rightarrow> u64) \<Rightarrow> u64 \<Rightarrow> u64 \<Rightarrow> mm_state \<Rightarrow>
     (u64 \<times> alloc_call list \<times> mm_state) res" where
  "interposed_realloc r_realloc sp_realloc p sz s =
     (if \<not> spdkfs_mm_inited s then Inr (r_realloc p sz, [U_realloc p sz], s)
      else spdkfs_realloc r_realloc sp_realloc p sz s)"

section \<open>Names\<close>

text \<open>The names under which a program finds the functions, declared as weak aliases in
  \<^verbatim>\<open>simple_fs/interface.h\<close>. A name that is not in the list is the C library's.\<close>

definition interposed_names :: "(string \<times> string) list" where
  "interposed_names =
     [(''open64'', ''__spdk_open''), (''open'', ''__spdk_open''), (''close'', ''__spdk_close''), (''read'', ''__spdk_read''),
      (''write'', ''__spdk_write''), (''lseek'', ''__spdk_lseek''), (''stat'', ''__spdk_stat''),
      (''malloc'', ''__spdk_malloc''), (''free'', ''__spdk_free''), (''realloc'', ''__spdk_realloc'')]"

section \<open>Facts\<close>

text \<open>\<^verbatim>\<open>creat\<close> and \<^verbatim>\<open>unlink\<close> go to the C library, and no name leads to \<open>__spdk_unlink\<close>.\<close>

lemma not_interposed:
  "map_of interposed_names ''creat'' = None" "map_of interposed_names ''unlink'' = None"
  "''__spdk_unlink'' \<notin> snd ` set interposed_names"
  by (simp_all add: interposed_names_def)

lemma memcmp_prefix:
  assumes "0 \<notin> set cs" and "0 \<notin> set ms"
  shows "memcmp_eq (ms @ [0]) cs = Inr (\<exists>rest. ms = cs @ rest)"
  using assms
proof (induction cs arbitrary: ms)
  case Nil
  then show ?case by simp
next
  case (Cons c cs)
  then show ?case by (cases ms) auto
qed

lemma blobfile_iff:
  assumes "0 \<notin> set file"
  shows "spdk_ptop_blobfile file = Inr (\<exists>rest. file = spdkfs_prefix @ rest)"
proof -
  have "0 \<notin> set spdkfs_prefix" "length spdkfs_prefix = 7" by (simp_all add: spdkfs_prefix_def)
  moreover from this(2) have "\<not> length file < 5" if "file = spdkfs_prefix @ rest" for rest
    using that by simp
  ultimately show ?thesis
    using memcmp_prefix [of spdkfs_prefix "file"] assms by (auto simp: spdk_ptop_blobfile_def)
qed

lemma or_create_nonzero: "or oflag O_CREAT \<noteq> 0"
proof
  assume "or oflag O_CREAT = 0"
  moreover have "bit (or oflag O_CREAT) 6" by (simp add: O_CREAT_def bit_simps)
  ultimately show False by simp
qed

lemma file_count_ok:
  assumes "fd_ok tab"
  shows "\<not> SPDK_MAX_FILE_CNT < file_count tab"
proof -
  have "unat (file_count tab) \<le> 256" using assms card_live [of tab] by (simp add: fd_ok_def)
  then show ?thesis by (simp add: SPDK_MAX_FILE_CNT_def word_less_nat_alt)
qed

text \<open>Opening a path of the file system, with the tests that always go one way removed.\<close>

lemma spdk_open_blobfile:
  assumes "spdk_ptop_blobfile path = Inr True" and "fd_ok (g_fdtable (p_fs p))"
  shows "spdk_open L K e va path oflag p =
    bind_res (monopoly_create L e path (p_fs p)) (\<lambda>(ret, g).
      if ret = - 1
      then bind_res (monopoly_open L e path g) (\<lambda>(fd, g'). Inr (TESTFD + fd, p\<lparr>p_fs := g'\<rparr>))
      else Inr (TESTFD + ret, p\<lparr>p_fs := g\<rparr>))"
  using assms file_count_ok [OF assms(2)] or_create_nonzero by (simp add: spdk_open_def)

section \<open>Properties\<close>

text \<open>A directory with the one entry \<^verbatim>\<open>spdkfs/a\<close>, blob 1, and a kernel that numbers its descriptors
  upwards.\<close>

definition one_name :: "u8 list" where "one_name = spdkfs_prefix @ [97]"

definition one_dir :: spdkfs_dir where
  "one_dir = empty_dir\<lparr>dirents := [115, 112, 100, 107, 102, 115, 47, 97, 0] @ replicate 503 7 @ [1, 0, 0, 0, 0, 0, 0, 0],
     dir_persist := (dir_persist empty_dir)\<lparr>d_dirent_count := 1, d_size := 520\<rparr>\<rparr>"

definition count_kernel :: "nat kernel" where
  "count_kernel = \<lparr>real_open = (\<lambda>path fl va k. (int k, Suc k)), sys_close = (\<lambda>fd k. (0, k)),
     sys_read = (\<lambda>fd mem n k. (0, mem, k)), sys_write = (\<lambda>fd mem n k. (n, k)), sys_lseek = (\<lambda>fd off wh k. (off, k)),
     sys_stat = (\<lambda>path st k. (- 1, st, k)), sys_unlink = (\<lambda>path k. (0, k))\<rparr>"

definition one_process :: "spdkfs_file fdtable \<Rightarrow> (mem_bs, nat) process" where
  "one_process tab = \<lparr>p_fs = (example_globals open_disk one_dir)\<lparr>g_fdtable := tab\<rparr>, p_kernel = 3, p_open_found = True\<rparr>"

lemma one_process_simps [simp]:
  "g_fdtable (p_fs (one_process tab)) = tab" "g_thread (p_fs (one_process tab)) = idle_thread open_disk"
  "g_root (p_fs (one_process tab)) = one_dir" "g_workdir_set (p_fs (one_process tab))" "p_kernel (one_process tab) = 3"
  "p_open_found (one_process tab)"
  by (simp_all add: one_process_def example_globals_def)

lemma one_dir_facts:
  "spdkfs_dir_lookup one_dir one_name = Inr 0" "dirent_id one_dir 0 = Inr 1" "d_initialized one_dir"
  "spdk_ptop_blobfile one_name = Inr True"
proof -
  show "spdkfs_dir_lookup one_dir one_name = Inr 0"
    by (simp add: spdkfs_dir_lookup_def lookup_dirents.simps [of _ _ _ 0] one_dir_def one_name_def spdkfs_prefix_def)
  show "dirent_id one_dir 0 = Inr 1"
    by (simp add: dirent_id_def get_bytes_def one_dir_def sizeof_dirent_def SPDK_MAX_NAME_COUNT_def)
  show "d_initialized one_dir" by (simp add: one_dir_def empty_dir_def)
  show "spdk_ptop_blobfile one_name = Inr True"
    by (subst blobfile_iff) (simp_all add: one_name_def spdkfs_prefix_def)
qed

lemma create_existing:
  assumes "g_workdir_set g" and "d_initialized (g_root g)" and "spdkfs_dir_lookup (g_root g) path = Inr (int k)"
  shows "monopoly_create L e path g = Inr (- 1, g)"
  using assms by (simp add: monopoly_create_def workdir_def)

text \<open>\<open>open\<close> of a path under \<^verbatim>\<open>spdkfs/\<close> that the working directory has, with any flags: the
  failed creation is followed by an open; the caller gets a number of at least 10086 whose offset
  from it is a descriptor that was free and now leads to the file at position 0, and the kernel
  has seen nothing of it.\<close>

theorem spdk_open_existing:
  assumes "path = spdkfs_prefix @ rest" and "0 \<notin> set path" and "g = p_fs p" and "idle (g_thread g)"
    and "g_workdir_set g" and "d_initialized (g_root g)" and "\<not> stack_done e" and "fd_ok (g_fdtable g)"
    and "card (live_fds (g_fdtable g)) < 255"
    and "spdkfs_dir_lookup (g_root g) path = Inr (int k)" and "dirent_id (g_root g) k = Inr i"
    and "lib_completes L n (submit L (Bs_open_blob i) (lib (g_thread g))) c b" and "n < POLLER_MAX_TIME"
    and "get_xattr L b (c_blob c) file_xattr = Some (File_ctx ctx)"
  shows "\<exists>fd g'. spdk_open L K e va path oflag p = Inr (TESTFD + fd, p\<lparr>p_fs := g'\<rparr>) \<and>
     TESTFD \<le> TESTFD + fd \<and> nat fd \<notin> live_fds (g_fdtable g) \<and>
     live_fds (g_fdtable g') = insert (nat fd) (live_fds (g_fdtable g)) \<and>
     file_of_fd g' fd = Inr \<lparr>f_blob = c_blob c, f_pos = 0, file_persist = ctx\<rparr>"
proof -
  have "spdk_ptop_blobfile path = Inr True" using blobfile_iff [OF assms(2)] assms(1) by auto
  note op = spdk_open_blobfile [OF this, of p L K e va oflag]
  have cr: "monopoly_create L e path (p_fs p) = Inr (- 1, p_fs p)"
    using assms(3,5,6,10) by (intro create_existing) simp_all
  obtain fd g' where "monopoly_open L e path g = Inr (fd, g')" "0 \<le> fd" "nat fd \<notin> live_fds (g_fdtable g)"
      "live_fds (g_fdtable g') = insert (nat fd) (live_fds (g_fdtable g))"
      "file_of_fd g' fd = Inr \<lparr>f_blob = c_blob c, f_pos = 0, file_persist = ctx\<rparr>"
    using monopoly_open_correct_aux [OF assms(4,5,7-14)] by blast
  then show ?thesis
    using op cr assms(3,8) by (intro exI [of _ fd] exI [of _ g']) simp
qed

theorem spdk_open_existing_witness:
  "\<exists>fd g'. spdk_open (mem_lib 512 1024) count_kernel example_env 0 one_name 0 (one_process fdtable_zero) =
      Inr (TESTFD + fd, (one_process fdtable_zero)\<lparr>p_fs := g'\<rparr>) \<and>
     file_of_fd g' fd = Inr \<lparr>f_blob = 1, f_pos = 0, file_persist = example_persist\<rparr>"
proof -
  have "lib_completes (mem_lib 512 1024) 0 (mem_submit 512 1024 (Bs_open_blob 1) open_disk)
      \<lparr>bserrno = 0, c_blobid = 1, c_blob = 1, c_data = []\<rparr> open_disk"
    by (simp add: open_disk_def mem_empty_def answer_def)
  moreover have "bs_xattr open_disk 1 file_xattr = Some (File_ctx example_persist)" by (simp add: open_disk_def)
  moreover have "0 \<notin> set one_name" by (simp add: one_name_def spdkfs_prefix_def)
  ultimately show ?thesis
    using spdk_open_existing [of one_name "[97]" "p_fs (one_process fdtable_zero)" "one_process fdtable_zero" example_env 0 1
        "mem_lib 512 1024" 0 "\<lparr>bserrno = 0, c_blobid = 1, c_blob = 1, c_data = []\<rparr>" open_disk example_persist count_kernel 0 0]
      one_dir_facts fdtable_zero_ok
    by (auto simp: one_name_def simp del: lib_completes.simps mem_submit.simps)
qed

text \<open>The flags are ignored: \<^verbatim>\<open>(__oflag | O_CREAT) != 0\<close> holds for every flag word, so opening a
  path of the file system creates the file whether or not the caller asked for it.\<close>

theorem open_ignores_flags:
  assumes "path = spdkfs_prefix @ rest" and "0 \<notin> set path"
  shows "spdk_open L K e va path oflag p = spdk_open L K e va path (or oflag O_CREAT) p"
  using blobfile_iff [OF assms(2)] assms(1) or_create_nonzero by (simp add: spdk_open_def)

theorem open_ignores_flags_witness:
  "spdk_open (mem_lib 512 1024) count_kernel example_env 0 (spdkfs_prefix @ [98]) 0 (one_process fdtable_zero) =
   spdk_open (mem_lib 512 1024) count_kernel example_env 0 (spdkfs_prefix @ [98]) O_CREAT (one_process fdtable_zero)"
  using open_ignores_flags [of "spdkfs_prefix @ [98]" "[98]" "mem_lib 512 1024" count_kernel example_env 0 0
      "one_process fdtable_zero"]
  by (simp add: spdkfs_prefix_def)


definition full_tab :: "spdkfs_file fdtable" where
  "full_tab = \<lparr>file_count = 256, used_fd = replicate 256 True, open_files = replicate 256 None\<rparr>"

lemma full_tab_ok: "fd_ok full_tab"
proof -
  have "live_fds full_tab = {..<256}" by (auto simp: live_fds_def full_tab_def)
  then show ?thesis by (simp add: fd_ok_def) (simp add: full_tab_def)
qed

lemma one_open_full: "\<exists>g'. monopoly_open (mem_lib 512 1024) example_env one_name (p_fs (one_process full_tab)) = Inr (- 1, g')"
proof -
  have "lib_completes (mem_lib 512 1024) 0 (mem_submit 512 1024 (Bs_open_blob 1) open_disk)
      \<lparr>bserrno = 0, c_blobid = 1, c_blob = 1, c_data = []\<rparr> open_disk"
    by (simp add: open_disk_def mem_empty_def answer_def)
  then obtain th where b: "blob_open (mem_lib 512 1024) False (junk_blob example_env) 1 (idle_thread open_disk) = Inr (True, 1, th)"
      "settled open_disk th"
    using blob_open_correct_aux [of "idle_thread open_disk" "mem_lib 512 1024" 0 1
        "\<lparr>bserrno = 0, c_blobid = 1, c_blob = 1, c_data = []\<rparr>" open_disk "junk_blob example_env"]
    by (auto simp del: lib_completes.simps)
  have x: "bs_xattr open_disk 1 file_xattr = Some (File_ctx example_persist)" by (simp add: open_disk_def)
  have "get_fd_from_table full_tab = Inr (- 1, full_tab)"
    by (simp add: full_tab_def get_fd_from_table_def SPDK_MAX_FILE_CNT_def)
  then show ?thesis
    using b x one_dir_facts
    by (simp add: monopoly_open_def workdir_def simple_fs_open_def settled_def sizeof_file_ctx_def install_file_def)
qed


text \<open>A read through the interposed function delivers the file's bytes and returns the number of
  them, as long as that is below 2 GiB; the number goes through an \<^verbatim>\<open>int\<close>, so a read of exactly
  2 GiB, which fills the memory all the same, returns a negative number.\<close>

theorem spdk_read_contents:
  assumes "transfer_ready L u holds fd buf f D (p_fs p)" and "512 dvd unat u" and "amount = nbytes div u * u"
    and "fits u (length (g_buffer (p_fs p))) f D amount user" and "nbytes div u \<noteq> 0"
    and "unat (f_pos f) + unat amount \<le> unat (f_size (file_persist f))"
  shows "\<exists>r g'. spdk_read L K (TESTFD + fd) buf user nbytes p =
      Inr (r, take (unat amount) (drop (unat (f_pos f)) D) @ drop (unat amount) user, p\<lparr>p_fs := g'\<rparr>) \<and>
      (unat amount < 2 ^ 31 \<longrightarrow> r = amount) \<and> (amount = 0x80000000 \<longrightarrow> r = - 0x80000000) \<and>
      file_of_fd g' fd = Inr (f\<lparr>f_pos := f_pos f + amount\<rparr>)"
proof -
  obtain g' where g': "monopoly_read L fd buf user nbytes (p_fs p) =
      Inr (amount, take (unat amount) (drop (unat (f_pos f)) D) @ drop (unat amount) user, g')"
      "transfer_ready L u holds fd buf (f\<lparr>f_pos := f_pos f + amount\<rparr>) D g'"
    using monopoly_read_bytes [OF assms] by blast
  have "0 \<le> fd" using transfer_readyD(3) [OF assms(1)] by (simp add: file_of_fd_def split: if_splits)
  moreover have "c_int 0x80000000 = - 0x80000000" by (simp add: c_int_def)
  ultimately show ?thesis
    using g'(1) transfer_readyD(3) [OF g'(2)] c_int_small [of amount]
    by (intro exI [of _ "c_int amount"] exI [of _ g']) (simp add: spdk_read_def)
qed

theorem spdk_read_contents_witness:
  "\<exists>g'. spdk_read (mem_lib 512 1024) count_kernel 10086 1 (replicate 1500 9) 1500
       \<lparr>p_fs = open_globals rw_file, p_kernel = 3, p_open_found = True\<rparr> =
      Inr (1024, replicate 1024 0 @ replicate 476 9, \<lparr>p_fs = g', p_kernel = 3, p_open_found = True\<rparr>)"
proof -
  let ?p = "\<lparr>p_fs = open_globals rw_file, p_kernel = 3, p_open_found = True\<rparr>"
  have am: "(1024 :: u64) = 1500 div 512 * 512" "(1500 :: u64) div 512 \<noteq> 0" "512 dvd unat (512 :: u64)" by simp_all
  have sz: "unat (f_pos rw_file) + unat (1024 :: u64) \<le> unat (f_size (file_persist rw_file))"
    by (simp add: rw_file_def)
  have fit: "fits 512 (length (g_buffer (p_fs ?p))) rw_file (replicate 1024 0) 1024 (replicate 1500 9)"
    using rw_fits [of 1024 "replicate 1500 9"] by simp
  have rdy: "transfer_ready (mem_lib 512 1024) 512 (mem_holds 1024 1) 0 1 rw_file (replicate 1024 0) (p_fs ?p)"
    using rw_ready by simp
  obtain r g' where r: "spdk_read (mem_lib 512 1024) count_kernel (TESTFD + 0) 1 (replicate 1500 9) 1500 ?p =
      Inr (r, take (unat (1024 :: u64)) (drop (unat (f_pos rw_file)) (replicate 1024 0)) @
        drop (unat (1024 :: u64)) (replicate 1500 9), ?p\<lparr>p_fs := g'\<rparr>)"
      "unat (1024 :: u64) < 2 ^ 31 \<longrightarrow> r = 1024"
    using spdk_read_contents [OF rdy am(3,1) fit am(2) sz] by blast
  have "take (unat (1024 :: u64)) (drop (unat (f_pos rw_file)) (replicate 1024 0)) @
      drop (unat (1024 :: u64)) (replicate 1500 9) = (replicate 1024 0 @ replicate 476 9 :: u8 list)"
    by (simp add: rw_file_def)
  moreover have "r = 1024" using r(2) by simp
  ultimately show ?thesis using r(1) by (intro exI [of _ g']) (simp add: TESTFD_def)
qed

text \<open>C26. Memory taken from the interposed \<^verbatim>\<open>malloc\<close> in whole pages goes back where it came from: the
  interposed \<^verbatim>\<open>free\<close> hands exactly that buffer to \<^verbatim>\<open>spdk_free\<close> and the table owns what it owned
  before. A buffer from before the allocator was initialised goes to the C library even if it is
  freed after.\<close>

theorem malloc_free_round_trip:
  assumes "mm_inv ub s" and "card (live_entries s) < 4095" and "sz mod 4096 = 0" and "sm sz \<noteq> 0" and "sm sz \<notin> owned s"
    and "\<not> initialized t" and "um sz \<notin> owned s"
  shows "(\<exists>s1 s2. interposed_malloc um sm sz s = Inr (sm sz, [Spdk_malloc sz], s1) \<and>
       interposed_free (sm sz) s1 = Inr ([Spdk_free (sm sz)], s2) \<and> mm_inv ub s2 \<and> owned s2 = owned s) \<and>
     interposed_malloc um sm sz t = Inr (um sz, [U_malloc sz], t) \<and>
     interposed_free (um sz) s = Inr ([U_free (um sz)], s)"
proof -
  have i: "initialized s" using assms(1) by (simp add: mm_inv_def)
  obtain e where "e < 4095" "e \<notin> live_entries s" using free_entry [OF assms(1,2)] by blast
  then obtain s1 where s1: "spdkfs_malloc um sm sz s = Inr (sm sz, [Spdk_malloc sz], s1)" "mm_inv ub s1"
      "owned s1 = insert (sm sz) (owned s)"
    using mm_malloc_spdk [of ub s sz sm e um] assms by blast
  moreover have "initialized s1" using s1(2) by (simp add: mm_inv_def)
  moreover obtain s2 where "spdkfs_free (sm sz) s1 = Inr ([Spdk_free (sm sz)], s2)" "mm_inv ub s2"
      "owned s2 = owned s1 - {sm sz}"
    using mm_free_owned [OF s1(2), of "sm sz"] s1(3) by blast
  moreover have "spdkfs_free (um sz) s = Inr ([U_free (um sz)], s)"
    using mm_find_owned [OF assms(1), of "um sz"] assms(7) by (simp add: spdkfs_free_def)
  ultimately show ?thesis
    using i assms(5,6) by (auto simp: interposed_malloc_def interposed_free_def spdkfs_mm_inited_def)
qed

theorem malloc_free_round_trip_witness:
  "\<exists>s1 s2. interposed_malloc (\<lambda>_. 1) (\<lambda>_. 131072) 4096 example_mm = Inr (131072, [Spdk_malloc 4096], s1) \<and>
     interposed_free 131072 s1 = Inr ([Spdk_free 131072], s2) \<and> owned s2 = {65536}"
proof -
  have "card (live_entries example_mm) < 4095" using example_mm_card by simp
  moreover have "\<not> initialized mm_start" by (simp add: mm_start_def)
  ultimately show ?thesis
    using malloc_free_round_trip [OF example_mm(1), of 4096 "\<lambda>_. 131072" mm_start "\<lambda>_. 1"] by (auto simp: example_mm(2))
qed

end
