(* ===== verification/Boot.thy ===== *)
theory Boot
  imports Super Fs_Mount Interface
begin

text \<open>
  Loading the file system when the library is loaded (\<^verbatim>\<open>simple_fs/super.c\<close>): the interposition
  layer, the SPDK environment, the mount run by the poller, the root directory, the DMA
  allocator and the shared buffer, in this order. \<^verbatim>\<open>spdk_fs/fs.c\<close>'s own cleanup is here as well.
\<close>

section \<open>Operations\<close>

text \<open>What the environment does during loading: results of library calls, the poll in which the
  configuration is loaded, what each poll of the mount delivers.\<close>

record startup =
  env_init_rc :: int
  json_answer :: "nat option"
  bdev_found :: bool
  bdev_create_rc :: int
  mount_answers :: "mount_event option list"
  junk_super_id :: u64
  shr_undefined :: "u64 \<Rightarrow> u64 \<Rightarrow> u64"

text \<open>\<^verbatim>\<open>exit\<close> ends the process with its status.\<close>

datatype 'a outcome = Exited int | Running 'a

text \<open>\<open>spdk_app_json_load_done\<close> raises the flag, whatever the result; \<open>bootstrap_fn\<close> asks for the
  configuration. The state is the flag and the number of polls so far.\<close>

definition spdk_app_json_load_done :: "bool \<times> nat \<Rightarrow> bool \<times> nat" where
  "spdk_app_json_load_done s = (True, snd s)"

definition bootstrap_poll :: "nat option \<Rightarrow> bool \<times> nat \<Rightarrow> (bool \<times> nat) res" where
  "bootstrap_poll at s =
     (let s' = (fst s, Suc (snd s))
      in Inr (if at = Some (snd s) then spdk_app_json_load_done s' else s'))"

definition spdk_init :: "startup \<Rightarrow> unit outcome res" where
  "spdk_init su =
     (if env_init_rc su < 0 then Inr (Exited 1)
      else bind_res (generic_poller (\<lambda>s. s) (bootstrap_poll (json_answer su)) fst (False, 0)) (\<lambda>(ok, s).
        Inr (if bdev_found su then Running () else Exited (- 1))))"

text \<open>A poll of the mounting thread: the first one runs \<open>init_spdk_filesystem\<close>.\<close>

definition mount_poll ::
  "int \<Rightarrow> u64 \<Rightarrow> mount option \<times> mount_event option list \<Rightarrow> (mount option \<times> mount_event option list) res" where
  "mount_poll rc id0 s =
     (let m = (case fst s of None \<Rightarrow> init_spdk_filesystem rc id0 | Some m \<Rightarrow> Some m)
      in Inr (case snd s of
                [] \<Rightarrow> (m, [])
              | None # evs \<Rightarrow> (m, evs)
              | Some ev # evs \<Rightarrow> (map_option (deliver ev) m, evs)))"

definition mount_finished :: "mount option \<times> mount_event option list \<Rightarrow> bool" where
  "mount_finished s = (case fst s of None \<Rightarrow> False | Some m \<Rightarrow> m_done m)"

text \<open>\<open>b\<close> is the blobstore once mounted; \<open>junk\<close> what the fresh root structure holds.\<close>

definition load_simple_spdk_fs ::
  "'b spdk \<Rightarrow> env \<Rightarrow> startup \<Rightarrow> spdkfs_dir \<Rightarrow> 'b \<Rightarrow> 'k \<Rightarrow> ('b, 'k) process outcome res" where
  "load_simple_spdk_fs L e su junk b k =
     bind_res (spdk_init su) (\<lambda>st.
       case st of
         Exited n \<Rightarrow> Inr (Exited n)
       | Running _ \<Rightarrow>
           if bdev_create_rc su \<noteq> 0 then Inr (Exited (- 1))
           else bind_res (generic_poller (\<lambda>s. s) (mount_poll (bdev_create_rc su) (junk_super_id su)) mount_finished
                            (None, mount_answers su)) (\<lambda>(ok, (m, evs)).
             case m of
               None \<Rightarrow> Inl Uninit_read
             | Some m \<Rightarrow>
                 (case (fs_bs m, fs_super m) of
                    (Some bs, Some super) \<Rightarrow>
                      bind_res (load_root L e junk super (idle_thread b)) (\<lambda>(root, th).
                        Inr (Running (initialize_interface
                          \<lparr>p_fs = \<lparr>g_thread = th, g_fdtable = fdtable_zero, g_root = root, g_workdir_set = True,
                                   g_mm = snd (spdkfs_mm_init (shr_undefined su) mm_start),
                                   g_buffer = fresh_mem (junk_mem e) 0x10000\<rparr>,
                           p_kernel = k, p_open_found = False\<rparr>)))
                  | _ \<Rightarrow> Inl Uninit_read)))"

text \<open>\<open>cleanup_filesystem\<close> of \<^verbatim>\<open>spdk_fs/fs.c\<close>: free the channel and unload, without the poller; the
  callback raises the flag of the caller.\<close>

definition cleanup_filesystem :: "'b spdk \<Rightarrow> 'b thread \<Rightarrow> 'b thread res" where
  "cleanup_filesystem L th =
     make_request L Bs_unload Cleanup_finished_cb (th\<lparr>lib := free_io_channel L (lib th)\<rparr>)"

section \<open>Facts\<close>

lemma poll_loop_total:
  assumes "\<And>s. \<exists>s'. poll s = Inr s'"
  shows "\<exists>r. poll_loop poll is_done count s = Inr r"
proof (induction "POLLER_MAX_TIME - count" arbitrary: count s rule: less_induct)
  case less
  obtain s' where s': "poll s = Inr s'" using assms by blast
  show ?case
  proof (cases "\<not> is_done s' \<and> Suc count < POLLER_MAX_TIME")
    case True
    then have "POLLER_MAX_TIME - Suc count < POLLER_MAX_TIME - count" by linarith
    then show ?thesis using less [of "Suc count" s'] s' True by (simp add: poll_loop.simps [of _ _ count])
  next
    case False
    then show ?thesis using s' by (auto simp: poll_loop.simps [of _ _ count])
  qed
qed

lemma spdk_init_result:
  assumes "0 \<le> env_init_rc su"
  shows "spdk_init su = Inr (if bdev_found su then Running () else Exited (- 1))"
proof -
  have "\<exists>s'. bootstrap_poll at s = Inr s'" for at s by (simp add: bootstrap_poll_def Let_def)
  then obtain r where "poll_loop (bootstrap_poll (json_answer su)) fst 0 (False, 0) = Inr r"
    using poll_loop_total [of "bootstrap_poll (json_answer su)"] by blast
  then show ?thesis using assms by (cases r) (simp add: spdk_init_def generic_poller_def)
qed

fun delivered :: "'a option list \<Rightarrow> 'a list" where
  "delivered [] = []"
| "delivered (None # xs) = delivered xs"
| "delivered (Some x # xs) = x # delivered xs"

lemma mount_polls:
  "polls (mount_poll rc id0) n (Some m, evs) = Inr (Some (fold deliver (delivered (take n evs)) m), drop n evs)"
proof (induction n arbitrary: m evs)
  case 0
  then show ?case by simp
next
  case (Suc n)
  show ?case
  proof (cases evs)
    case Nil
    then show ?thesis using Suc [of m "[]"] by (simp add: mount_poll_def)
  next
    case (Cons ev evs')
    then show ?thesis using Suc [of _ evs'] by (cases ev) (simp_all add: mount_poll_def)
  qed
qed

lemma mount_polls_start:
  "0 < n \<Longrightarrow> polls (mount_poll 0 id0) n (None, evs) = Inr (Some (mounted id0 (delivered (take n evs))), drop n evs)"
proof -
  assume "0 < n"
  then obtain k where n: "n = Suc k" using gr0_implies_Suc by blast
  obtain m where m: "init_spdk_filesystem 0 id0 = Some m" by (simp add: init_spdk_filesystem_def)
  then have "mount_poll 0 id0 (None, evs) = mount_poll 0 id0 (Some m, evs)" by (simp add: mount_poll_def)
  then have "polls (mount_poll 0 id0) n (None, evs) = polls (mount_poll 0 id0) n (Some m, evs)" by (simp add: n)
  then show ?thesis using mount_polls [of 0 id0 n m evs] m by (simp add: mounted_def)
qed

text \<open>The flag of the mount goes up with the last of the answers.\<close>

definition mount_runs :: "u64 \<Rightarrow> mount_event option list \<Rightarrow> bool" where
  "mount_runs id0 evs \<longleftrightarrow> evs \<noteq> [] \<and> length evs \<le> POLLER_MAX_TIME \<and> m_done (mounted id0 (delivered evs)) \<and>
     (\<forall>k < length evs. \<not> m_done (mounted id0 (delivered (take k evs))))"

lemma mount_poller:
  assumes "mount_runs id0 evs"
  shows "generic_poller (\<lambda>s. s) (mount_poll 0 id0) mount_finished (None, evs) =
    Inr (True, Some (mounted id0 (delivered evs)), [])"
proof -
  obtain n where n: "length evs = Suc n" using assms by (cases evs) (auto simp: mount_runs_def)
  have "undone_for (mount_poll 0 id0) mount_finished n (None, evs)"
    unfolding undone_for_def
  proof
    fix k assume "k \<in> {1..n}"
    then have k: "0 < k" "k < length evs" using n by auto
    then show "\<exists>s'. polls (mount_poll 0 id0) k (None, evs) = Inr s' \<and> \<not> mount_finished s'"
      using mount_polls_start [OF k(1)] assms by (simp add: mount_runs_def mount_finished_def)
  qed
  moreover have "polls (mount_poll 0 id0) (Suc n) (None, evs) = Inr (Some (mounted id0 (delivered evs)), [])"
    using mount_polls_start [of "Suc n" id0 evs] n by simp
  ultimately show ?thesis
    using poller_done_aux [of "mount_poll 0 id0" mount_finished n "\<lambda>s. s" "(None, evs)"] assms n
    by (simp add: mount_runs_def mount_finished_def)
qed

text \<open>What the environment must do for a mount with the super blob \<open>super\<close>, and the process that then starts.\<close>

definition starts :: "startup \<Rightarrow> blob_ref \<Rightarrow> bool" where
  "starts su super \<longleftrightarrow> 0 \<le> env_init_rc su \<and> bdev_found su \<and> bdev_create_rc su = 0 \<and>
     mount_runs (junk_super_id su) (mount_answers su) \<and>
     fs_super (mounted (junk_super_id su) (delivered (mount_answers su))) = Some super"

lemma boot_process:
  assumes "starts su super" and "load_root L e junk super (idle_thread b) = Inr (root, th)"
  shows "load_simple_spdk_fs L e su junk b k = Inr (Running
    \<lparr>p_fs = \<lparr>g_thread = th, g_fdtable = fdtable_zero, g_root = root, g_workdir_set = True,
             g_mm = snd (spdkfs_mm_init (shr_undefined su) mm_start), g_buffer = fresh_mem (junk_mem e) 0x10000\<rparr>,
     p_kernel = k, p_open_found = True\<rparr>)"
proof -
  have su: "0 \<le> env_init_rc su" "bdev_found su" "bdev_create_rc su = 0" "mount_runs (junk_super_id su) (mount_answers su)"
      "fs_super (mounted (junk_super_id su) (delivered (mount_answers su))) = Some super"
    using assms(1) by (simp_all add: starts_def)
  have "fs_bs (mounted (junk_super_id su) (delivered (mount_answers su))) \<noteq> None"
    using mount_reach_inv [OF reach_mounted, of "junk_super_id su" "delivered (mount_answers su)"] su(5)
    by (auto simp: mount_inv_def)
  then show ?thesis
    using spdk_init_result [OF su(1)] su(2,3,5) assms(2) mount_poller [OF su(4)]
    by (auto simp: load_simple_spdk_fs_def initialize_interface_def)
qed

section \<open>Properties\<close>

text \<open>C17. Loading succeeds: if the environment comes up, a device is found, and the answers to the
  mount's requests lead within the poller's bound to a mounted blobstore with a super blob whose
  root can be read or made, then the library ends up with that root as the working directory, an
  empty and consistent descriptor table, an initialised allocator that owns nothing, a shared
  buffer of 64 KiB and the interposed \<^verbatim>\<open>open\<close> found. Nothing depends on the answer to the
  configuration request, not even whether there is one.\<close>

theorem boot_succeeds:
  assumes "0 \<le> env_init_rc su" and "bdev_found su" and "bdev_create_rc su = 0"
    and "mount_runs (junk_super_id su) (mount_answers su)"
    and "m = mounted (junk_super_id su) (delivered (mount_answers su))" and "fs_super m = Some super"
    and "load_root L e junk super (idle_thread b) = Inr (root, th)"
  shows "\<exists>p. load_simple_spdk_fs L e su junk b k = Inr (Running p) \<and> p_open_found p \<and> p_kernel p = k \<and>
     g_thread (p_fs p) = th \<and> workdir (p_fs p) = Inr root \<and>
     fd_ok (g_fdtable (p_fs p)) \<and> live_fds (g_fdtable (p_fs p)) = {} \<and>
     mm_inv (shr_undefined su) (g_mm (p_fs p)) \<and> owned (g_mm (p_fs p)) = {} \<and> length (g_buffer (p_fs p)) = 65536"
proof -
  have "starts su super" using assms(1-6) by (simp add: starts_def)
  from boot_process [OF this assms(7), of k] show ?thesis
    using fdtable_zero_ok mm_start_inv mm_start_owned by (simp add: workdir_def fresh_mem_def)
qed

definition good_startup :: startup where
  "good_startup = \<lparr>env_init_rc = 0, json_answer = None, bdev_found = True, bdev_create_rc = 0,
     mount_answers = [None, Some (ev_ok 7), Some (ev_ok 3), None, Some (ev_ok 1)], junk_super_id = 0,
     shr_undefined = (\<lambda>_ _. 0)\<rparr>"

lemma good_startup_mount:
  "mount_runs (junk_super_id good_startup) (mount_answers good_startup)"
  "fs_super (mounted (junk_super_id good_startup) (delivered (mount_answers good_startup))) = Some 1"
proof -
  show "mount_runs (junk_super_id good_startup) (mount_answers good_startup)"
    unfolding mount_runs_def
    by (simp add: good_startup_def mounted_def init_spdk_filesystem_def deliver_def mount_defs ev_ok_def
        POLLER_MAX_TIME_def All_less_Suc)
  show "fs_super (mounted (junk_super_id good_startup) (delivered (mount_answers good_startup))) = Some 1"
    by (simp add: good_startup_def mounted_def init_spdk_filesystem_def deliver_def mount_defs ev_ok_def)
qed

theorem boot_succeeds_witness:
  "\<exists>p root. load_simple_spdk_fs (mem_lib 512 1536) example_env good_startup empty_dir example_dir_disk (3 :: nat) =
       Inr (Running p) \<and> workdir (p_fs p) = Inr root \<and> dir_persist root = (dir_persist example_dir)\<lparr>d_size := 1536\<rparr>"
proof -
  have "num_clusters (mem_lib 512 1536) example_dir_disk 1 \<noteq> 0"
    by (simp add: example_dir_disk_def example_dirents_def)
  moreover have "\<exists>th'. simple_dir_read (mem_lib 512 1536) (junk_mem example_env) (empty_dir\<lparr>d_blob := 1, d_has_fs := True\<rparr>)
      (idle_thread example_dir_disk) = Inr (empty_dir\<lparr>d_blob := 1, d_has_fs := True, dir_persist := (dir_persist example_dir)\<lparr>d_size := 1536\<rparr>,
        dirents := example_dirents @ replicate 496 0, d_initialized := True, d_dirty := False\<rparr>, th') \<and> settled example_dir_disk th'"
    by (rule dir_read_settled [where e = 0]) (use example_dir_read_done in \<open>simp_all add: example_dir_disk_def example_dirents_def\<close>)
  ultimately obtain root th where r: "load_root (mem_lib 512 1536) example_env empty_dir 1 (idle_thread example_dir_disk) = Inr (root, th)"
      "dir_persist root = (dir_persist example_dir)\<lparr>d_size := 1536\<rparr>"
    by (auto simp: load_root_def Let_def)
  have su: "0 \<le> env_init_rc good_startup" "bdev_found good_startup" "bdev_create_rc good_startup = 0"
    by (simp_all add: good_startup_def)
  show ?thesis
    using boot_succeeds [OF su good_startup_mount(1) refl good_startup_mount(2) r(1), of 3] r(2) by blast
qed

text \<open>A failed mount is not noticed: if the flag goes up without a super blob, or does not go up
  within the poller's bound, as on the two error paths that drop it, loading goes on with a file
  system structure whose fields were never set, and reads them.\<close>

theorem boot_uses_unmounted:
  assumes "0 \<le> env_init_rc su" and "bdev_found su" and "bdev_create_rc su = 0"
    and "mount_runs (junk_super_id su) (mount_answers su) \<and>
         fs_super (mounted (junk_super_id su) (delivered (mount_answers su))) = None \<or>
       (\<forall>k. \<not> m_done (mounted (junk_super_id su) (delivered (take k (mount_answers su)))))"
  shows "load_simple_spdk_fs L e su junk b k = Inl Uninit_read"
proof -
  let ?id = "junk_super_id su" and ?evs = "mount_answers su"
  have "\<exists>ok m evs'. generic_poller (\<lambda>s. s) (mount_poll 0 ?id) mount_finished (None, ?evs) = Inr (ok, Some m, evs') \<and>
      fs_super m = None"
    using assms(4)
  proof
    assume "mount_runs ?id ?evs \<and> fs_super (mounted ?id (delivered ?evs)) = None"
    then show ?thesis using mount_poller by blast
  next
    assume hang: "\<forall>k. \<not> m_done (mounted ?id (delivered (take k ?evs)))"
    then have u: "undone_for (mount_poll 0 ?id) mount_finished POLLER_MAX_TIME (None, ?evs)"
      using mount_polls_start [of _ ?id ?evs] by (simp add: undone_for_def mount_finished_def)
    let ?m = "mounted ?id (delivered (take POLLER_MAX_TIME ?evs))"
    have "polls (mount_poll 0 ?id) POLLER_MAX_TIME (None, ?evs) = Inr (Some ?m, drop POLLER_MAX_TIME ?evs)"
      using mount_polls_start [of POLLER_MAX_TIME ?id ?evs] by (simp add: POLLER_MAX_TIME_def)
    then have "generic_poller (\<lambda>s. s) (mount_poll 0 ?id) mount_finished (None, ?evs) =
        Inr (False, Some ?m, drop POLLER_MAX_TIME ?evs)"
      using poller_gives_up_aux [of "mount_poll 0 ?id" mount_finished "\<lambda>s. s" "(None, ?evs)", OF u] by simp
    moreover have "fs_super ?m = None"
      using mount_reach_inv [OF reach_mounted, of ?id "delivered (take POLLER_MAX_TIME ?evs)"] hang by (auto simp: mount_inv_def)
    ultimately show ?thesis by blast
  qed
  then show ?thesis
    using spdk_init_result [OF assms(1)] assms(2,3) by (auto simp: load_simple_spdk_fs_def split: option.splits)
qed

definition bad_startup :: startup where
  "bad_startup = good_startup\<lparr>mount_answers := [Some (ev_ok 7), Some (ev_ok 3), Some (ev_err 5)]\<rparr>"

theorem boot_uses_unmounted_witness:
  "load_simple_spdk_fs (mem_lib 512 1536) example_env bad_startup empty_dir example_dir_disk (3 :: nat) = Inl Uninit_read"
proof (rule boot_uses_unmounted)
  have "mount_runs (junk_super_id bad_startup) (mount_answers bad_startup)"
    unfolding mount_runs_def
    by (simp add: bad_startup_def good_startup_def mounted_def init_spdk_filesystem_def deliver_def mount_defs ev_ok_def
        ev_err_def POLLER_MAX_TIME_def All_less_Suc)
  moreover have "fs_super (mounted (junk_super_id bad_startup) (delivered (mount_answers bad_startup))) = None"
    by (simp add: bad_startup_def good_startup_def mounted_def init_spdk_filesystem_def deliver_def mount_defs ev_ok_def ev_err_def)
  ultimately show "mount_runs (junk_super_id bad_startup) (mount_answers bad_startup) \<and>
       fs_super (mounted (junk_super_id bad_startup) (delivered (mount_answers bad_startup))) = None \<or>
     (\<forall>k. \<not> m_done (mounted (junk_super_id bad_startup) (delivered (take k (mount_answers bad_startup)))))" by blast
qed (simp_all add: bad_startup_def good_startup_def)

end
