(* ===== verification/Fio_Plugin.thy ===== *)
theory Fio_Plugin
  imports Contents
begin

text \<open>
  \<^verbatim>\<open>blobop_fio_plugin/fs_fio_plugin.c\<close>: an I/O engine for the benchmark program fio over the
  operations of \<^verbatim>\<open>monopoly_ops.c\<close>. fio's structures are records with the fields the engine uses;
  the calls it makes back into fio (trimming, error reports) are part of the results. The check
  \<^verbatim>\<open>fio_ro_check\<close>, an assertion of fio about its own job, has no model.
\<close>

section \<open>fio's structures\<close>

datatype fio_ddir = DDIR_READ | DDIR_WRITE | DDIR_TRIM | DDIR_SYNC

fun ddir_rw :: "fio_ddir \<Rightarrow> bool" where
  "ddir_rw DDIR_READ = True"
| "ddir_rw DDIR_WRITE = True"
| "ddir_rw DDIR_TRIM = False"
| "ddir_rw DDIR_SYNC = False"

record fio_file =
  fio_fd :: int
  real_file_size :: u64
  size_known :: bool
  engine_pos :: u64

record io_u =
  io_offset :: u64
  xfer_buf :: u64           \<comment> \<open>the address of the buffer\<close>
  xfer_mem :: "u8 list"     \<comment> \<open>the memory there\<close>
  xfer_buflen :: u64
  io_ddir :: fio_ddir
  io_resid :: u64
  io_error :: int

datatype fio_call = Io_u_trim | Io_u_log_error | Td_verror int

datatype fio_q_status = FIO_Q_COMPLETED | FIO_Q_QUEUED | FIO_Q_BUSY

section \<open>The engine\<close>

definition spdk_open_file ::
  "'b spdk \<Rightarrow> env \<Rightarrow> u8 list \<Rightarrow> fio_file \<Rightarrow> 'b globals \<Rightarrow> (int \<times> fio_file \<times> 'b globals) res" where
  "spdk_open_file L e file_name f g =
     bind_res (monopoly_open L e file_name g) (\<lambda>(fd, g1).
       if fd = - 1
       then bind_res (monopoly_create L e file_name g1) (\<lambda>(fd', g2). Inr (0, f\<lparr>fio_fd := fd'\<rparr>, g2))
       else Inr (0, f\<lparr>fio_fd := fd\<rparr>, g1))"

definition spdk_get_file_size :: "fio_file \<Rightarrow> int \<times> fio_file" where
  "spdk_get_file_size f = (0, f\<lparr>real_file_size := 2000000, size_known := True\<rparr>)"

definition spdk_close_file ::
  "'b spdk \<Rightarrow> env \<Rightarrow> fio_file \<Rightarrow> 'b globals \<Rightarrow> (int \<times> fio_file \<times> 'b globals) res" where
  "spdk_close_file L e f g =
     bind_res (monopoly_close L e (fio_fd f) g) (\<lambda>(r, g'). Inr (0, f\<lparr>fio_fd := - 1\<rparr>, g'))"

definition fio_spdk_syncio_prep :: "'b spdk \<Rightarrow> fio_file \<Rightarrow> io_u \<Rightarrow> 'b globals \<Rightarrow> (int \<times> 'b globals) res" where
  "fio_spdk_syncio_prep L f io g =
     bind_res (monopoly_lseek L (fio_fd f) 0 SEEK_SET g) (\<lambda>(p, g'). Inr (0, g'))"

text \<open>The end of an I/O: \<open>errno\<close> is the C library's error number, \<open>f\<close> the file if the I/O has one.\<close>

definition report_error :: "io_u \<Rightarrow> fio_call list" where
  "report_error io = (if io_error io \<noteq> 0 then [Io_u_log_error, Td_verror (io_error io)] else [])"

definition fio_io_end ::
  "int \<Rightarrow> fio_file option \<Rightarrow> io_u \<Rightarrow> int \<Rightarrow> fio_q_status \<times> fio_file option \<times> io_u \<times> fio_call list" where
  "fio_io_end errno f io ret =
     (let f' = (case f of
                  None \<Rightarrow> None
                | Some x \<Rightarrow> if 0 \<le> ret \<and> ddir_rw (io_ddir io)
                            then Some (x\<lparr>engine_pos := io_offset io + word_of_int ret\<rparr>) else Some x)
      in if ret \<noteq> sint (ucast (xfer_buflen io) :: u32) then
           if 0 \<le> ret
           then (FIO_Q_COMPLETED, f', io\<lparr>io_resid := xfer_buflen io - word_of_int ret, io_error := 0\<rparr>, [])
           else (FIO_Q_COMPLETED, f', io\<lparr>io_error := errno\<rparr>, report_error (io\<lparr>io_error := errno\<rparr>))
         else (FIO_Q_COMPLETED, f', io, report_error io))"

text \<open>\<^verbatim>\<open>int ret = monopoly_read(...)\<close>.\<close>

definition int_of_ssize :: "u64 \<Rightarrow> int" where
  "int_of_ssize r = sint (ucast r :: u32)"

definition finish_io :: "int \<Rightarrow> fio_file \<Rightarrow> io_u \<Rightarrow> int \<Rightarrow> 'g \<Rightarrow> fio_q_status \<times> fio_file \<times> io_u \<times> fio_call list \<times> 'g" where
  "finish_io errno f io ret g =
     (case fio_io_end errno (Some f) io ret of
        (st, f', io', calls) \<Rightarrow> (st, (case f' of None \<Rightarrow> f | Some x \<Rightarrow> x), io', calls, g))"

definition fio_spdk_syncio_queue ::
  "'b spdk \<Rightarrow> int \<Rightarrow> fio_file \<Rightarrow> io_u \<Rightarrow> 'b globals \<Rightarrow>
     (fio_q_status \<times> fio_file \<times> io_u \<times> fio_call list \<times> 'b globals) res" where
  "fio_spdk_syncio_queue L errno f io g =
     (case io_ddir io of
        DDIR_READ \<Rightarrow>
          bind_res (monopoly_read L (fio_fd f) (xfer_buf io) (xfer_mem io) (xfer_buflen io) g) (\<lambda>(r, mem, g').
            Inr (finish_io errno f (io\<lparr>xfer_mem := mem\<rparr>) (int_of_ssize r) g'))
      | DDIR_WRITE \<Rightarrow>
          bind_res (monopoly_write L (fio_fd f) (xfer_buf io) (xfer_mem io) (xfer_buflen io) g) (\<lambda>(r, mem, g').
            Inr (finish_io errno f (io\<lparr>xfer_mem := mem\<rparr>) (int_of_ssize r) g'))
      | DDIR_TRIM \<Rightarrow> Inr (FIO_Q_COMPLETED, f, io, [Io_u_trim], g)
      | DDIR_SYNC \<Rightarrow> Inr (finish_io errno f io 0 g))"

definition spdkfs_fio_invalidate :: "fio_file \<Rightarrow> int" where
  "spdkfs_fio_invalidate f = 0"

section \<open>Facts\<close>

lemma int_of_ssize_small:
  assumes "unat r < 2 ^ 31"
  shows "int_of_ssize r = int (unat r)"
proof -
  have "unat (ucast r :: u32) = unat r"
    using assms by (simp add: unsigned_ucast_eq take_bit_nat_eq_self)
  then have u: "uint (ucast r :: u32) = int (unat r)" by (simp only: uint_nat)
  have "int (unat r) < int (2 ^ 31)" using assms by (simp only: of_nat_less_iff)
  then have "signed_take_bit 31 (int (unat r)) = int (unat r)"
    by (intro signed_take_bit_int_eq_self order_trans [OF _ of_nat_0_le_iff]) simp_all
  then show ?thesis by (simp only: int_of_ssize_def sint_uint u) simp
qed

lemma fio_io_end_short:
  assumes "0 \<le> ret" and "ret < int (unat (xfer_buflen io))" and "unat (xfer_buflen io) < 2 ^ 31" and "ddir_rw (io_ddir io)"
  shows "fio_io_end errno (Some f) io ret =
    (FIO_Q_COMPLETED, Some (f\<lparr>engine_pos := io_offset io + word_of_int ret\<rparr>),
     io\<lparr>io_resid := xfer_buflen io - word_of_int ret, io_error := 0\<rparr>, [])"
  using assms int_of_ssize_small [OF assms(3)] by (simp add: fio_io_end_def int_of_ssize_def)

lemma fio_io_end_full:
  assumes "ret = int (unat (xfer_buflen io))" and "unat (xfer_buflen io) < 2 ^ 31" and "ddir_rw (io_ddir io)"
  shows "fio_io_end errno (Some f) io ret =
    (FIO_Q_COMPLETED, Some (f\<lparr>engine_pos := io_offset io + xfer_buflen io\<rparr>), io, report_error io)"
  using assms int_of_ssize_small [OF assms(2)] by (simp add: fio_io_end_def int_of_ssize_def)

section \<open>Properties\<close>

text \<open>The accounting of a finished transfer of at most the buffer length, which is below 2 GiB:
  the engine position is the offset plus the bytes transferred, a short transfer has the rest as
  its residue and no error, and a full one keeps the residue and error it had.\<close>

theorem fio_io_end_accounts:
  assumes "0 \<le> ret" and "ret \<le> int (unat (xfer_buflen io))" and "unat (xfer_buflen io) < 2 ^ 31" and "ddir_rw (io_ddir io)"
  shows "\<exists>f' io' calls. fio_io_end errno (Some f) io ret = (FIO_Q_COMPLETED, Some f', io', calls) \<and>
     engine_pos f' = io_offset io + word_of_int ret \<and> fio_fd f' = fio_fd f \<and>
     io_resid io' = (if ret = int (unat (xfer_buflen io)) then io_resid io else xfer_buflen io - word_of_int ret) \<and>
     io_error io' = (if ret = int (unat (xfer_buflen io)) then io_error io else 0) \<and>
     (calls = [] \<longleftrightarrow> io_error io' = 0)"
proof (cases "ret = int (unat (xfer_buflen io))")
  case True
  then show ?thesis using fio_io_end_full [OF True assms(3,4)] by (simp add: report_error_def)
next
  case False
  then show ?thesis using fio_io_end_short [OF assms(1) _ assms(3,4)] assms(2) by simp
qed

definition example_io :: "fio_ddir \<Rightarrow> io_u" where
  "example_io d = \<lparr>io_offset = 4096, xfer_buf = 1, xfer_mem = replicate 1500 9, xfer_buflen = 1500, io_ddir = d,
     io_resid = 0, io_error = 0\<rparr>"

definition example_fio_file :: fio_file where
  "example_fio_file = \<lparr>fio_fd = 0, real_file_size = 0, size_known = False, engine_pos = 0\<rparr>"

theorem fio_io_end_accounts_witness:
  "\<exists>f' io' calls. fio_io_end 5 (Some example_fio_file) (example_io DDIR_READ) 1024 = (FIO_Q_COMPLETED, Some f', io', calls) \<and>
     engine_pos f' = 5120 \<and> io_resid io' = 476"
  using fio_io_end_accounts [of 1024 "example_io DDIR_READ" 5 example_fio_file]
  by (fastforce simp: example_io_def)

lemma prep_rewinds:
  assumes "transfer_ready L u holds (fio_fd ff) buf f D g"
  shows "fio_spdk_syncio_prep L ff io g = Inr (0, set_open_file (fio_fd ff) (f\<lparr>f_pos := 0\<rparr>) g)"
proof -
  note t = transfer_readyD [OF assms]
  have "unat u < 2 ^ 31" using assms by (simp add: transfer_ready_def)
  then have "monopoly_lseek L (fio_fd ff) 0 SEEK_SET g = Inr (0, set_open_file (fio_fd ff) (f\<lparr>f_pos := 0\<rparr>) g)"
    by (intro lseek_set [OF t(3,5,6)]) simp_all
  then show ?thesis by (simp add: fio_spdk_syncio_prep_def)
qed

lemma read_end:
  assumes "n \<le> xfer_buflen io" and "io_ddir io = DDIR_READ" and "unat (xfer_buflen io) < 2 ^ 31"
  shows "\<exists>ff' io' calls. fio_io_end errno (Some ff) io (int (unat n)) = (FIO_Q_COMPLETED, Some ff', io', calls) \<and>
     engine_pos ff' = io_offset io + n \<and> xfer_mem io' = xfer_mem io"
proof (cases "n = xfer_buflen io")
  case True
  have "fio_io_end errno (Some ff) io (int (unat n)) =
      (FIO_Q_COMPLETED, Some (ff\<lparr>engine_pos := io_offset io + xfer_buflen io\<rparr>), io, report_error io)"
    by (rule fio_io_end_full) (use True assms(2,3) in simp_all)
  then show ?thesis using True by auto
next
  case False
  then have "n < xfer_buflen io" using assms(1) by simp
  then have lt: "int (unat n) < int (unat (xfer_buflen io))" by (simp only: of_nat_less_iff word_less_nat_alt)
  have "fio_io_end errno (Some ff) io (int (unat n)) =
      (FIO_Q_COMPLETED, Some (ff\<lparr>engine_pos := io_offset io + word_of_int (int (unat n))\<rparr>),
       io\<lparr>io_resid := xfer_buflen io - word_of_int (int (unat n)), io_error := 0\<rparr>, [])"
    by (rule fio_io_end_short [OF of_nat_0_le_iff lt]) (use assms(2,3) in simp_all)
  then show ?thesis by auto
qed

text \<open>C36. The engine ignores the offset of an I/O: preparing seeks to 0, so the read that is queued next
  delivers the first bytes of the file, for every offset fio asked for, and the position it
  reports back is nevertheless the offset plus the bytes read.\<close>

theorem fio_read_ignores_offset:
  assumes "transfer_ready L u holds (fio_fd ff) (xfer_buf io) f D g" and "512 dvd unat u" and "io_ddir io = DDIR_READ"
    and "amount = xfer_buflen io div u * u" and "xfer_buflen io div u \<noteq> 0"
    and "fits u (length (g_buffer g)) (f\<lparr>f_pos := 0\<rparr>) D amount (xfer_mem io)"
    and "unat amount \<le> unat (f_size (file_persist f))" and "unat (xfer_buflen io) < 2 ^ 31"
  shows "\<exists>g1 ff' io' calls g2. fio_spdk_syncio_prep L ff io g = Inr (0, g1) \<and>
     fio_spdk_syncio_queue L errno ff io g1 = Inr (FIO_Q_COMPLETED, ff', io', calls, g2) \<and>
     xfer_mem io' = take (unat amount) D @ drop (unat amount) (xfer_mem io) \<and>
     engine_pos ff' = io_offset io + amount"
proof -
  let ?f = "f\<lparr>f_pos := 0\<rparr>" and ?g = "set_open_file (fio_fd ff) (f\<lparr>f_pos := 0\<rparr>) g"
  note t = transfer_readyD [OF assms(1)]
  have pr: "fio_spdk_syncio_prep L ff io g = Inr (0, ?g)" by (rule prep_rewinds [OF assms(1)])
  have rdy: "transfer_ready L u holds (fio_fd ff) (xfer_buf io) ?f D ?g"
    by (rule transfer_ready_seek [OF assms(1)]) simp
  have fit: "fits u (length (g_buffer ?g)) ?f D amount (xfer_mem io)"
    using assms(6) by (simp add: set_open_file_def)
  obtain g2 where rd: "monopoly_read L (fio_fd ff) (xfer_buf io) (xfer_mem io) (xfer_buflen io) ?g =
      Inr (amount, take (unat amount) D @ drop (unat amount) (xfer_mem io), g2)"
    using monopoly_read_bytes [OF rdy assms(2,4) fit assms(5)] assms(7) by auto
  have le: "unat amount \<le> unat (xfer_buflen io)"
    using rounded_down(2) [OF assms(5) t(6)] assms(4) by (simp add: word_le_nat_alt)
  let ?io = "io\<lparr>xfer_mem := take (unat amount) D @ drop (unat amount) (xfer_mem io)\<rparr>"
  have ret: "int_of_ssize amount = int (unat amount)" using le assms(8) by (intro int_of_ssize_small) simp
  obtain ff' io' calls where e: "fio_io_end errno (Some ff) ?io (int (unat amount)) = (FIO_Q_COMPLETED, Some ff', io', calls)"
      "engine_pos ff' = io_offset io + amount" "xfer_mem io' = xfer_mem ?io"
    using read_end [of amount ?io errno ff] le assms(3,8) by (auto simp: word_le_nat_alt)
  have "fio_spdk_syncio_queue L errno ff io ?g = Inr (FIO_Q_COMPLETED, ff', io', calls, g2)"
    using rd assms(3) ret e(1) by (simp add: fio_spdk_syncio_queue_def finish_io_def)
  then show ?thesis using pr e(2,3) by auto
qed

theorem fio_read_ignores_offset_witness:
  "\<exists>g1 ff' io' calls g2. fio_spdk_syncio_prep (mem_lib 512 1024) example_fio_file (example_io DDIR_READ) (open_globals rw_file) =
       Inr (0, g1) \<and>
     fio_spdk_syncio_queue (mem_lib 512 1024) 0 example_fio_file (example_io DDIR_READ) g1 =
       Inr (FIO_Q_COMPLETED, ff', io', calls, g2) \<and>
     xfer_mem io' = replicate 1024 0 @ replicate 476 9 \<and> engine_pos ff' = 5120"
proof -
  have rdy: "transfer_ready (mem_lib 512 1024) 512 (mem_holds 1024 1) (fio_fd example_fio_file) (xfer_buf (example_io DDIR_READ))
      rw_file (replicate 1024 0) (open_globals rw_file)"
    using rw_ready by (simp add: example_fio_file_def example_io_def)
  have am: "(1024 :: u64) = xfer_buflen (example_io DDIR_READ) div 512 * 512" "xfer_buflen (example_io DDIR_READ) div 512 \<noteq> 0"
      "512 dvd unat (512 :: u64)" "unat (xfer_buflen (example_io DDIR_READ)) < 2 ^ 31" "io_ddir (example_io DDIR_READ) = DDIR_READ"
    by (simp_all add: example_io_def)
  have fit: "fits 512 (length (g_buffer (open_globals rw_file))) (rw_file\<lparr>f_pos := 0\<rparr>) (replicate 1024 0) 1024
      (xfer_mem (example_io DDIR_READ))"
    by (simp add: fits_def example_io_def)
  have sz: "unat (1024 :: u64) \<le> unat (f_size (file_persist rw_file))" by (simp add: rw_file_def)
  have "take (unat (1024 :: u64)) (replicate 1024 0) @ drop (unat (1024 :: u64)) (xfer_mem (example_io DDIR_READ)) =
      replicate 1024 0 @ replicate 476 9" "io_offset (example_io DDIR_READ) + 1024 = 5120"
    by (simp_all add: example_io_def)
  then show ?thesis
    using fio_read_ignores_offset [OF rdy am(3,5,1,2) fit sz am(4), of 0] by simp
qed

end
