(* ===== verification/Hello_Reactor.thy ===== *)
theory Hello_Reactor
  imports Fio_Plugin Interface
begin

text \<open>
  \<^verbatim>\<open>hello_spin_reactor.c\<close>: the same fio engine written against the interposed C library
  functions of \<^verbatim>\<open>interface.c\<close>. It opens and closes with \<^verbatim>\<open>__spdk__open\<close> and \<^verbatim>\<open>__spdk__close\<close>,
  which the repository does not define; they are parameters. Printing the descriptor has no model.
\<close>

section \<open>The engine\<close>

definition hello_open_file ::
  "(u8 list \<Rightarrow> u32 \<Rightarrow> u32 \<Rightarrow> ('b, 'k) process \<Rightarrow> (int \<times> ('b, 'k) process) res) \<Rightarrow> u8 list \<Rightarrow> fio_file \<Rightarrow>
     ('b, 'k) process \<Rightarrow> (int \<times> fio_file \<times> ('b, 'k) process) res" where
  "hello_open_file ext_open file_name f p =
     bind_res (ext_open file_name O_CREAT 0x180 p) (\<lambda>(fd, p'). Inr (0, f\<lparr>fio_fd := fd\<rparr>, p'))"

definition hello_get_file_size :: "fio_file \<Rightarrow> int \<times> fio_file" where
  "hello_get_file_size f = (0, f\<lparr>real_file_size := 2000000, size_known := True\<rparr>)"

definition hello_close_file ::
  "(int \<Rightarrow> ('b, 'k) process \<Rightarrow> (int \<times> ('b, 'k) process) res) \<Rightarrow> fio_file \<Rightarrow> ('b, 'k) process \<Rightarrow>
     (int \<times> fio_file \<times> ('b, 'k) process) res" where
  "hello_close_file ext_close f p =
     bind_res (ext_close (fio_fd f) p) (\<lambda>(r, p'). Inr (0, f\<lparr>fio_fd := - 1\<rparr>, p'))"

definition hello_prep :: "'b spdk \<Rightarrow> 'k kernel \<Rightarrow> fio_file \<Rightarrow> io_u \<Rightarrow> ('b, 'k) process \<Rightarrow> (int \<times> ('b, 'k) process) res" where
  "hello_prep L K f io p = bind_res (spdk_lseek L K (fio_fd f) 0 SEEK_SET p) (\<lambda>(r, p'). Inr (0, p'))"

definition hello_io_end ::
  "int \<Rightarrow> fio_file option \<Rightarrow> io_u \<Rightarrow> int \<Rightarrow> fio_q_status \<times> fio_file option \<times> io_u \<times> fio_call list" where
  "hello_io_end errno f io ret =
     (let f' = map_option (\<lambda>x. if 0 \<le> ret \<and> ddir_rw (io_ddir io)
                               then x\<lparr>engine_pos := io_offset io + word_of_int ret\<rparr> else x) f
      in if ret \<noteq> int_of_ssize (xfer_buflen io) \<and> 0 \<le> ret
         then (FIO_Q_COMPLETED, f', io\<lparr>io_resid := xfer_buflen io - word_of_int ret, io_error := 0\<rparr>, [])
         else let io' = (if ret \<noteq> int_of_ssize (xfer_buflen io) then io\<lparr>io_error := errno\<rparr> else io)
              in (FIO_Q_COMPLETED, f', io', report_error io'))"

definition hello_finish :: "int \<Rightarrow> fio_file \<Rightarrow> io_u \<Rightarrow> int \<Rightarrow> 'g \<Rightarrow> fio_q_status \<times> fio_file \<times> io_u \<times> fio_call list \<times> 'g" where
  "hello_finish errno f io ret g =
     (case hello_io_end errno (Some f) io ret of
        (st, f', io', calls) \<Rightarrow> (st, (case f' of None \<Rightarrow> f | Some x \<Rightarrow> x), io', calls, g))"

definition hello_queue ::
  "'b spdk \<Rightarrow> 'k kernel \<Rightarrow> int \<Rightarrow> fio_file \<Rightarrow> io_u \<Rightarrow> ('b, 'k) process \<Rightarrow>
     (fio_q_status \<times> fio_file \<times> io_u \<times> fio_call list \<times> ('b, 'k) process) res" where
  "hello_queue L K errno f io p =
     (case io_ddir io of
        DDIR_READ \<Rightarrow>
          bind_res (spdk_read L K (fio_fd f) (xfer_buf io) (xfer_mem io) (xfer_buflen io) p) (\<lambda>(r, mem, p').
            Inr (hello_finish errno f (io\<lparr>xfer_mem := mem\<rparr>) (int_of_ssize r) p'))
      | DDIR_WRITE \<Rightarrow>
          bind_res (spdk_write L K (fio_fd f) (xfer_buf io) (xfer_mem io) (xfer_buflen io) p) (\<lambda>(r, mem, p').
            Inr (hello_finish errno f (io\<lparr>xfer_mem := mem\<rparr>) (int_of_ssize r) p'))
      | DDIR_TRIM \<Rightarrow> Inr (FIO_Q_COMPLETED, f, io, [Io_u_trim], p)
      | DDIR_SYNC \<Rightarrow> Inr (hello_finish errno f io 0 p))"

definition hello_invalidate :: "fio_file \<Rightarrow> int" where
  "hello_invalidate f = 0"

section \<open>Facts\<close>

lemma hello_io_end_eq: "hello_io_end errno f io ret = fio_io_end errno f io ret"
  by (cases f) (auto simp: hello_io_end_def fio_io_end_def int_of_ssize_def report_error_def Let_def)

lemma int_of_ssize_c_int [simp]: "int_of_ssize (c_int r) = int_of_ssize r"
proof -
  have "(ucast (scast (ucast r :: u32) :: u64) :: u32) = ucast r"
    by (rule bit_word_eqI) (simp add: bit_simps)
  then show ?thesis by (simp add: int_of_ssize_def c_int_def)
qed

text \<open>The result of an engine on the process, seen from the file system alone.\<close>

definition on_process ::
  "int \<Rightarrow> ('b, 'k) process \<Rightarrow> (fio_q_status \<times> fio_file \<times> io_u \<times> fio_call list \<times> 'b globals) res \<Rightarrow>
     (fio_q_status \<times> fio_file \<times> io_u \<times> fio_call list \<times> ('b, 'k) process) res" where
  "on_process fd p r =
     bind_res r (\<lambda>(st, f, io, calls, g). Inr (st, f\<lparr>fio_fd := fd\<rparr>, io, calls, p\<lparr>p_fs := g\<rparr>))"

lemma hello_finish_eq:
  "fio_fd f = fd \<Longrightarrow> on_process fd p (Inr (finish_io errno (f\<lparr>fio_fd := fd'\<rparr>) io ret g)) =
     Inr (hello_finish errno f io ret (p\<lparr>p_fs := g\<rparr>))"
  by (auto simp: on_process_def finish_io_def hello_finish_def hello_io_end_eq fio_io_end_def Let_def
      report_error_def split: if_splits)

lemma hello_queue_process:
  assumes "fio_fd f = TESTFD + n" and "0 \<le> n"
  shows "hello_queue L K errno f io p =
     on_process (TESTFD + n) p (fio_spdk_syncio_queue L errno (f\<lparr>fio_fd := n\<rparr>) io (p_fs p))"
proof (cases "io_ddir io")
  case DDIR_READ
  then show ?thesis
    using assms hello_finish_eq [OF assms(1), of p errno n]
    by (cases "monopoly_read L n (xfer_buf io) (xfer_mem io) (xfer_buflen io) (p_fs p)")
      (auto simp: hello_queue_def fio_spdk_syncio_queue_def spdk_read_def on_process_def [of _ _ "Inl _"])
next
  case DDIR_WRITE
  then show ?thesis
    using assms hello_finish_eq [OF assms(1), of p errno n]
    by (cases "monopoly_write L n (xfer_buf io) (xfer_mem io) (xfer_buflen io) (p_fs p)")
      (auto simp: hello_queue_def fio_spdk_syncio_queue_def spdk_write_def on_process_def [of _ _ "Inl _"])
next
  case DDIR_TRIM
  then show ?thesis using assms(1) by (simp add: hello_queue_def fio_spdk_syncio_queue_def on_process_def)
next
  case DDIR_SYNC
  then show ?thesis
    using assms hello_finish_eq [OF assms(1), of p errno n io 0 "p_fs p"]
    by (simp add: hello_queue_def fio_spdk_syncio_queue_def)
qed

section \<open>Properties\<close>

text \<open>C29. The two engines agree: on a descriptor of the file system, with the number 10086 + \<open>n\<close> it has
  in the interposed library, queueing an I/O gives the status, the file, the I/O unit, the
  reports and the file system that the engine over \<open>monopoly_ops\<close> gives on descriptor \<open>n\<close>, faults
  included, and the kernel is left alone.\<close>

theorem hello_engine_equivalent:
  assumes "fio_fd f = TESTFD + n" and "0 \<le> n"
  shows "hello_queue L K errno f io p =
     on_process (TESTFD + n) p (fio_spdk_syncio_queue L errno (f\<lparr>fio_fd := n\<rparr>) io (p_fs p))"
  by (rule hello_queue_process [OF assms])

theorem hello_engine_equivalent_witness:
  "hello_queue (mem_lib 512 1024) count_kernel 5 (example_fio_file\<lparr>fio_fd := 10086\<rparr>) (example_io DDIR_READ)
       \<lparr>p_fs = open_globals rw_file, p_kernel = 3, p_open_found = True\<rparr> =
   on_process 10086 \<lparr>p_fs = open_globals rw_file, p_kernel = 3, p_open_found = True\<rparr>
     (fio_spdk_syncio_queue (mem_lib 512 1024) 5 (example_fio_file\<lparr>fio_fd := 0\<rparr>) (example_io DDIR_READ) (open_globals rw_file))"
  using hello_engine_equivalent [of "example_fio_file\<lparr>fio_fd := 10086\<rparr>" 0 "mem_lib 512 1024" count_kernel 5
      "example_io DDIR_READ" "\<lparr>p_fs = open_globals rw_file, p_kernel = 3, p_open_found = True\<rparr>"]
  by (simp add: TESTFD_def)

end
