(* ===== verification/Find_Path.thy ===== *)
theory Find_Path
  imports Transfer_Props
begin

text \<open>
  \<open>find_path\<close> of \<^verbatim>\<open>simple_fs/dir.c\<close>: resolving a path to a directory and the last name. The
  function works on directory objects through pointers and changes them in place, so the
  directories are in a store indexed by their address. No code of the repository calls it;
  \<^verbatim>\<open>find_dir\<close>, which the code does call, is not defined.
\<close>

section \<open>The function\<close>

type_synonym dir_store = "nat \<Rightarrow> spdkfs_dir"

text \<open>The C string at a buffer.\<close>

definition c_string :: "u8 list \<Rightarrow> u8 list" where
  "c_string mem = takeWhile (\<lambda>c. c \<noteq> 0) mem"

lemma copy_part_shorter: "copy_part src n part = (r, n', part', src') \<Longrightarrow> length src' \<le> length src"
  by (induction src n part rule: copy_part.induct) (auto split: if_splits)

lemma next_part_shorter:
  assumes "get_next_part part srcp = (r, part', srcp')" and "r \<noteq> 0" and "r \<noteq> - 1"
  shows "length srcp' < length srcp"
proof -
  let ?src = "dropWhile (\<lambda>c. c = slash) srcp"
  obtain c cs where src: "?src = c # cs"
    using assms(1,2) by (cases ?src) (auto simp: get_next_part_def)
  have "c \<noteq> slash" using hd_dropWhile [of "\<lambda>c. c = slash" srcp] src by auto
  obtain q n' p s where q: "copy_part cs (Suc 0) (part[0 := c]) = (q, n', p, s)" by (metis prod_cases4)
  have "srcp' = s"
    using assms src q \<open>c \<noteq> slash\<close> by (auto simp: get_next_part_def Let_def SPDK_MAX_NAME_COUNT_def split: if_splits)
  then have "length srcp' \<le> length cs" using copy_part_shorter [OF q] by simp
  also have "\<dots> < length ?src" using src by simp
  also have "\<dots> \<le> length srcp" by (rule length_dropWhile_le)
  finally show ?thesis .
qed

text \<open>
  The \<^verbatim>\<open>while\<close> loop. \<open>dir\<close> and \<open>now\<close> are the addresses of \<^verbatim>\<open>dir\<close> and \<^verbatim>\<open>now_dir\<close>; \<open>named\<close> says whether
  \<^verbatim>\<open>file_name\<close> has been written. The number of the entry is what \<open>blob_open\<close> gets as the id.
\<close>

function find_path_loop ::
  "'b spdk \<Rightarrow> env \<Rightarrow> nat \<Rightarrow> nat \<Rightarrow> u8 list \<Rightarrow> bool \<Rightarrow> u8 list \<Rightarrow> dir_store \<Rightarrow> 'b thread \<Rightarrow>
     (bool \<times> u8 list \<times> bool \<times> dir_store \<times> 'b thread) res" where
  "find_path_loop L e dir now file_name named name st th =
     (case get_next_part file_name name of (result, part, name') \<Rightarrow>
      if result = 0 then Inr (True, part, named, st, th)
      else if name' = [] then Inr (True, part, True, st, th)
      else if result = - 1 then Inr (False, part, True, st, th)
      else bind_res (spdkfs_dir_lookup (st now) (c_string part)) (\<lambda>blob_id.
           if blob_id = - 1 then Inr (False, part, True, st, th)
           else bind_res (if now \<noteq> dir then op_closedir (simplefs_dir_ops L) (stack_done e) (st now) th else Inr th) (\<lambda>th1.
                bind_res (blob_open L (stack_done e) (d_blob (st now)) (word_of_int blob_id) th1) (\<lambda>(ok, blb, th2).
                bind_res (op_readdir (simplefs_dir_ops L) (junk_mem e) ((st now)\<lparr>d_blob := blb\<rparr>) th2) (\<lambda>(d, th3).
                  find_path_loop L e dir now part True name' (st(now := d)) th3)))))"
  by pat_completeness auto
termination
  by (relation "measure (\<lambda>(L, e, dir, now, file_name, named, name, st, th). length name)")
    (auto dest: next_part_shorter [OF sym])

declare find_path_loop.simps [simp del]

text \<open>\<open>root\<close> and \<open>file_dir\<close> are the addresses of the root directory and of the result. The result is
  the return value, the new content of \<^verbatim>\<open>tail_name\<close> if it is written, and the directories.\<close>

definition find_path ::
  "'b spdk \<Rightarrow> env \<Rightarrow> nat \<Rightarrow> nat \<Rightarrow> nat \<Rightarrow> u8 list \<Rightarrow> u8 list \<Rightarrow> dir_store \<Rightarrow> 'b thread \<Rightarrow>
     (bool \<times> u8 list option \<times> dir_store \<times> 'b thread) res" where
  "find_path L e root dir file_dir junk name st th =
     (if name = [slash] then Inr (True, Some [46], st, th)
      else let now = (if name \<noteq> [] \<and> hd name = slash then root else dir)
           in bind_res (find_path_loop L e dir now junk False name st th) (\<lambda>(ok, file_name, named, st', th').
                if \<not> ok then Inr (False, None, st', th')
                else if \<not> named then Inl Uninit_read
                else Inr (True, Some (c_string file_name), st'(file_dir := st' now), th')))"

section \<open>Facts\<close>

text \<open>A name: not empty, at most 512 bytes, neither a slash nor a null byte in it.\<close>

definition path_name :: "u8 list \<Rightarrow> bool" where
  "path_name w \<longleftrightarrow> w \<noteq> [] \<and> slash \<notin> set w \<and> 0 \<notin> set w \<and> length w \<le> 512"

lemma path_name_hd: "path_name w \<Longrightarrow> w \<noteq> [] \<and> hd w \<noteq> slash"
  by (cases w) (auto simp: path_name_def)

lemma next_part_name:
  assumes "length part = 513" and "path_name w" and "rest = [] \<or> hd rest = slash"
  shows "\<exists>part'. length part' = 513 \<and> c_string part' = w \<and>
    get_next_part part (w @ rest) = (1, part', rest) \<and> get_next_part part (slash # w @ rest) = (1, part', rest)"
proof -
  have w: "w \<noteq> []" "slash \<notin> set w" "0 \<notin> set w" "length w \<le> 512" using assms(2) by (simp_all add: path_name_def)
  obtain tl where t: "get_next_part part (slash # w @ rest) = (1, w @ 0 # tl, rest)" "length (w @ 0 # tl) = 513"
    using next_part_component [OF assms(1) w(1,2,4) assms(3)] by blast
  obtain c w' where cw: "w = c # w'" "c \<noteq> slash" using path_name_hd [OF assms(2)] by (cases w) auto
  obtain r n q src where q: "copy_part (c # w' @ rest) 0 part = (r, n, q, src)" by (metis prod_cases4)
  have "get_next_part part (w @ rest) = get_next_part part (slash # w @ rest)"
    using t(1) q cw(2) unfolding cw(1) by (auto simp: get_next_part_def Let_def simp del: copy_part.simps split: if_splits)
  moreover have "c_string (w @ 0 # tl) = w" using w(3) by (auto simp: c_string_def takeWhile_append)
  ultimately show ?thesis using t by auto
qed

section \<open>Properties\<close>

text \<open>A path of one component, relative or absolute, resolves without touching a blob: the tail is
  the name, and the result is a copy of the directory the function started from or of the root.
  The root path itself is reported as found with the tail \<^verbatim>\<open>.\<close>, but its directory is assigned to
  the parameter only, so the caller's directory is left as it was.\<close>

theorem find_path_single:
  assumes "path_name w" and "length junk = 513"
  shows "find_path L e root dir file_dir junk w st th = Inr (True, Some w, st(file_dir := st dir), th) \<and>
     find_path L e root dir file_dir junk (slash # w) st th = Inr (True, Some w, st(file_dir := st root), th) \<and>
     find_path L e root dir file_dir junk [slash] st th = Inr (True, Some [46], st, th)"
proof -
  obtain part where p: "c_string part = w" "get_next_part junk w = (1, part, [])" "get_next_part junk (slash # w) = (1, part, [])"
    using next_part_name [OF assms(2,1), of "[]"] by auto
  have w: "w \<noteq> []" "hd w \<noteq> slash" "w \<noteq> [slash]" using path_name_hd [OF assms(1)] by auto
  have "find_path_loop L e dir now junk False w st th = Inr (True, part, True, st, th)"
    and "find_path_loop L e dir now junk False (slash # w) st th = Inr (True, part, True, st, th)" for now
    using p by (simp_all add: find_path_loop.simps [of L e dir now junk])
  then show ?thesis
    using w p(1) by (simp add: find_path_def)
qed

theorem find_path_single_witness:
  "find_path dead_lib example_env 0 1 2 (replicate 513 7) [47, 97, 98] (\<lambda>_. empty_dir) (idle_thread ()) =
     Inr (True, Some [97, 98], \<lambda>_. empty_dir, idle_thread ())"
  using find_path_single [of "[97, 98]" "replicate 513 7" dead_lib example_env 0 1 2 "\<lambda>_. empty_dir" "idle_thread ()"]
  by (simp add: path_name_def slash_def fun_upd_idem)

text \<open>C40. Descending into a directory opens the wrong blob: for a path of two components the function
  asks the library for the blob whose id is the number of the entry, not for the id stored in the
  entry, and it overwrites the blob handle of the directory it was given.\<close>

theorem find_path_opens_index:
  assumes "path_name w1" and "path_name w2" and "length junk = 513" and "idle th" and "\<not> stack_done e"
    and "spdkfs_dir_lookup (st dir) w1 = Inr (int k)"
    and "lib_completes L n (submit L (Bs_open_blob (of_nat k)) (lib th)) c b" and "n < POLLER_MAX_TIME"
    and "d_has_fs (st dir)" and "get_xattr L b (c_blob c) dir_xattr = Some (Dir_ctx ctx)"
    and "read_done L b (c_blob c) 0 (d_size ctx) err bs b'" and "length bs \<le> unat (d_size ctx)"
  shows "\<exists>d th'. find_path L e root dir file_dir junk (w1 @ slash # w2) st th =
       Inr (True, Some w2, st(dir := d, file_dir := d), th') \<and> settled b' th' \<and>
     d_blob d = c_blob c \<and> dir_persist d = ctx \<and> take (length bs) (dirents d) = bs"
proof -
  obtain p1 where p1: "length p1 = 513" "c_string p1 = w1" "get_next_part junk (w1 @ slash # w2) = (1, p1, slash # w2)"
    using next_part_name [OF assms(3,1), of "slash # w2"] by auto
  obtain p2 where p2: "c_string p2 = w2" "get_next_part p1 (slash # w2) = (1, p2, [])"
    using next_part_name [OF p1(1) assms(2), of "[]"] by auto
  obtain th1 where o: "blob_open L False (d_blob (st dir)) (of_nat k) th = Inr (bserrno c = 0, c_blob c, th1)" "settled b th1"
    using blob_open_correct_aux [OF assms(4,7,8)] by blast
  let ?d0 = "(st dir)\<lparr>d_blob := c_blob c\<rparr>"
  have th1: "idle th1" "lib th1 = b" using o(2) by (simp_all add: settled_def)
  have "load_dir_persist L ?d0 th1 = Inr ctx"
    using assms(10) th1(2) by (simp add: load_dir_persist_def sizeof_dir_ctx_def)
  then obtain mem th2 where r: "simple_dir_read L (junk_mem e) ?d0 th1 =
      Inr (?d0\<lparr>dir_persist := ctx, dirents := mem, d_initialized := True, d_dirty := False\<rparr>, th2)"
      "settled b' th2" "take (length bs) mem = bs"
    using blob_read_done [of th1 L "c_blob c" 0 "d_size ctx" err bs b' "fresh_mem (junk_mem e) (unat (d_size ctx))"] th1
      assms(9,11,12) by (auto simp: simple_dir_read_def fresh_mem_def)
  let ?d = "?d0\<lparr>dir_persist := ctx, dirents := mem, d_initialized := True, d_dirty := False\<rparr>"
  have "find_path_loop L e dir dir p1 True (slash # w2) (st(dir := ?d)) th2 = Inr (True, p2, True, st(dir := ?d), th2)"
    using p2(2) by (simp add: find_path_loop.simps)
  then have "find_path_loop L e dir dir junk False (w1 @ slash # w2) st th = Inr (True, p2, True, st(dir := ?d), th2)"
    using p1 assms(5,6) o(1) r(1) by (subst find_path_loop.simps) simp
  moreover have "w1 \<noteq> []" "hd w1 \<noteq> slash" using path_name_hd [OF assms(1)] by simp_all
  ultimately have "find_path L e root dir file_dir junk (w1 @ slash # w2) st th =
      Inr (True, Some w2, st(dir := ?d, file_dir := ?d), th2)"
    using p2(1) by (cases w1) (auto simp: find_path_def Let_def)
  then show ?thesis using r(2,3) by (intro exI [of _ ?d] exI [of _ th2]) simp
qed

theorem find_path_opens_index_witness:
  "dirent_id example_dir 1 = Inr 2 \<and> (\<exists>d th'. find_path (mem_lib 512 1536) example_env 0 1 2 (replicate 513 7)
       [98, 99, 47, 120] (\<lambda>_. example_dir) (idle_thread example_dir_disk) =
       Inr (True, Some [120], (\<lambda>_. example_dir)(1 := d, 2 := d), th') \<and> d_blob d = 1)"
proof
  show "dirent_id example_dir 1 = Inr 2"
    by (simp add: dirent_id_def get_bytes_def example_dir_def example_dirents_def sizeof_dirent_def SPDK_MAX_NAME_COUNT_def)
  let ?c = "\<lparr>bserrno = 0, c_blobid = 1, c_blob = 1, c_data = []\<rparr>"
  have lk: "spdkfs_dir_lookup example_dir [98, 99] = Inr (int 1)"
    by (simp add: spdkfs_dir_lookup_def lookup_dirents.simps example_dir_def example_dirents_def sizeof_dirent_def)
  have op: "lib_completes (mem_lib 512 1536) 0 (submit (mem_lib 512 1536) (Bs_open_blob (of_nat 1)) (lib (idle_thread example_dir_disk)))
      ?c example_dir_disk"
    by (simp add: example_dir_disk_def mem_empty_def answer_def)
  have xa: "get_xattr (mem_lib 512 1536) example_dir_disk (c_blob ?c) dir_xattr = Some (Dir_ctx ((dir_persist example_dir)\<lparr>d_size := 1536\<rparr>))"
    by (simp add: example_dir_disk_def)
  have rd: "read_done (mem_lib 512 1536) example_dir_disk (c_blob ?c) 0 (d_size ((dir_persist example_dir)\<lparr>d_size := 1536\<rparr>))
      0 (example_dirents @ replicate 496 0) example_dir_disk"
    using example_dir_read_done by simp
  have nm: "path_name [98, 99]" "path_name [120]" by (simp_all add: path_name_def slash_def)
  have "\<exists>d th'. find_path (mem_lib 512 1536) example_env 0 1 2 (replicate 513 7) ([98, 99] @ slash # [120])
       (\<lambda>_. example_dir) (idle_thread example_dir_disk) =
       Inr (True, Some [120], (\<lambda>_. example_dir)(1 := d, 2 := d), th') \<and> settled example_dir_disk th' \<and>
     d_blob d = c_blob ?c \<and> dir_persist d = (dir_persist example_dir)\<lparr>d_size := 1536\<rparr> \<and>
     take (length (example_dirents @ replicate 496 0)) (dirents d) = example_dirents @ replicate 496 0"
    by (rule find_path_opens_index [OF nm _ _ _ lk op _ _ xa rd])
      (simp_all add: example_dir_def example_dirents_def POLLER_MAX_TIME_def)
  then show "\<exists>d th'. find_path (mem_lib 512 1536) example_env 0 1 2 (replicate 513 7)
       [98, 99, 47, 120] (\<lambda>_. example_dir) (idle_thread example_dir_disk) =
       Inr (True, Some [120], (\<lambda>_. example_dir)(1 := d, 2 := d), th') \<and> d_blob d = 1"
    by (auto simp: slash_def)
qed

end
