(* ===== verification/Radix_Gang.thy ===== *)
theory Radix_Gang
  imports Radix_Tree
begin

text \<open>
  The ascending scan of \<^verbatim>\<open>spdk_fs/radix_tree.c\<close>: \<open>__lookup\<close> and \<open>radix_tree_gang_lookup\<close>. The
  scan is proved equivalent to listing the items of the abstract map in key order, on the trees
  for which its shifts of an \<^verbatim>\<open>int\<close> are defined.
\<close>

section \<open>The scan\<close>

text \<open>\<^verbatim>\<open>1 << shift\<close> is a shift of an \<^verbatim>\<open>int\<close>; the result is widened to \<^verbatim>\<open>unsigned long\<close>.\<close>

definition c_shl1 :: "u32 \<Rightarrow> u64 res" where
  "c_shl1 shift = (if unat shift < 31 then Inr (push_bit (unat shift) 1) else Inl Shift_overflow)"

text \<open>The search for a non-null slot in a node, from slot \<open>i\<close>; 64 when the code goes to \<^verbatim>\<open>out\<close>.\<close>

function scan_slots :: "(digit \<Rightarrow> slot) \<Rightarrow> u32 \<Rightarrow> nat \<Rightarrow> u64 \<Rightarrow> (nat \<times> u64) res" where
  "scan_slots f shift i index =
     (if i < 64 then
        if f (of_nat i) \<noteq> Null then Inr (i, index)
        else bind_res (c_shl1 shift) (\<lambda>bit.
               let index' = (index AND NOT (bit - 1)) + bit
               in if index' = 0 then Inr (64, 0) else scan_slots f shift (Suc i) index')
      else Inr (i, index))"
  by pat_completeness auto
termination
  by (relation "measure (\<lambda>(f, shift, i, index). 64 - i)") auto

declare scan_slots.simps [simp del]

text \<open>Grabbing items at the bottom, from slot \<open>j\<close>; \<open>items\<close> are the results so far.\<close>

function grab_items :: "(digit \<Rightarrow> slot) \<Rightarrow> nat \<Rightarrow> u64 \<Rightarrow> nat \<Rightarrow> u64 list \<Rightarrow> (u64 list \<times> u64) res" where
  "grab_items f j index max_items items =
     (if j < 64 then
        bind_res (load_item (f (of_nat j))) (\<lambda>x.
          if x \<noteq> 0 then
            if Suc (length items) = max_items then Inr (items @ [x], index + 1)
            else grab_items f (Suc j) (index + 1) max_items (items @ [x])
          else grab_items f (Suc j) (index + 1) max_items items)
      else Inr (items, index))"
  by pat_completeness auto
termination
  by (relation "measure (\<lambda>(f, j, index, max_items, items). 64 - j)") auto

declare grab_items.simps [simp del]

fun lookup_level :: "nat \<Rightarrow> u32 \<Rightarrow> u64 \<Rightarrow> nat \<Rightarrow> slot \<Rightarrow> (u64 list \<times> u64) res" where
  "lookup_level 0 shift index max_items s = Inr ([], index)"
| "lookup_level (Suc h) shift index max_items s =
     (case s of
        Null \<Rightarrow> Inl Null_deref
      | Item x \<Rightarrow> Inl Type_confusion
      | Node c f \<Rightarrow>
          bind_res (scan_slots f shift (unat (slot_of index shift)) index) (\<lambda>(i, index').
            if i = 64 then Inr ([], index')
            else if h = 0 then grab_items f (unat (index' AND RADIX_TREE_MAP_MASK)) index' max_items []
            else lookup_level h (shift - RADIX_TREE_MAP_SHIFT) index' max_items (f (of_nat i))))"

text \<open>\<open>__lookup\<close>: the items found and the index of the next search.\<close>

definition gang_lookup_once :: "radix_tree_root \<Rightarrow> u64 \<Rightarrow> nat \<Rightarrow> (u64 list \<times> u64) res" where
  "gang_lookup_once root index max_items =
     lookup_level (height root) (root_shift (height root)) index max_items (rnode root)"

text \<open>The loop of \<open>radix_tree_gang_lookup\<close>; \<open>None\<close> is a loop that does not end.\<close>

partial_function (option) gang_loop ::
  "radix_tree_root \<Rightarrow> u64 \<Rightarrow> u64 \<Rightarrow> nat \<Rightarrow> u64 list \<Rightarrow> u64 list res option" where
  "gang_loop root max_index cur max_items results =
     (if length results < max_items then
        if max_index < cur then Some (Inr results)
        else case gang_lookup_once root cur (max_items - length results) of
               Inl e \<Rightarrow> Some (Inl e)
             | Inr (items, nxt) \<Rightarrow>
                 if nxt = 0 then Some (Inr (results @ items))
                 else gang_loop root max_index nxt max_items (results @ items)
      else Some (Inr results))"

definition radix_tree_gang_lookup ::
  "maxindex_table \<Rightarrow> radix_tree_root \<Rightarrow> u64 \<Rightarrow> nat \<Rightarrow> u64 list res" where
  "radix_tree_gang_lookup tbl root first max_items =
     bind_res (radix_tree_maxindex tbl (height root)) (\<lambda>max_index.
       if rnode root = Null then Inr []
       else if max_index = 0 then
         if first = 0 \<and> 0 < max_items then bind_res (load_item (rnode root)) (\<lambda>x. Inr [x]) else Inr []
       else case gang_loop root max_index first max_items [] of None \<Rightarrow> Inl No_return | Some r \<Rightarrow> r)"

section \<open>Listing a map\<close>

text \<open>The values of \<open>M\<close> that are not 0, at the keys from \<open>a\<close> to below \<open>b\<close>, in key order.\<close>

definition entries :: "(nat \<Rightarrow> u64) \<Rightarrow> nat \<Rightarrow> nat \<Rightarrow> u64 list" where
  "entries M a b = map M (filter (\<lambda>k. M k \<noteq> 0) [a..<b])"

lemma entries_append: "a \<le> b \<Longrightarrow> b \<le> c \<Longrightarrow> entries M a b @ entries M b c = entries M a c"
  by (simp add: entries_def flip: map_append filter_append) (metis le_add_diff_inverse upt_add_eq_append)

lemma entries_empty: "(\<And>k. a \<le> k \<Longrightarrow> k < b \<Longrightarrow> M k = 0) \<Longrightarrow> entries M a b = []"
  by (auto simp: entries_def filter_empty_conv)

lemma entries_cong: "(\<And>k. a \<le> k \<Longrightarrow> k < b \<Longrightarrow> M k = N k) \<Longrightarrow> entries M a b = entries N a b"
  unfolding entries_def by (rule map_cong) (auto intro!: filter_cong)

lemma entries_one: "entries M a (Suc a) = (if M a = 0 then [] else [M a])"
  by (simp add: entries_def)

lemma entries_none [simp]: "b \<le> a \<Longrightarrow> entries M a b = []"
  by (simp add: entries_def)

section \<open>Index arithmetic\<close>

lemma take_bit_u64: "take_bit 64 (unat (x :: u64)) = unat x"
  using unsigned_less [of x] by (intro take_bit_nat_eq_self) simp

lemma unat_push_drop: "unat (push_bit m (drop_bit m (x :: u64))) = unat x div 2 ^ m * 2 ^ m"
proof -
  have "unat x div 2 ^ m * 2 ^ m \<le> unat x" by simp
  also have "unat x < 2 ^ 64" using unsigned_less [of x] by simp
  finally have "unat x div 2 ^ m * 2 ^ m < 2 ^ 64" .
  moreover have "unat (push_bit m (drop_bit m x)) = take_bit 64 (push_bit m (drop_bit m (unat x)))"
    by (simp only: unsigned_push_bit_eq unsigned_drop_bit_eq) (simp add: take_bit_u64)
  ultimately show ?thesis
    by (simp add: push_bit_eq_mult drop_bit_eq_div take_bit_nat_eq_self)
qed

lemma unat_sum64: "unat a + unat b < 2 ^ 64 \<Longrightarrow> unat (a + b :: u64) = unat a + unat b"
  by (simp add: unat_word_ariths)

text \<open>Rounding an index up to the next multiple of \<open>2 ^ m\<close>.\<close>

lemma unat_round_up:
  assumes "m \<le> 30" and "unat x \<le> 2 ^ 36"
  shows "unat ((x AND NOT (push_bit m 1 - 1)) + push_bit m (1 :: u64)) = (unat x div 2 ^ m + 1) * 2 ^ m"
proof -
  have e: "x AND NOT (push_bit m 1 - 1) = push_bit m (drop_bit m x)"
    unfolding push_bit_of_1 mask_eq_exp_minus_1 [symmetric]
    by (rule bit_word_eqI) (auto simp: bit_simps)
  have p: "unat (push_bit m (1 :: u64)) = 2 ^ m"
    using assms(1) by (simp only: unsigned_push_bit_eq) (simp add: push_bit_eq_mult take_bit_nat_eq_self)
  have "unat x div 2 ^ m * 2 ^ m \<le> unat x" by simp
  moreover have "(2 :: nat) ^ m \<le> 2 ^ 30" using assms(1) by (intro power_increasing) simp_all
  ultimately have "unat x div 2 ^ m * 2 ^ m + 2 ^ m \<le> 2 ^ 36 + 2 ^ 30"
    using assms(2) by (intro add_mono) (rule order_trans)
  also have "\<dots> < (2 :: nat) ^ 64" by simp
  finally have "unat x div 2 ^ m * 2 ^ m + 2 ^ m < 2 ^ 64" .
  then show ?thesis
    unfolding e using p unat_push_drop [of m x] unat_sum64 [of "push_bit m (drop_bit m x)" "push_bit m 1"]
    by (simp only: add_mult_distrib mult_1)
qed

lemma unat_digit: "unat (digit_at h x) = unat x div 2 ^ (6 * h) mod 64"
proof -
  have "unat (digit_at h x) = take_bit 6 (drop_bit (6 * h) (unat x))"
    by (simp only: digit_at_def unsigned_ucast_eq unsigned_drop_bit_eq) (simp add: take_bit_u64)
  then show ?thesis by (simp add: take_bit_eq_mod drop_bit_eq_div)
qed


section \<open>The scan on well-formed trees\<close>

lemma c_shl1_root: "h \<le> 5 \<Longrightarrow> c_shl1 (root_shift (Suc h)) = Inr (push_bit (6 * h) 1)"
  by (simp add: c_shl1_def root_shift_def RADIX_TREE_MAP_SHIFT_def unat_word_ariths unsigned_of_nat
    take_bit_nat_eq_self mult.commute)

lemma digit_nat: "i < 64 \<Longrightarrow> unat x div 2 ^ (6 * h) = 64 * B + i \<Longrightarrow> digit_at h x = of_nat i"
  by (rule unsigned_word_eqI [where ?'a = nat]) (simp add: unat_digit unsigned_of_nat take_bit_eq_mod)

text \<open>All keys from \<open>x\<close> to the end of the child that holds \<open>x\<close> use the same slot.\<close>

lemma digit_between:
  assumes "i < 64" "unat x div 2 ^ (6 * h) = 64 * B + i" "unat x \<le> k" "k < (64 * B + Suc i) * 2 ^ (6 * h)"
    "(64 * B + 64) * 2 ^ (6 * h) \<le> 2 ^ 36"
  shows "digit_at h (of_nat k) = of_nat i"
proof -
  have "k div 2 ^ (6 * h) < 64 * B + Suc i"
    using assms(4) by (rule less_mult_imp_div_less)
  moreover have "64 * B + i \<le> k div 2 ^ (6 * h)"
    using div_le_mono [OF assms(3), of "2 ^ (6 * h)"] assms(2) by simp
  moreover have "(64 * B + Suc i) * 2 ^ (6 * h) \<le> (64 * B + 64) * 2 ^ (6 * h)"
    using assms(1) by (intro mult_le_mono1) simp
  then have "k < 2 ^ 36" using assms(4,5) by linarith
  then have "unat (of_nat k :: u64) = k"
    by (simp add: unsigned_of_nat take_bit_nat_eq_self)
  ultimately show ?thesis
    using assms(1) by (intro digit_nat [of _ _ _ B]) simp_all
qed

lemma scan_slots_spec:
  assumes "h \<le> 5" "i \<le> 64" "unat x div 2 ^ (6 * h) = 64 * B + i" "(64 * B + 64) * 2 ^ (6 * h) \<le> 2 ^ 36"
    "unat x \<le> 2 ^ 36"
  shows "\<exists>i' y. scan_slots f (root_shift (Suc h)) i x = Inr (i', y) \<and> i \<le> i' \<and> i' \<le> 64 \<and> unat x \<le> unat y \<and>
    unat y div 2 ^ (6 * h) = 64 * B + i' \<and> (i' < 64 \<longrightarrow> f (of_nat i') \<noteq> Null) \<and>
    (y = x \<and> i' = i \<or> unat y = (64 * B + i') * 2 ^ (6 * h)) \<and>
    (\<forall>k. unat x \<le> k \<longrightarrow> k < unat y \<longrightarrow> f (digit_at h (of_nat k)) = Null)"
  using assms
proof (induction "64 - i" arbitrary: i x)
  case 0
  then show ?case by (subst scan_slots.simps) auto
next
  case (Suc n)
  show ?case
  proof (cases "f (of_nat i) = Null")
    case False
    then show ?thesis using Suc.prems Suc.hyps(2) by (subst scan_slots.simps) auto
  next
    case True
    let ?y = "(x AND NOT (push_bit (6 * h) 1 - 1)) + push_bit (6 * h) 1"
    let ?P = "2 ^ (6 * h) :: nat"
    have y: "unat ?y = (64 * B + Suc i) * ?P"
      using unat_round_up [of "6 * h" x] Suc.prems(1,3,5) by simp
    have i: "i < 64" using Suc.hyps(2) by simp
    have "(64 * B + Suc i) * ?P \<le> (64 * B + 64) * ?P" using i by (intro mult_le_mono1) simp
    then have le: "unat ?y \<le> 2 ^ 36" using y Suc.prems(4) by linarith
    have nz: "?y \<noteq> 0" using y by (metis mult_eq_0_iff power_eq_0_iff unsigned_0 add_Suc_right nat.distinct(1) zero_neq_numeral)
    have below: "unat x < unat ?y"
      unfolding y using dividend_less_div_times [of ?P "unat x"] Suc.prems(3) by simp
    have empty: "f (digit_at h (of_nat k)) = Null" if "unat x \<le> k" "k < unat ?y" for k
      using digit_between [OF i Suc.prems(3) that(1) _ Suc.prems(4)] that(2) True unfolding y by simp
    have step: "scan_slots f (root_shift (Suc h)) i x = scan_slots f (root_shift (Suc h)) (Suc i) ?y"
      using True i nz c_shl1_root [OF Suc.prems(1)] by (subst scan_slots.simps) (simp add: Let_def)
    obtain i' z where z: "scan_slots f (root_shift (Suc h)) (Suc i) ?y = Inr (i', z)" "Suc i \<le> i'" "i' \<le> 64"
      "unat ?y \<le> unat z" "unat z div ?P = 64 * B + i'" "i' < 64 \<longrightarrow> f (of_nat i') \<noteq> Null"
      "z = ?y \<and> i' = Suc i \<or> unat z = (64 * B + i') * ?P"
      "\<forall>k. unat ?y \<le> k \<longrightarrow> k < unat z \<longrightarrow> f (digit_at h (of_nat k)) = Null"
    proof -
      have "n = 64 - Suc i" "Suc i \<le> 64" "unat ?y div ?P = 64 * B + Suc i"
        using Suc.hyps(2) i y by simp_all
      from Suc.hyps(1) [OF this(1) Suc.prems(1) this(2,3) Suc.prems(4) le] that show thesis by blast
    qed
    have "f (digit_at h (of_nat k)) = Null" if "unat x \<le> k" "k < unat z" for k
      using that empty z(8) not_le by blast
    moreover have "unat z = (64 * B + i') * ?P" using z(7) y by auto
    ultimately show ?thesis
      using step z(1-6) below by (intro exI [of _ i'] exI [of _ z]) simp
  qed
qed

lemma grab_items_spec:
  assumes "j \<le> 64" "unat x = 64 * B + j" "64 * B + 64 \<le> 2 ^ 36" "length items < m"
    "\<And>d. wf_slot 0 (f d)" "M = (\<lambda>k. look 0 (f (of_nat k)) 0)"
  shows "\<exists>items' y. grab_items f j x m items = Inr (items @ items', y) \<and> items' = entries M (unat x) (unat y) \<and>
    unat x \<le> unat y \<and> (j < 64 \<longrightarrow> unat x < unat y) \<and> unat y \<le> 64 * B + 64 \<and> length (items @ items') \<le> m"
  using assms(1-4)
proof (induction "64 - j" arbitrary: j x items)
  case 0
  then show ?case by (subst grab_items.simps) auto
next
  case (Suc n)
  have j: "j < 64" using Suc.hyps(2) by simp
  have x1: "unat (x + 1) = Suc (unat x)"
    using Suc.prems(2,3) j by (simp add: unat_word_ariths)
  obtain v where v: "load_item (f (of_nat j)) = Inr v" "look 0 (f (of_nat j)) 0 = v"
    using assms(5) [of "of_nat j"] by (cases "f (of_nat j)") auto
  have "of_nat (unat x) = (of_nat j :: digit)"
    using j Suc.prems(2)
    by (intro unsigned_word_eqI [where ?'a = nat]) (simp only: unsigned_of_nat take_bit_eq_mod, simp)
  then have M: "M (unat x) = v" using v(2) by (simp add: assms(6))
  let ?items = "if v = 0 then items else items @ [v]"
  have one: "entries M (unat x) (unat (x + 1)) = (if v = 0 then [] else [v])"
    using entries_one [of M "unat x"] M x1 by simp
  show ?case
  proof (cases "v \<noteq> 0 \<and> Suc (length items) = m")
    case True
    then show ?thesis
      using j v(1) one x1 Suc.prems(2) by (subst grab_items.simps) auto
  next
    case False
    then have len: "length ?items < m" using Suc.prems(4) by auto
    have step: "grab_items f j x m items = grab_items f (Suc j) (x + 1) m ?items"
      using False j v(1) by (subst grab_items.simps) auto
    obtain items' y where y: "grab_items f (Suc j) (x + 1) m ?items = Inr (?items @ items', y)"
      "items' = entries M (unat (x + 1)) (unat y)" "unat (x + 1) \<le> unat y" "unat y \<le> 64 * B + 64"
      "length (?items @ items') \<le> m"
    proof -
      have "n = 64 - Suc j" "Suc j \<le> 64" "unat (x + 1) = 64 * B + Suc j"
        using Suc.hyps(2) Suc.prems(2) j x1 by simp_all
      from Suc.hyps(1) [OF this Suc.prems(3) len] that show thesis by blast
    qed
    have "entries M (unat x) (unat y) = (if v = 0 then [] else [v]) @ items'"
      using entries_append [of "unat x" "unat (x + 1)" "unat y" M] one y(2,3) x1 by simp
    then show ?thesis
      using step y(1,3-5) x1 by (intro exI [of _ "entries M (unat x) (unat y)"] exI [of _ y]) auto
  qed
qed


lemma digit_at_0: "digit_at 0 (of_nat k) = of_nat k"
  by (simp add: digit_at_def unsigned_of_nat word_of_nat_eq_iff)

lemma unat_and_63: "unat (y AND 63 :: u64) = unat y mod 64"
proof -
  have "y AND 63 = take_bit 6 y" by (simp add: take_bit_eq_mask mask_eq_exp_minus_1)
  then show ?thesis
    by (simp only: unsigned_take_bit_eq) (simp add: take_bit_eq_mod)
qed

text \<open>A call of \<open>__lookup\<close> lists the items from \<open>x\<close> up to where it stops, which is past \<open>x\<close>.\<close>

lemma lookup_level_spec:
  assumes "0 < h" "h \<le> 6" "wf_slot h s" "s \<noteq> Null" "0 < m" "unat x < 2 ^ 36"
  shows "\<exists>y. lookup_level h (root_shift h) x m s = Inr (entries (\<lambda>k. look h s (of_nat k)) (unat x) (unat y), y) \<and>
    unat x < unat y \<and> unat y \<le> (unat x div 2 ^ (6 * h) + 1) * 2 ^ (6 * h) \<and>
    length (entries (\<lambda>k. look h s (of_nat k)) (unat x) (unat y)) \<le> m"
  using assms
proof (induction h arbitrary: s x)
  case (Suc h)
  let ?P = "2 ^ (6 * h) :: nat"
  let ?M = "\<lambda>k. look (Suc h) s (of_nat k)"
  define B where "B = unat x div 2 ^ (6 * Suc h)"
  define i where "i = unat (digit_at h x)"
  obtain c f where s: "s = Node c f" using Suc.prems(3,4) by (cases s) auto
  have wf: "wf_slot h (f d)" for d using Suc.prems(3) by (simp add: s)
  have "2 ^ (6 * Suc h) = ?P * 64" by (simp add: power_add)
  then have "B = unat x div ?P div 64" unfolding B_def by (simp only: div_mult2_eq)
  then have i: "i < 64" "unat x div ?P = 64 * B + i"
    by (simp_all add: i_def unat_digit)
  have PP: "(64 * B + 64) * ?P = (B + 1) * 2 ^ (6 * Suc h)" by (simp add: power_add algebra_simps)
  have "(2 :: nat) ^ 36 = 2 ^ (36 - 6 * Suc h) * 2 ^ (6 * Suc h)"
    using Suc.prems(2) by (simp flip: power_add)
  then have "B < 2 ^ (36 - 6 * Suc h)"
    using Suc.prems(6) unfolding B_def by (intro less_mult_imp_div_less) simp
  then have "(B + 1) * 2 ^ (6 * Suc h) \<le> 2 ^ (36 - 6 * Suc h) * 2 ^ (6 * Suc h)"
    by (intro mult_le_mono1) simp
  then have B: "(64 * B + 64) * ?P \<le> 2 ^ 36"
    using \<open>2 ^ 36 = _\<close> PP by metis
  have so: "unat (slot_of x (root_shift (Suc h))) = i"
    using slot_of_digit [of h x] Suc.prems(2) by (simp add: i_def)
  obtain i' y where y: "scan_slots f (root_shift (Suc h)) i x = Inr (i', y)" "i \<le> i'" "i' \<le> 64" "unat x \<le> unat y"
    "unat y div ?P = 64 * B + i'" "i' < 64 \<longrightarrow> f (of_nat i') \<noteq> Null"
    "y = x \<and> i' = i \<or> unat y = (64 * B + i') * ?P"
    "\<forall>k. unat x \<le> k \<longrightarrow> k < unat y \<longrightarrow> f (digit_at h (of_nat k)) = Null"
    using scan_slots_spec [of h i x B f] Suc.prems(2,6) i B by auto
  have skip: "entries ?M (unat x) (unat y) = []"
    using y(8) by (intro entries_empty) (simp add: s)
  show ?case
  proof (cases "i' = 64")
    case True
    then have "unat y = (B + 1) * 2 ^ (6 * Suc h)" "x \<noteq> y"
      using y(5,7) i PP by auto
    moreover from this have "unat x < unat y" using y(4) by (simp add: le_less word_unat_eq_iff)
    ultimately show ?thesis
      using y(1) True so skip by (intro exI [of _ y]) (simp add: s B_def del: mult_Suc_right)
  next
    case False
    then have i': "i' < 64" using y(3) by simp
    have "unat y < (64 * B + Suc i') * ?P"
      using dividend_less_div_times [of ?P "unat y"] y(5) by simp
    moreover have top: "(64 * B + Suc i') * ?P \<le> (64 * B + 64) * ?P"
      using i' by (intro mult_le_mono1) simp
    ultimately have y36: "unat y < 2 ^ 36" using B by linarith
    show ?thesis
    proof (cases "h = 0")
      case True
      have j: "unat (y AND RADIX_TREE_MAP_MASK) = i'"
        using y(5) i' True unat_and_63 [of y] by (simp add: RADIX_TREE_MAP_MASK_def)
      obtain y' where y': "grab_items f i' y m [] = Inr (entries (\<lambda>k. look 0 (f (of_nat k)) 0) (unat y) (unat y'), y')"
        "unat y < unat y'" "unat y' \<le> 64 * B + 64"
        "length (entries (\<lambda>k. look 0 (f (of_nat k)) 0) (unat y) (unat y')) \<le> m"
        using grab_items_spec [of i' y B "[]" m f "\<lambda>k. look 0 (f (of_nat k)) 0"] y(5) i' B Suc.prems(5) wf True
        by auto
      have "entries (\<lambda>k. look 0 (f (of_nat k)) 0) (unat y) (unat y') = entries ?M (unat y) (unat y')"
        using True by (intro entries_cong) (simp add: s digit_at_0)
      also have "\<dots> = entries ?M (unat x) (unat y')"
        using entries_append [of "unat x" "unat y" "unat y'" ?M] skip y(4) y'(2) by simp
      finally have e: "entries (\<lambda>k. look 0 (f (of_nat k)) 0) (unat y) (unat y') = entries ?M (unat x) (unat y')" .
      have "lookup_level (Suc h) (root_shift (Suc h)) x m s = Inr (entries ?M (unat x) (unat y'), y')"
        using y(1) i' so True j y'(1) e by (simp add: s)
      moreover have "unat y' \<le> (unat x div 2 ^ (6 * Suc h) + 1) * 2 ^ (6 * Suc h)"
        using y'(3) PP True unfolding B_def by simp
      ultimately show ?thesis
        using y'(2,4) y(4) e by (intro exI [of _ y']) (simp only:, simp)
    next
      case False
      obtain z where z: "lookup_level h (root_shift h) y m (f (of_nat i')) =
          Inr (entries (\<lambda>k. look h (f (of_nat i')) (of_nat k)) (unat y) (unat z), z)" "unat y < unat z"
        "unat z \<le> (64 * B + Suc i') * ?P"
        "length (entries (\<lambda>k. look h (f (of_nat i')) (of_nat k)) (unat y) (unat z)) \<le> m"
        using Suc.IH [of "f (of_nat i')" y] False Suc.prems(2,5) wf y(5,6) i' y36 by auto
      have "entries (\<lambda>k. look h (f (of_nat i')) (of_nat k)) (unat y) (unat z) = entries ?M (unat y) (unat z)"
        using digit_between [OF i' y(5) _ _ B] z(3) by (intro entries_cong) (simp add: s)
      also have "\<dots> = entries ?M (unat x) (unat z)"
        using entries_append [of "unat x" "unat y" "unat z" ?M] skip y(4) z(2) by simp
      finally have e: "entries (\<lambda>k. look h (f (of_nat i')) (of_nat k)) (unat y) (unat z) = entries ?M (unat x) (unat z)" .
      have "unat z \<le> (unat x div 2 ^ (6 * Suc h) + 1) * 2 ^ (6 * Suc h)"
        using z(3) top PP unfolding B_def by linarith
      moreover have "lookup_level (Suc h) (root_shift (Suc h)) x m s = Inr (entries ?M (unat x) (unat z), z)"
        using y(1) i' so False z(1) e by (simp add: s root_shift_step)
      ultimately show ?thesis
        using z(2,4) y(4) e by (intro exI [of _ z]) (simp only:, simp)
    qed
  qed
qed simp


section \<open>The whole scan\<close>

text \<open>The items of a map by key, 0 where there is none.\<close>

definition item_at :: "(u64 \<Rightarrow> u64 option) \<Rightarrow> nat \<Rightarrow> u64" where
  "item_at m k = ptr_of (m (of_nat k))"

lemma unat_maxkey: "h \<le> 10 \<Longrightarrow> unat (maxkey h) = 2 ^ (6 * h) - 1"
  by (simp add: maxkey_def unat_mask mask_nat_def min_def)

lemma entries_tree:
  assumes "height t \<le> 6" "b \<le> 2 ^ (6 * height t)"
  shows "entries (\<lambda>k. look (height t) (rnode t) (of_nat k)) a b = entries (item_at (tree_map t)) a b"
proof (rule entries_cong)
  fix k assume "k < b"
  then have k: "k < 2 ^ (6 * height t)" using assms(2) by simp
  moreover have "(2 :: nat) ^ (6 * height t) \<le> 2 ^ 36" using assms(1) by (intro power_increasing) simp_all
  ultimately have "unat (of_nat k :: u64) = k" by (simp add: unsigned_of_nat take_bit_nat_eq_self)
  then have "(of_nat k :: u64) \<le> maxkey (height t)"
    using k assms(1) by (simp add: word_le_nat_alt unat_maxkey)
  then show "look (height t) (rnode t) (of_nat k) = item_at (tree_map t) k"
    by (auto simp: item_at_def tree_map_def)
qed

lemma gang_loop_spec:
  assumes "wf_tree t" "0 < height t" "height t \<le> 6"
  shows "gang_loop t (maxkey (height t)) x m rs =
    Some (Inr (rs @ take (m - length rs) (entries (item_at (tree_map t)) (unat x) (2 ^ (6 * height t)))))"
proof (induction "2 ^ (6 * height t) - unat x" arbitrary: x rs rule: less_induct)
  case less
  let ?N = "2 ^ (6 * height t) :: nat"
  let ?E = "entries (item_at (tree_map t))"
  have mx: "unat (maxkey (height t)) = ?N - 1" using assms(3) by (simp add: unat_maxkey)
  have N36: "?N \<le> 2 ^ 36" using assms(3) by (intro power_increasing) simp_all
  show ?case
  proof (cases "length rs < m \<and> x \<le> maxkey (height t)")
    case False
    then have "m - length rs = 0 \<or> ?N \<le> unat x" using mx by (auto simp: word_le_nat_alt)
    then show ?thesis
      using False by (subst gang_loop.simps) (auto simp: not_le)
  next
    case True
    then have xN: "unat x < ?N" using mx by (simp add: word_le_nat_alt) (metis Suc_pred le_imp_less_Suc zero_less_numeral zero_less_power)
    have s: "wf_slot (height t) (rnode t)" "rnode t \<noteq> Null"
      using assms(1,2) by (auto simp: wf_tree_def)
    obtain y where y: "gang_lookup_once t x (m - length rs) = Inr (?E (unat x) (unat y), y)" "unat x < unat y"
      "unat y \<le> ?N" "length (?E (unat x) (unat y)) \<le> m - length rs"
    proof -
      have "unat x < 2 ^ 36" "unat x div ?N = 0" "0 < m - length rs"
        using xN N36 True by simp_all
      then show thesis
        using lookup_level_spec [OF assms(2,3) s, of "m - length rs" x] that entries_tree [OF assms(3)]
        by (auto simp: gang_lookup_once_def)
    qed
    have "y \<noteq> 0" using y(2) by auto
    then have "gang_loop t (maxkey (height t)) x m rs =
        gang_loop t (maxkey (height t)) y m (rs @ ?E (unat x) (unat y))"
      using True y(1) by (subst gang_loop.simps) (auto simp: not_less)
    also have "\<dots> = Some (Inr ((rs @ ?E (unat x) (unat y)) @
        take (m - length (rs @ ?E (unat x) (unat y))) (?E (unat y) ?N)))"
      using y(2) xN by (intro less) simp
    also have "\<dots> = Some (Inr (rs @ take (m - length rs) (?E (unat x) ?N)))"
      using entries_append [of "unat x" "unat y" ?N "item_at (tree_map t)"] y(2-4)
      by (auto simp flip: entries_append [of "unat x" "unat y" ?N "item_at (tree_map t)"])
    finally show ?thesis .
  qed
qed


section \<open>Properties\<close>

text \<open>A tree with two keys, for the witness.\<close>

definition two_keys :: radix_tree_root where
  "two_keys = \<lparr>height = 1, rnode = Node 2 ((\<lambda>_. Null)(3 := Item 995, 7 := Item 996))\<rparr>"

lemma two_keys: "wf_tree two_keys" "tree_map two_keys = [3 \<mapsto> 995, 7 \<mapsto> 996]"
proof -
  have "{d :: digit. ((\<lambda>_. Null)(3 := Item 995, 7 := Item 996)) d \<noteq> Null} = {3, 7}" by auto
  moreover have "d \<in> range (digit_at 0)" for d :: digit
    by (rule range_eqI [of _ _ "ucast d"]) (auto simp: digit_at_def bit_simps intro!: bit_word_eqI)
  ultimately show "wf_tree two_keys" by (simp add: wf_tree_def two_keys_def)
  have digit: "digit_at 0 k = digit_at 0 j \<longleftrightarrow> k = j" if "k \<le> maxkey 1" "j \<le> maxkey 1" for k j
    using take_bit_digit [of 0 k j] that by (simp add: le_maxkey)
  have "maxkey 1 = 63" by (simp add: maxkey_def mask_eq_exp_minus_1)
  then have "digit_at 0 k = 3 \<longleftrightarrow> k = 3" "digit_at 0 k = 7 \<longleftrightarrow> k = 7" if "k \<le> 63" for k
    using digit [of k 3] digit [of k 7] that by (simp_all add: digit_at_def)
  then show "tree_map two_keys = [3 \<mapsto> 995, 7 \<mapsto> 996]"
    using \<open>maxkey 1 = 63\<close> by (auto simp: fun_eq_iff tree_map_def two_keys_def)
qed

lemma entries_beyond:
  assumes "height t \<le> 6" and "2 ^ (6 * height t) \<le> a"
  shows "entries (item_at (tree_map t)) a (2 ^ 36) = []"
proof (rule entries_empty)
  fix k :: nat assume k: "a \<le> k" "k < 2 ^ 36"
  then have "unat (of_nat k :: u64) = k" by (simp add: unsigned_of_nat take_bit_nat_eq_self)
  moreover have "unat (maxkey (height t)) < k"
  proof -
    have "0 < (2 :: nat) ^ (6 * height t)" by simp
    moreover have "unat (maxkey (height t)) = 2 ^ (6 * height t) - 1" using assms(1) by (simp add: unat_maxkey)
    ultimately show ?thesis using assms(2) k(1) by linarith
  qed
  ultimately have "maxkey (height t) < of_nat k" by (simp add: word_less_nat_alt)
  then show "item_at (tree_map t) k = 0" by (auto simp: item_at_def tree_map_def not_le)
qed

lemma entries_all:
  assumes "height t \<le> 6"
  shows "entries (item_at (tree_map t)) a (2 ^ 36) = entries (item_at (tree_map t)) a (2 ^ (6 * height t))"
proof -
  let ?N = "2 ^ (6 * height t) :: nat"
  have "?N \<le> 2 ^ 36" using assms by (intro power_increasing) simp_all
  then show ?thesis
    using entries_append [of a ?N "2 ^ 36" "item_at (tree_map t)"] entries_beyond [OF assms, of ?N] entries_beyond [OF assms, of a]
    by (cases "a \<le> ?N") auto
qed

text \<open>C13. On a well-formed tree of height at most 6 (keys below \<open>2 ^ 36\<close>) the scan returns the first
  \<open>max_items\<close> items of the map at the keys from \<open>first\<close> on, in key order: the naive scan through
  slots, restarted at the index where the last call stopped, is equivalent to listing the map.\<close>

theorem radix_gang_lists:
  assumes "wf_tree t" and "height t \<le> 6"
  shows "radix_tree_gang_lookup (radix_tree_init ub) t first max_items =
    Inr (take max_items (entries (item_at (tree_map t)) (unat first) (2 ^ 36)))"
proof -
  let ?E = "entries (item_at (tree_map t))"
  let ?N = "2 ^ (6 * height t) :: nat"
  note all = entries_all [OF assms(2), of "unat first"]
  show ?thesis
  proof (cases "rnode t = Null")
    case True
    then have "t = RADIX_TREE_INIT" using assms(1) by (cases t) (auto simp: wf_tree_def RADIX_TREE_INIT_def)
    then have "tree_map t = Map.empty" using tree_map_init by simp
    then have "?E (unat first) (2 ^ 36) = []" by (intro entries_empty) (simp add: item_at_def)
    then show ?thesis
      using True assms by (simp add: radix_tree_gang_lookup_def maxindex_init)
  next
    case False
    show ?thesis
    proof (cases "height t = 0")
      case True
      obtain v where v: "rnode t = Item v" "v \<noteq> 0"
        using False assms(1) True by (cases "rnode t") (auto simp: wf_tree_def)
      have "item_at (tree_map t) 0 = v"
        using v True by (simp add: item_at_def tree_map_def)
      then have "?E (unat first) ?N = (if first = 0 then [v] else [])"
        using entries_one [of "item_at (tree_map t)" 0] v(2) True
        by (cases "unat first") (auto simp: unat_eq_0)
      then show ?thesis
        using v True all by (cases max_items) (simp_all add: radix_tree_gang_lookup_def maxindex_init maxkey_def)
    next
      case h: False
      then have "maxkey (height t) \<noteq> 0"
        using assms(2) unat_maxkey [of "height t"] one_less_power [of "2 :: nat" "6 * height t"] by auto
      then show ?thesis
        using False h assms gang_loop_spec [of t first max_items "[]"] all
        by (simp add: radix_tree_gang_lookup_def maxindex_init)
    qed
  qed
qed

theorem radix_gang_lists_witness:
  "radix_tree_gang_lookup (radix_tree_init (\<lambda>_ _. 0)) two_keys 2 1 = Inr [995]"
proof -
  let ?E = "entries (item_at (tree_map two_keys))"
  have "?E 2 8 = [995, 996]"
    by (simp add: entries_def item_at_def two_keys upt_rec)
  then have "take 1 (?E 2 b) = [995]" if "8 \<le> b" for b
    using that by (simp flip: entries_append [of 2 8 b])
  from this [of "2 ^ 36"] show ?thesis
    using radix_gang_lists [OF two_keys(1), of "\<lambda>_ _. 0" 2 1] by (simp add: two_keys_def)
qed

text \<open>C39. On a tree of height 7 to 11, that is once a key of \<open>2 ^ 36\<close> or more has been inserted, a scan
  from a key below the slot of the root that is empty shifts an \<^verbatim>\<open>int\<close> by 36 or more
  places: the behaviour is undefined.\<close>

theorem radix_gang_overflow:
  assumes "wf_tree t" and "7 \<le> height t" and "first \<le> maxkey (height t)" and "0 < max_items"
    and "\<And>c f. rnode t = Node c f \<Longrightarrow> f (digit_at (height t - 1) first) = Null"
  shows "radix_tree_gang_lookup (radix_tree_init ub) t first max_items = Inl Shift_overflow"
proof -
  obtain h where h: "height t = Suc h" "6 \<le> h" "h \<le> 10" using assms(1,2) by (cases "height t") (auto simp: wf_tree_def)
  obtain c f where n: "rnode t = Node c f" using assms(1) h by (cases "rnode t") (auto simp: wf_tree_def)
  have null: "f (digit_at h first) = Null" using assms(5) [OF n] h by simp
  have "unat (root_shift (Suc h)) = 6 * h"
    using h(3) by (simp add: root_shift_def RADIX_TREE_MAP_SHIFT_def unat_word_ariths unsigned_of_nat take_bit_nat_eq_self)
  then have shl: "c_shl1 (root_shift (Suc h)) = Inl Shift_overflow"
    using h(2) by (simp add: c_shl1_def)
  have "gang_lookup_once t first m = Inl Shift_overflow" for m
    using h n null shl slot_of_digit [of h first] unsigned_less [of "digit_at h first", where ?'a = nat]
    by (simp add: gang_lookup_once_def) (subst scan_slots.simps, simp)
  moreover have "maxkey (height t) \<noteq> 0"
    using h maxkey_mono [of 1 "Suc h"] by (auto simp: maxkey_def mask_eq_exp_minus_1)
  ultimately show ?thesis
    using assms(1,3,4) n h by (subst (2) gang_loop.simps | simp add: radix_tree_gang_lookup_def maxindex_init wf_tree_def gang_loop.simps [of t])+
qed


text \<open>A tree of any height whose only key has 1 for every digit.\<close>

primrec tower :: "nat \<Rightarrow> slot" where
  "tower 0 = Item 996"
| "tower (Suc h) = Node 1 ((\<lambda>_. Null)(1 := tower h))"

lemma tower_wf: "h \<le> 10 \<Longrightarrow> wf_slot h (tower h) \<and> tower h \<noteq> Null"
proof (induction h)
  case (Suc h)
  have "digit_at h (push_bit (6 * h) 1) = 1"
    using Suc.prems by (intro bit_word_eqI) (auto simp: digit_at_def bit_simps simp del: push_bit_of_1)
  then have "1 \<in> range (digit_at h)" by (metis rangeI)
  moreover have "{d :: digit. ((\<lambda>_. Null)(1 := tower h)) d \<noteq> Null} = {1}" using Suc by auto
  ultimately show ?case using Suc by auto
qed simp

theorem radix_gang_overflow_witness:
  "radix_tree_gang_lookup (radix_tree_init (\<lambda>_ _. 0)) \<lparr>height = 7, rnode = tower 7\<rparr> 0 16 = Inl Shift_overflow"
proof -
  have seven: "tower 7 = Node 1 ((\<lambda>_. Null)(1 := tower 6))" by (simp add: eval_nat_numeral)
  show ?thesis
    using radix_gang_overflow [of "\<lparr>height = 7, rnode = tower 7\<rparr>" 0 16 "\<lambda>_ _. 0"] tower_wf [of 7]
    by (simp add: wf_tree_def seven digit_at_def)
qed

end
