(* ===== verification/Fs_History.thy ===== *)
theory Fs_History
  imports Transfer_Props
begin

text \<open>
  Histories of calls of \<^verbatim>\<open>simple_fs/monopoly_ops.c\<close> as a step relation on the globals, and the two
  invariants that every call keeps: each descriptor in use leads to a file, and the directory's
  table of entries is as long as the count of its entries says.
\<close>

section \<open>Calls\<close>

datatype call =
    Create "u8 list"
  | Open "u8 list"
  | Close nat
  | Read int u64 "u8 list" u64
  | Write int u64 "u8 list" u64
  | Lseek int u64 int
  | Stat "u8 list" stat
  | Unlink "u8 list"
  | Chdir "u8 list"
  | Mkdir "u8 list"

definition after :: "('a \<Rightarrow> 'g) \<Rightarrow> 'a res \<Rightarrow> 'g res" where
  "after sel r = bind_res r (\<lambda>x. Inr (sel x))"

lemma after_Inr: "after sel r = Inr g \<longleftrightarrow> (\<exists>x. r = Inr x \<and> sel x = g)"
  by (simp add: after_def bind_res_Inr_iff)

text \<open>The globals after a call; its other results are dropped.\<close>

fun do_call :: "'b spdk \<Rightarrow> env \<Rightarrow> call \<Rightarrow> 'b globals \<Rightarrow> 'b globals res" where
  "do_call L e (Create name) g = after snd (monopoly_create L e name g)"
| "do_call L e (Open name) g = after snd (monopoly_open L e name g)"
| "do_call L e (Close fd) g = after snd (monopoly_close L e (int fd) g)"
| "do_call L e (Read fd buf user n) g = after (snd \<circ> snd) (monopoly_read L fd buf user n g)"
| "do_call L e (Write fd buf user n) g = after (snd \<circ> snd) (monopoly_write L fd buf user n g)"
| "do_call L e (Lseek fd off whence) g = after snd (monopoly_lseek L fd off whence g)"
| "do_call L e (Stat name st) g = after (snd \<circ> snd) (monopoly_stat L e name st g)"
| "do_call L e (Unlink name) g = after snd (monopoly_unlink L e name g)"
| "do_call L e (Chdir name) g = after (snd \<circ> snd) (monopoly_chdir L e name g)"
| "do_call L e (Mkdir name) g = Inr (snd (monopoly_mkdir e name g))"

text \<open>A step is a call that does not fault, in any environment; the client closes only descriptors
  in use.\<close>

inductive fs_step :: "'b spdk \<Rightarrow> 'b globals \<Rightarrow> 'b globals \<Rightarrow> bool" for L where
  step: "do_call L e c g = Inr g' \<Longrightarrow> (\<And>fd. c = Close fd \<Longrightarrow> fd \<in> live_fds (g_fdtable g)) \<Longrightarrow> fs_step L g g'"

inductive fs_run :: "'b spdk \<Rightarrow> 'b globals \<Rightarrow> 'b globals \<Rightarrow> bool" for L where
  refl: "fs_run L g g"
| step: "fs_run L g g' \<Longrightarrow> fs_step L g' g'' \<Longrightarrow> fs_run L g g''"

section \<open>The invariants\<close>

definition fds_ok :: "spdkfs_file fdtable \<Rightarrow> bool" where
  "fds_ok tab \<longleftrightarrow> fd_ok tab \<and> (\<forall>fd \<in> live_fds tab. open_files tab ! fd \<noteq> None)"

definition dir_fits :: "spdkfs_dir \<Rightarrow> bool" where
  "dir_fits dir \<longleftrightarrow> sizeof_dirent * unat (d_dirent_count (dir_persist dir)) \<le> length (dirents dir)"

lemma table_set_open_file [simp]:
  "g_fdtable (set_open_file fd f g) = (g_fdtable g)\<lparr>open_files := (open_files (g_fdtable g))[nat fd := Some f]\<rparr>"
  by (simp add: set_open_file_def)

lemma nth_updated: "xs[i := y] ! j = (if i = j \<and> j < length xs then y else xs ! j)"
  by (cases "i < length xs") (auto simp: nth_list_update list_update_beyond)

lemma fds_ok_set: "fds_ok tab \<Longrightarrow> fds_ok (tab\<lparr>open_files := (open_files tab)[i := Some f]\<rparr>)"
  by (auto simp: fds_ok_def fd_ok_def live_fds_def nth_updated)

lemma fds_ok_install:
  assumes "fds_ok (g_fdtable g)" and "install_file f g = Inr (fd, g')"
  shows "fds_ok (g_fdtable g')"
proof -
  have ok: "fd_ok (g_fdtable g)" using assms(1) by (simp add: fds_ok_def)
  show ?thesis using get_fd_result [OF ok]
  proof (elim disjE exE conjE)
    fix k assume "get_fd_from_table (g_fdtable g) = Inr (int k, claim_fd (g_fdtable g) k)" "k < 256"
      "k \<notin> live_fds (g_fdtable g)"
    then have "g_fdtable g' = (claim_fd (g_fdtable g) k)\<lparr>open_files := (open_files (g_fdtable g))[k := Some f]\<rparr>"
        "fd_ok (claim_fd (g_fdtable g) k)" "live_fds (claim_fd (g_fdtable g) k) = insert k (live_fds (g_fdtable g))"
      using assms(2) claim_ok [OF ok, of k] live_claim [of "g_fdtable g" k] ok
      by (auto simp: install_file_def claim_fd_def fd_ok_def)
    then show ?thesis
      using assms(1) \<open>k < 256\<close> by (auto simp: fds_ok_def fd_ok_def live_fds_def nth_updated)
  qed (use assms in \<open>auto simp: install_file_def\<close>)
qed

lemma fds_ok_close:
  assumes "fds_ok (g_fdtable g)" and "fd \<in> live_fds (g_fdtable g)" and "monopoly_close L e (int fd) g = Inr (r, g')"
  shows "fds_ok (g_fdtable g')"
  using return_ok [of "g_fdtable g" fd] assms by (auto simp: monopoly_close_def bind_res_Inr_iff fds_ok_def)

lemma fds_ok_read: "fds_ok (g_fdtable g) \<Longrightarrow> monopoly_read L fd buf user n g = Inr (r, user', g') \<Longrightarrow> fds_ok (g_fdtable g')"
  by (auto simp: monopoly_read_def bind_res_Inr_iff Let_def end_transfer_def fds_ok_set split: if_splits)

lemma fds_ok_write: "fds_ok (g_fdtable g) \<Longrightarrow> monopoly_write L fd buf user n g = Inr (r, user', g') \<Longrightarrow> fds_ok (g_fdtable g')"
  by (auto simp: monopoly_write_def bind_res_Inr_iff Let_def end_transfer_def fds_ok_set split: if_splits)

lemma fds_ok_lseek: "fds_ok (g_fdtable g) \<Longrightarrow> monopoly_lseek L fd off wh g = Inr (r, g') \<Longrightarrow> fds_ok (g_fdtable g')"
  by (auto simp: monopoly_lseek_def bind_res_Inr_iff Let_def fds_ok_set split: if_splits)

lemma fds_ok_create: "fds_ok (g_fdtable g) \<Longrightarrow> monopoly_create L e name g = Inr (r, g') \<Longrightarrow> fds_ok (g_fdtable g')"
  by (auto simp: monopoly_create_def bind_res_Inr_iff Let_def split_def split: if_splits
    elim!: fds_ok_install [rotated])

lemma fds_ok_open: "fds_ok (g_fdtable g) \<Longrightarrow> monopoly_open L e name g = Inr (r, g') \<Longrightarrow> fds_ok (g_fdtable g')"
  by (auto simp: monopoly_open_def bind_res_Inr_iff Let_def split: if_splits elim!: fds_ok_install [rotated])

lemma table_unchanged:
  "monopoly_stat L e name st g = Inr (r, st', g') \<Longrightarrow> g_fdtable g' = g_fdtable g"
  "monopoly_unlink L e name g = Inr (i, g') \<Longrightarrow> g_fdtable g' = g_fdtable g"
  "monopoly_chdir L e name g = Inr (i, d, g') \<Longrightarrow> g_fdtable g' = g_fdtable g"
  "g_fdtable (snd (monopoly_mkdir e name g)) = g_fdtable g"
  by (auto simp: monopoly_stat_def monopoly_unlink_def monopoly_chdir_def monopoly_mkdir_def bind_res_Inr_iff
    Let_def split_def split: if_splits)

lemma fds_ok_step: "fs_step L g g' \<Longrightarrow> fds_ok (g_fdtable g) \<Longrightarrow> fds_ok (g_fdtable g')"
proof (induction rule: fs_step.induct)
  case (step e c g g')
  then show ?case
    by (cases c) (auto simp: after_Inr table_unchanged
      dest: fds_ok_close fds_ok_read fds_ok_write fds_ok_lseek fds_ok_create fds_ok_open dest!: table_unchanged(1-3))
qed

section \<open>The directory\<close>

lemma put_bytes_length: "put_bytes mem off bs = Inr mem' \<Longrightarrow> length mem' = length mem \<and> off + length bs \<le> length mem"
  by (auto simp: put_bytes_def split: if_splits)

lemma add_dirent_fits:
  assumes "add_dirent junk u i name dir = Inr dir'"
  shows "dir_fits dir'"
proof -
  obtain dir1 mem1 mem2 where d: "put_bytes (dirents dir1) (sizeof_dirent * unat (d_dirent_count (dir_persist dir1)) + SPDK_MAX_NAME_COUNT) (le_bytes i) = Inr mem1"
    "put_bytes mem1 (sizeof_dirent * unat (d_dirent_count (dir_persist dir1))) (take SPDK_MAX_NAME_COUNT name) = Inr mem2"
    "dir' = dir1\<lparr>dirents := mem2, dir_persist := (dir_persist dir1)\<lparr>d_dirent_count := d_dirent_count (dir_persist dir1) + 1\<rparr>\<rparr>"
    using assms by (auto simp: add_dirent_def bind_res_Inr_iff Let_def)
  have "length (le_bytes i) = 8" by (simp add: le_bytes_def)
  then have "sizeof_dirent * unat (d_dirent_count (dir_persist dir1)) + SPDK_MAX_NAME_COUNT + 8 \<le> length mem2"
    using put_bytes_length [OF d(1)] put_bytes_length [OF d(2)] by simp
  then have len: "sizeof_dirent * Suc (unat (d_dirent_count (dir_persist dir1))) \<le> length mem2"
    by (simp add: sizeof_dirent_def SPDK_MAX_NAME_COUNT_def)
  have "unat (d_dirent_count (dir_persist dir1) + 1) \<le> Suc (unat (d_dirent_count (dir_persist dir1)))"
    by (simp add: unat_word_ariths)
  then have "sizeof_dirent * unat (d_dirent_count (dir_persist dir1) + 1) \<le> sizeof_dirent * Suc (unat (d_dirent_count (dir_persist dir1)))"
    by (rule mult_le_mono2)
  then show ?thesis using len by (simp add: dir_fits_def d(3))
qed

lemma shift_dirents_room:
  "shift_dirents i n mem = Inr mem' \<Longrightarrow> sizeof_dirent * Suc i \<le> length mem \<Longrightarrow>
     length mem' = length mem \<and> sizeof_dirent * Suc n \<le> length mem' \<or> n < i \<and> length mem' = length mem"
proof (induction i n mem arbitrary: mem' rule: shift_dirents.induct)
  case (1 i n mem)
  show ?case
  proof (cases "i < n")
    case True
    obtain bs mem1 where m: "get_bytes mem (sizeof_dirent * Suc i) sizeof_dirent = Inr bs"
      "put_bytes mem (sizeof_dirent * i) bs = Inr mem1" "shift_dirents (Suc i) n mem1 = Inr mem'"
      using "1.prems"(1) True by (subst (asm) shift_dirents.simps) (auto simp: bind_res_Inr_iff)
    have "sizeof_dirent * Suc (Suc i) \<le> length mem"
      using m(1) by (auto simp: get_bytes_def split: if_splits)
    moreover have "length mem1 = length mem" using put_bytes_length [OF m(2)] by simp
    ultimately show ?thesis using "1.IH" [OF True m(3)] True by auto
  next
    case False
    then have "mem' = mem" using "1.prems"(1) by (subst (asm) shift_dirents.simps) simp
    then show ?thesis using False "1.prems"(2) by (cases "i = n") auto
  qed
qed

lemma unlink_fits:
  assumes "dir_fits (g_root g)" and "monopoly_unlink L e name g = Inr (r, g')"
  shows "dir_fits (g_root g')"
proof (cases "find_dir e name (g_root g) = - 1")
  case True
  then show ?thesis using assms by (auto simp: monopoly_unlink_def)
next
  case False
  define dir idx where "dir = g_root g" and "idx = nat (find_dir e name (g_root g))"
  define n where "n = d_dirent_count (dir_persist dir) - 1"
  obtain i mem where m: "dirent_id dir idx = Inr i" "shift_dirents idx (unat n) (dirents dir) = Inr mem"
    "g_root g' = dir\<lparr>dirents := mem, dir_persist := (dir_persist dir)\<lparr>d_dirent_count := n\<rparr>\<rparr>"
    using assms(2) False
    by (auto simp: monopoly_unlink_def Let_def bind_res_Inr_iff workdir_def dir_def idx_def n_def split: if_splits)
  have idx: "sizeof_dirent * Suc idx \<le> length (dirents dir)"
    using m(1) by (auto simp: dirent_id_def bind_res_Inr_iff get_bytes_def sizeof_dirent_def SPDK_MAX_NAME_COUNT_def split: if_splits)
  have "sizeof_dirent * unat n \<le> length mem"
    using shift_dirents_room [OF m(2) idx] idx
    by (elim disjE conjE) (simp_all add: sizeof_dirent_def)
  then show ?thesis by (simp add: m(3) dir_fits_def)
qed

lemma dir_fits_step: "fs_step L g g' \<Longrightarrow> dir_fits (g_root g) \<Longrightarrow> dir_fits (g_root g')"
proof (induction rule: fs_step.induct)
  case (step e c g g')
  show ?case
  proof (cases c)
    case (Create name)
    then show ?thesis
      using step by (auto simp: after_Inr monopoly_create_def bind_res_Inr_iff Let_def split_def install_file_def
        set_open_file_def split: if_splits dest!: add_dirent_fits)
  next
    case (Unlink name)
    then show ?thesis using step unlink_fits by (auto simp: after_Inr)
  qed (use step in \<open>auto simp: after_Inr monopoly_open_def monopoly_close_def monopoly_read_def monopoly_write_def
      monopoly_lseek_def monopoly_stat_def monopoly_chdir_def monopoly_mkdir_def bind_res_Inr_iff Let_def split_def
      install_file_def end_transfer_def set_open_file_def split: if_splits\<close>)
qed


section \<open>Properties\<close>

lemma fs_run_ok: "fs_run L g g' \<Longrightarrow> fds_ok (g_fdtable g) \<Longrightarrow> dir_fits (g_root g) \<Longrightarrow>
    fds_ok (g_fdtable g') \<and> dir_fits (g_root g')"
  by (induction rule: fs_run.induct) (auto dest: fds_ok_step dir_fits_step)



end
