(* ===== verification/Session.thy ===== *)
theory Session
  imports Contents
begin

text \<open>
  A whole session on an open file. The specification is an abstract file: the bytes written so
  far, the recorded size and the position, all unbounded numbers, with one equation per call.
  Any sequence of reads, writes and seeks on a descriptor that the specification allows gives
  the results it says, over every library that keeps and grows the bytes of its blobs: the chunk
  loops, the shared buffer, the descriptor table, the growth of the blob and the poller are what
  is refined away. What the specification keeps is what a caller can see: reads are cut to whole
  pieces before the recorded size, and a write raises that size only to where its last piece
  began.
\<close>

section \<open>The abstract file\<close>

record afile =
  a_data :: "u8 list"
  a_size :: nat
  a_pos :: nat

text \<open>The constants of a mounted volume: the io unit, the cluster size, the largest size of a blob, the
  size of the shared buffer, which addresses are DMA buffers and the blob of the root directory.\<close>

record volume =
  v_unit :: u64
  v_cluster :: u64
  v_cap :: nat
  v_buffer :: nat
  v_dma :: "u64 \<Rightarrow> bool"
  v_super :: blob_id

text \<open>The address of the caller's buffer, the memory there and the number of bytes, or an offset and
  its origin. A call returns a number and the memory.\<close>

datatype io_call = Read_call u64 "u8 list" u64 | Write_call u64 "u8 list" u64 | Seek_call u64 int

definition aligned_size :: "volume \<Rightarrow> u64 \<Rightarrow> nat" where
  "aligned_size v n = unat n div unat (v_unit v) * unat (v_unit v)"

definition piece :: "volume \<Rightarrow> u64 \<Rightarrow> nat \<Rightarrow> nat" where
  "piece v buf m = (if v_dma v buf then m else v_buffer v)"

definition write_allowed :: "volume \<Rightarrow> afile \<Rightarrow> nat \<Rightarrow> nat \<Rightarrow> bool" where
  "write_allowed v a k m \<longleftrightarrow> a_pos a + m \<le> length (a_data a) \<or>
     a_pos a \<le> length (a_data a) \<and> min k m \<le> unat (v_cluster v) \<and> a_pos a + m + unat (v_cluster v) \<le> v_cap v"

definition seek_target :: "volume \<Rightarrow> afile \<Rightarrow> u64 \<Rightarrow> int \<Rightarrow> int" where
  "seek_target v a off whence =
     (let d = sint off sdiv sint (v_unit v) * sint (v_unit v)
      in if whence = SEEK_SET then d else if whence = SEEK_CUR then int (a_pos a) + d else int (a_pos a))"

fun afile_call :: "volume \<Rightarrow> io_call \<Rightarrow> afile \<Rightarrow> ((u64 \<times> u8 list) \<times> afile) option" where
  "afile_call v (Read_call buf user n) a =
     (let m = aligned_size v n; k = piece v buf m; r = served k m (a_size a - a_pos a)
      in if m = 0 then Some ((0, user), a)
         else if buf \<noteq> 0 \<and> m \<le> length user \<and> a_pos a + m < 2 ^ 63
         then Some ((of_nat r, take r (drop (a_pos a) (a_data a)) @ drop r user), a\<lparr>a_pos := a_pos a + r\<rparr>)
         else None)"
| "afile_call v (Write_call buf user n) a =
     (let m = aligned_size v n; k = piece v buf m
      in if m = 0 then Some ((0, user), a)
         else if buf \<noteq> 0 \<and> m \<le> length user \<and> a_pos a + m < 2 ^ 63 \<and> write_allowed v a k m
         then Some ((of_nat m, user),
           \<lparr>a_data = take (a_pos a) (a_data a) @ take m user @ drop (a_pos a + m) (a_data a),
            a_size = recorded (a_size a) (a_pos a) k m, a_pos = a_pos a + m\<rparr>)
         else None)"
| "afile_call v (Seek_call off whence) a =
     (let q = seek_target v a off whence
      in if 0 \<le> q \<and> q < 2 ^ 63 then Some ((word_of_int q, []), a\<lparr>a_pos := nat q\<rparr>) else None)"

section \<open>The calls of the program\<close>

definition file_call :: "'b spdk \<Rightarrow> int \<Rightarrow> io_call \<Rightarrow> 'b globals \<Rightarrow> ((u64 \<times> u8 list) \<times> 'b globals) res" where
  "file_call L fd c g =
     (case c of
        Read_call buf user n \<Rightarrow> bind_res (monopoly_read L fd buf user n g) (\<lambda>(r, user', g'). Inr ((r, user'), g'))
      | Write_call buf user n \<Rightarrow> bind_res (monopoly_write L fd buf user n g) (\<lambda>(r, user', g'). Inr ((r, user'), g'))
      | Seek_call off whence \<Rightarrow> bind_res (monopoly_lseek L fd off whence g) (\<lambda>(r, g'). Inr ((r, []), g')))"

section \<open>The relation\<close>

definition geometry :: "volume \<Rightarrow> bool" where
  "geometry v \<longleftrightarrow> 512 dvd unat (v_unit v) \<and> unat (v_unit v) < 2 ^ 31 \<and>
     unat (v_unit v) dvd v_buffer v \<and> 0 < v_buffer v \<and> v_buffer v < 2 ^ 31"

definition volume_ok :: "'b spdk \<Rightarrow> volume \<Rightarrow> blob \<Rightarrow> ('b \<Rightarrow> u8 list \<Rightarrow> bool) \<Rightarrow> bool" where
  "volume_ok L v blb holds \<longleftrightarrow>
     keeps_bytes L (v_unit v) blb holds \<and> grows_bytes L (v_cluster v) (v_cap v) blb holds \<and> geometry v"

definition afile_ok :: "volume \<Rightarrow> afile \<Rightarrow> bool" where
  "afile_ok v a \<longleftrightarrow> a_size a \<le> length (a_data a) \<and> a_pos a < 2 ^ 63 \<and> unat (v_unit v) dvd a_pos a"

definition stands_for :: "spdkfs_file \<Rightarrow> u8 list \<Rightarrow> blob \<Rightarrow> afile \<Rightarrow> bool" where
  "stands_for f D blb a \<longleftrightarrow> f_blob f = blb \<and> unat (f_pos f) = a_pos a \<and>
     unat (f_size (file_persist f)) = a_size a \<and> (\<exists>rest. D = a_data a @ rest)"

definition session_rel ::
  "'b spdk \<Rightarrow> volume \<Rightarrow> blob \<Rightarrow> ('b \<Rightarrow> u8 list \<Rightarrow> bool) \<Rightarrow> int \<Rightarrow> afile \<Rightarrow> 'b globals \<Rightarrow> bool" where
  "session_rel L v blb holds fd a g \<longleftrightarrow> volume_ok L v blb holds \<and> afile_ok v a \<and>
     (\<forall>p. p \<noteq> 0 \<longrightarrow> spdkfs_mm_find (g_mm g) p = Inr (v_dma v p)) \<and> length (g_buffer g) = v_buffer v \<and>
     (\<exists>f D. file_of_fd g fd = Inr f \<and> calm holds D (g_thread g) \<and> stands_for f D blb a)"

lemmas volume_defs = volume_ok_def geometry_def

lemma session_ready:
  assumes "session_rel L v blb holds fd a g" and "file_of_fd g fd = Inr f" and "calm holds D (g_thread g)"
    and "stands_for f D blb a" and "buf \<noteq> 0"
  shows "transfer_ready L (v_unit v) holds fd buf f D g"
  using assms by (auto simp: session_rel_def volume_defs transfer_ready_def stands_for_def)

lemma session_relD:
  assumes "session_rel L v blb holds fd a g"
  obtains f D where "file_of_fd g fd = Inr f" and "calm holds D (g_thread g)" and "stands_for f D blb a"
    and "\<And>buf. buf \<noteq> 0 \<Longrightarrow> transfer_ready L (v_unit v) holds fd buf f D g"
  using assms session_ready [OF assms] unfolding session_rel_def by blast

lemma session_relI:
  assumes "session_rel L v blb holds fd a g" and "transfer_ready L (v_unit v) holds fd buf f D g'"
    and "stands_for f D blb a'" and "afile_ok v a'" and "io_frame fd f g g'"
  shows "session_rel L v blb holds fd a' g'"
  using assms by (auto simp: session_rel_def transfer_ready_def io_frame_def)

lemma aligned_size_word:
  assumes "v_unit v \<noteq> 0"
  shows "unat (n div v_unit v * v_unit v) = aligned_size v n" and "n div v_unit v = 0 \<longleftrightarrow> aligned_size v n = 0"
    and "unat (v_unit v) dvd aligned_size v n"
proof -
  have "unat n div unat (v_unit v) * unat (v_unit v) \<le> unat n" by simp
  moreover have "unat n < 2 ^ 64" using unsigned_less [of n] by simp
  ultimately have "unat n div unat (v_unit v) * unat (v_unit v) < 2 ^ 64" by (rule order_le_less_trans)
  then show e: "unat (n div v_unit v * v_unit v) = aligned_size v n"
    using unat_mult_lem [of "n div v_unit v" "v_unit v"] by (simp add: unat_div aligned_size_def)
  show "unat (v_unit v) dvd aligned_size v n" by (simp add: aligned_size_def)
  show "n div v_unit v = 0 \<longleftrightarrow> aligned_size v n = 0"
  proof
    assume "aligned_size v n = 0"
    then have "n div v_unit v * v_unit v = 0" using e by (metis unsigned_0 unsigned_word_eqI)
    then show "n div v_unit v = 0" using rounded_down(1) [OF _ assms] by blast
  qed (use e in simp)
qed

section \<open>The three calls\<close>

text \<open>The calls that moved bytes; only these reach the blob and store the file's context in its attribute.\<close>

definition moved_bytes :: "io_call \<Rightarrow> u64 \<times> u8 list \<Rightarrow> bool" where
  "moved_bytes c r \<longleftrightarrow> (case c of Seek_call off whence \<Rightarrow> False | _ \<Rightarrow> fst r \<noteq> 0)"

definition io_done :: "'b spdk \<Rightarrow> int \<Rightarrow> bool \<Rightarrow> spdkfs_file \<Rightarrow> 'b globals \<Rightarrow> 'b globals \<Rightarrow> bool" where
  "io_done L fd moved f' g g' \<longleftrightarrow> file_of_fd g' fd = Inr f' \<and> io_frame fd f' g g' \<and>
     (if moved then stored L f' (g_thread g') else g_thread g' = g_thread g)"

lemma io_done_nothing:
  assumes "file_of_fd g fd = Inr f"
  shows "io_done L fd False f g g"
proof -
  have "(open_files (g_fdtable g))[nat fd := Some f] = open_files (g_fdtable g)"
    using assms by (intro list_update_same_conv [THEN iffD2]) (auto simp: file_of_fd_def split: if_splits option.splits)
  then show ?thesis using assms by (simp add: io_done_def io_frame_def set_open_file_def)
qed

lemma read_step:
  assumes "session_rel L v blb holds fd a g" and "afile_call v (Read_call buf user n) a = Some (r, a')"
  shows "\<exists>g' f'. file_call L fd (Read_call buf user n) g = Inr (r, g') \<and> session_rel L v blb holds fd a' g' \<and>
     io_done L fd (moved_bytes (Read_call buf user n) r) f' g g'"
proof -
  let ?m = "aligned_size v n" and ?k = "piece v buf (aligned_size v n)"
  obtain f D where f: "file_of_fd g fd = Inr f" "stands_for f D blb a"
      "\<And>buf. buf \<noteq> 0 \<Longrightarrow> transfer_ready L (v_unit v) holds fd buf f D g"
    using session_relD [OF assms(1)] by metis
  note t = transfer_readyD [OF f(3) [OF one_neq_zero]]
  have v: "volume_ok L v blb holds" "afile_ok v a" "buf \<noteq> 0 \<Longrightarrow> spdkfs_mm_find (g_mm g) buf = Inr (v_dma v buf)"
      "length (g_buffer g) = v_buffer v"
    using assms(1) by (simp_all add: session_rel_def)
  note sz = aligned_size_word [OF t(6), of n]
  show ?thesis
  proof (cases "?m = 0")
    case True
    then have "r = (0, user)" "a' = a" using assms(2) by simp_all
    moreover have "monopoly_read L fd buf user n g = Inr (0, user, g)"
      using True sz(2) t f(1) by (simp add: monopoly_read_def Let_def)
    ultimately show ?thesis using assms(1) io_done_nothing [OF f(1)] by (auto simp: file_call_def moved_bytes_def)
  next
    case False
    define moved where "moved = served ?k ?m (a_size a - a_pos a)"
    have b0: "buf \<noteq> 0" using assms(2) False by (auto simp: Let_def split: if_splits)
    have g: "?m \<le> length user" "a_pos a + ?m < 2 ^ 63"
        "r = (of_nat moved, take moved (drop (a_pos a) (a_data a)) @ drop moved user)" "a' = a\<lparr>a_pos := a_pos a + moved\<rparr>"
      using assms(2) False by (auto simp: Let_def moved_def split: if_splits)
    have s: "unat (f_pos f) = a_pos a" "unat (f_size (file_persist f)) = a_size a" "f_blob f = blb"
      using f(2) by (simp_all add: stands_for_def)
    obtain rest where D: "D = a_data a @ rest" using f(2) by (auto simp: stands_for_def)
    have le: "moved \<le> ?m" "moved \<le> a_size a - a_pos a"
      unfolding moved_def by (rule served_le)+
    have in_data: "moved = 0 \<or> a_pos a + moved \<le> length (a_data a)"
      using le(2) v(2) unfolding afile_ok_def by linarith
    have al: "lined_up (v_unit v) (length (g_buffer g)) f (n div v_unit v * v_unit v) user"
      using v g(1) s(1) sz(1,3) by (simp add: lined_up_def volume_defs afile_ok_def)
    have dv: "unat (v_unit v) dvd moved"
    proof -
      have "unat (v_unit v) dvd ?k" using sz(3) v(1) by (simp add: piece_def volume_defs)
      then show ?thesis
        using served_whole [of ?k ?m "a_size a - a_pos a"] sz(3) unfolding moved_def by (metis dvd_trans)
    qed
    have "moved = 0 \<or> unat (f_pos f) + moved \<le> length D" using in_data D s(1) by auto
    moreover have "moved = served ?k (unat (n div v_unit v * v_unit v))
        (unat (f_size (file_persist f)) - unat (f_pos f))"
      using s(1,2) sz(1) by (simp add: moved_def)
    moreover have "?k = (if v_dma v buf then unat (n div v_unit v * v_unit v) else length (g_buffer g))"
      using v(4) sz(1) by (simp add: piece_def)
    moreover have "n div v_unit v \<noteq> 0" "unat (f_pos f) + unat (n div v_unit v * v_unit v) < 2 ^ 64"
      using False sz(1,2) g(2) s(1) by simp_all
    moreover have "512 dvd unat (v_unit v)" using v(1) by (simp add: volume_defs)
    ultimately obtain g' where g': "monopoly_read L fd buf user n g =
        Inr (of_nat moved, take moved (drop (a_pos a) D) @ drop moved user, g')"
        "transfer_ready L (v_unit v) holds fd buf (f\<lparr>f_pos := f_pos f + of_nat moved\<rparr>) D g'"
        "io_frame fd (f\<lparr>f_pos := f_pos f + of_nat moved\<rparr>) g g'"
        "if moved = 0 then g_thread g' = g_thread g else stored L f (g_thread g')"
      using monopoly_read_moves [OF f(3) [OF b0] _ refl al _ v(3) [OF b0]] s(1) by metis
    have "take moved (drop (a_pos a) D) = take moved (drop (a_pos a) (a_data a))"
      using in_data D by auto
    moreover have "unat (f_pos f + of_nat moved) = a_pos a + moved"
      using chunk_pos(1) [of f moved] s(1) g(2) le(1) by simp
    moreover have small: "a_pos a + moved < 2 ^ 63" using g(2) le(1) by simp
    moreover have "io_done L fd (moved_bytes (Read_call buf user n) r) (f\<lparr>f_pos := f_pos f + of_nat moved\<rparr>) g g'"
    proof -
      have "unat (of_nat moved :: u64) = moved" using small by (simp add: unsigned_of_nat take_bit_nat_eq_self)
      then have "(of_nat moved :: u64) = 0 \<longleftrightarrow> moved = 0" using unat_0_iff [of "of_nat moved :: u64"] by simp
      then have "fst r = 0 \<longleftrightarrow> moved = 0" using g(3) by simp
      then show ?thesis
        using g'(3,4) transfer_readyD(3) [OF g'(2)] by (auto simp: io_done_def moved_bytes_def)
    qed
    ultimately show ?thesis
      using g(3,4) g'(1) s D dv v(2)
      by (intro exI [of _ g'] exI [of _ "f\<lparr>f_pos := f_pos f + of_nat moved\<rparr>"] conjI
          session_relI [OF assms(1) g'(2) _ _ g'(3)])
        (simp_all add: file_call_def stands_for_def afile_ok_def)
  qed
qed

lemma write_step:
  assumes "session_rel L v blb holds fd a g" and "afile_call v (Write_call buf user n) a = Some (r, a')"
  shows "\<exists>g' f'. file_call L fd (Write_call buf user n) g = Inr (r, g') \<and> session_rel L v blb holds fd a' g' \<and>
     io_done L fd (moved_bytes (Write_call buf user n) r) f' g g'"
proof -
  let ?m = "aligned_size v n" and ?k = "piece v buf (aligned_size v n)" and ?amount = "n div v_unit v * v_unit v"
  obtain f D where f: "file_of_fd g fd = Inr f" "stands_for f D blb a"
      "\<And>buf. buf \<noteq> 0 \<Longrightarrow> transfer_ready L (v_unit v) holds fd buf f D g"
    using session_relD [OF assms(1)] by metis
  note t = transfer_readyD [OF f(3) [OF one_neq_zero]]
  have v: "volume_ok L v blb holds" "afile_ok v a" "buf \<noteq> 0 \<Longrightarrow> spdkfs_mm_find (g_mm g) buf = Inr (v_dma v buf)"
      "length (g_buffer g) = v_buffer v"
    using assms(1) by (simp_all add: session_rel_def)
  note sz = aligned_size_word [OF t(6), of n]
  show ?thesis
  proof (cases "?m = 0")
    case True
    then have "r = (0, user)" "a' = a" using assms(2) by simp_all
    moreover have "monopoly_write L fd buf user n g = Inr (0, user, g)"
      using True sz(2) t f(1) by (simp add: monopoly_write_def Let_def)
    ultimately show ?thesis using assms(1) io_done_nothing [OF f(1)] by (auto simp: file_call_def moved_bytes_def)
  next
    case False
    define data where "data = take (a_pos a) (a_data a) @ take ?m user @ drop (a_pos a + ?m) (a_data a)"
    have b0: "buf \<noteq> 0" using assms(2) False by (auto simp: Let_def split: if_splits)
    have g: "?m \<le> length user" "a_pos a + ?m < 2 ^ 63" "write_allowed v a ?k ?m" "r = (of_nat ?m, user)"
        "a' = \<lparr>a_data = data, a_size = recorded (a_size a) (a_pos a) ?k ?m, a_pos = a_pos a + ?m\<rparr>"
      using assms(2) False by (auto simp: Let_def data_def split: if_splits)
    have s: "unat (f_pos f) = a_pos a" "unat (f_size (file_persist f)) = a_size a" "f_blob f = blb"
      using f(2) by (simp_all add: stands_for_def)
    obtain rest where D: "D = a_data a @ rest" using f(2) by (auto simp: stands_for_def)
    have in_data: "a_pos a \<le> length (a_data a)" using g(3) by (auto simp: write_allowed_def)
    have al: "lined_up (v_unit v) (length (g_buffer g)) f ?amount user"
      using v g(1) s(1) sz(1,3) by (simp add: lined_up_def volume_defs afile_ok_def)
    have nz: "n div v_unit v \<noteq> 0" using False sz(2) by simp
    have k: "?k = (if v_dma v buf then unat ?amount else length (g_buffer g))"
      using v(4) sz(1) by (simp add: piece_def)
    have rm: "room L (v_cluster v) (v_cap v) (f_blob f) holds D (unat (f_pos f)) (min ?k (unat ?amount)) (unat ?amount)"
      using g(3) v(1) s D in_data sz(1) by (auto simp: room_def write_allowed_def volume_defs)
    have b63: "unat (f_pos f) + unat ?amount < 2 ^ 63" using g(2) s(1) sz(1) by simp
    from monopoly_write_moves [OF f(3) [OF b0] refl al nz v(3) [OF b0] k rm b63] obtain f' g' junk where
      w: "monopoly_write L fd buf user n g = Inr (?amount, user, g')" "f_blob f' = blb" "f_pos f' = f_pos f + ?amount"
        "unat (f_size (file_persist f')) = recorded (a_size a) (a_pos a) ?k ?m"
        "transfer_ready L (v_unit v) holds fd buf f' (overwrite (a_pos a) (take ?m user) (D @ junk)) g'"
        "io_frame fd f' g g'" "stored L f' (g_thread g')"
      using s sz(1) by auto
    have pos: "unat (f_pos f') = a_pos a + ?m"
      using w(3) unat_add_small [of "f_pos f" ?amount] s(1) sz(1) g(2) by simp
    have "overwrite (a_pos a) (take ?m user) (D @ junk) = data @ drop (a_pos a + ?m - length (a_data a)) (rest @ junk)"
      using in_data D g(1) by (simp add: overwrite_def data_def)
    then have st: "stands_for f' (overwrite (a_pos a) (take ?m user) (D @ junk)) blb a'"
      using w(2,4) pos g(5) by (auto simp: stands_for_def)
    have "recorded (a_size a) (a_pos a) ?k ?m \<le> length data"
      using recorded_le [of "a_size a" "a_pos a" ?k ?m] in_data g(1) v(2)
      by (auto simp: data_def afile_ok_def max_def split: if_splits)
    then have ok: "afile_ok v a'"
      using g(2,5) v(2) sz(3) by (simp add: afile_ok_def)
    have "(of_nat ?m :: u64) = ?amount" unfolding sz(1) [symmetric] by simp
    moreover have "?amount \<noteq> 0" using sz(1) False by (metis unsigned_0)
    ultimately have "io_done L fd (moved_bytes (Write_call buf user n) r) f' g g'"
      using w(6,7) g(4) transfer_readyD(3) [OF w(5)] by (simp add: io_done_def moved_bytes_def)
    then show ?thesis
      using w(1) g(4) \<open>of_nat ?m = ?amount\<close> session_relI [OF assms(1) w(5) st ok w(6)] by (auto simp: file_call_def)
  qed
qed

lemma seek_step:
  assumes "session_rel L v blb holds fd a g" and "afile_call v (Seek_call off whence) a = Some (r, a')"
  shows "\<exists>g' f'. file_call L fd (Seek_call off whence) g = Inr (r, g') \<and> session_rel L v blb holds fd a' g' \<and>
     io_done L fd (moved_bytes (Seek_call off whence) r) f' g g'"
proof -
  obtain f D where f: "file_of_fd g fd = Inr f" "stands_for f D blb a" "transfer_ready L (v_unit v) holds fd 1 f D g"
    using session_relD [OF assms(1)] one_neq_zero by metis
  note t = transfer_readyD [OF f(3)]
  define q where "q = seek_target v a off whence"
  have q: "0 \<le> q" "q < 2 ^ 63" "r = (word_of_int q, [])" "a' = a\<lparr>a_pos := nat q\<rparr>"
    using assms(2) by (auto simp: q_def Let_def split: if_splits)
  have s: "unat (f_pos f) = a_pos a" using f(2) by (simp add: stands_for_def)
  have v: "volume_ok L v blb holds" "afile_ok v a" using assms(1) by (simp_all add: session_rel_def)
  let ?w = "word_of_int q :: u64"
  let ?f = "f\<lparr>f_pos := ?w\<rparr>"
  have p: "word_of_int (int (a_pos a)) = f_pos f" using s by (metis of_nat_unat word_of_int_uint)
  have "monopoly_lseek L fd off whence g = Inr (?w, set_open_file fd ?f g)"
    using t(4,5,6) f(1) p by (auto simp: monopoly_lseek_def Let_def q_def seek_target_def seek_align_def SEEK_SET_def SEEK_CUR_def)
  moreover have "unat ?w = nat q"
  proof -
    have "unat (of_nat (nat q) :: u64) = nat q" using q(2) by (simp add: unsigned_of_nat take_bit_nat_eq_self)
    then show ?thesis using q(1) by simp
  qed
  moreover have "unat (v_unit v) dvd nat q"
  proof -
    have "sint (v_unit v) = int (unat (v_unit v))"
      using v(1) sint_small [of "v_unit v"] by (simp add: volume_defs)
    then have "int (unat (v_unit v)) dvd q"
      using v(2) by (auto simp: q_def seek_target_def Let_def afile_ok_def intro: dvd_add)
    then show ?thesis using q(1) by (metis nat_0_le int_dvd_int_iff)
  qed
  moreover have tr: "transfer_ready L (v_unit v) holds fd 1 ?f D (set_open_file fd ?f g)"
    by (rule transfer_ready_seek [OF f(3)]) simp
  moreover have fr: "io_frame fd ?f g (set_open_file fd ?f g)" using io_frame_intros(1) [of fd ?f g "g_thread g"] by simp
  ultimately show ?thesis
    using q f(2) v(2) transfer_readyD(3) [OF tr]
    by (intro exI [of _ "set_open_file fd ?f g"] exI [of _ ?f] conjI session_relI [OF assms(1) tr _ _ fr])
      (simp_all add: file_call_def stands_for_def afile_ok_def io_done_def moved_bytes_def, simp_all add: set_open_file_def)
qed

section \<open>Sessions\<close>

lemma call_step:
  assumes "session_rel L v blb holds fd a g" and "afile_call v c a = Some (r, a')"
  shows "\<exists>g' f'. file_call L fd c g = Inr (r, g') \<and> session_rel L v blb holds fd a' g' \<and>
     io_done L fd (moved_bytes c r) f' g g'"
proof (cases c)
  case (Read_call buf user n)
  show ?thesis using read_step [OF assms(1)] assms(2) unfolding Read_call by blast
next
  case (Write_call buf user n)
  show ?thesis using write_step [OF assms(1)] assms(2) unfolding Write_call by blast
next
  case (Seek_call off whence)
  show ?thesis using seek_step [OF assms(1)] assms(2) unfolding Seek_call by blast
qed

interpretation session: simulation "afile_call v" "file_call L fd" "session_rel L v blb holds fd" for L v blb holds fd
proof
  show "session_rel L v blb holds fd a g \<Longrightarrow> afile_call v c a = Some (r, a') \<Longrightarrow>
      \<exists>g'. file_call L fd c g = Inr (r, g') \<and> session_rel L v blb holds fd a' g'" for a g c r a'
    using call_step by blast
qed

text \<open>C2. Sessions refine the abstract file: any sequence of reads, writes and seeks on an open file that
  the abstract file allows runs without a fault and gives the abstract file's results, over every
  library that keeps and grows the bytes of the blob, for DMA and other buffers, within the blob
  and beyond its end. At the end the descriptor still stands for the abstract file.\<close>

theorem file_session_refines:
  assumes "session_rel L v blb holds fd a g" and "spec_calls (afile_call v) cs a = Some (rs, a')"
  shows "\<exists>g'. run_calls (file_call L fd) cs g = Inr (rs, g') \<and> session_rel L v blb holds fd a' g'"
  by (rule session.calls_refine [OF assms])

text \<open>The in-memory blobstore grows.\<close>

lemma mem_grows_bytes:
  assumes "0 < cl" and "cl < 2 ^ 31" and "cap < 2 ^ 63"
  shows "grows_bytes (mem_lib n cl) (of_nat cl) cap blb (mem_holds cl blb)"
proof -
  have "cl < 2 ^ 64" by (rule order_less_trans [OF assms(2)]) simp
  note c = of_nat_u64_pos [OF assms(1) this] of_nat_u64 [OF this]
  show ?thesis
    unfolding grows_bytes_def
  proof (intro conjI allI impI)
    fix b D assume h: "mem_holds cl blb b D"
    then have d: "bs_data b blb = Some D" "length D < 2 ^ 63" "cl dvd length D" by (simp_all add: mem_holds_def)
    show "unat (num_clusters (mem_lib n cl) b blb) * unat (of_nat cl :: u64) = length D"
      using d(3) unfolding mem_clusters [OF d(1,2)] c(2) by simp
    assume "length D + unat (of_nat cl :: u64) \<le> cap"
    then have "mem_holds cl blb (b\<lparr>bs_data := (bs_data b)(blb \<mapsto> D @ replicate cl 0), bs_pending := None\<rparr>) (D @ replicate cl 0)"
      using d(3) assms(3) c(2) by (simp add: mem_holds_def)
    then show "\<exists>b' junk. resize_done (mem_lib n cl) b blb (num_clusters (mem_lib n cl) b blb + 1) True b' \<and>
        length junk = unat (of_nat cl :: u64) \<and> mem_holds cl blb b' (D @ junk)"
      using mem_grow_done [OF d] c(2) by (metis length_replicate)
  qed (use c(1) assms(3) in simp_all)
qed

text \<open>A session on a new file of the example volume: two sectors written, the position set to 0, two
  sectors read. Only the first comes back.\<close>

definition demo_volume :: volume where
  "demo_volume = \<lparr>v_unit = 512, v_cluster = 1024, v_cap = 8192, v_buffer = 512, v_dma = (\<lambda>_. False), v_super = 0\<rparr>"

definition new_file :: spdkfs_file where
  "new_file = \<lparr>f_blob = 1, f_pos = 0, file_persist = example_persist\<lparr>f_size := 0\<rparr>\<rparr>"

lemma demo_rel: "session_rel (mem_lib 512 1024) demo_volume 1 (mem_holds 1024 1) 0
    \<lparr>a_data = [], a_size = 0, a_pos = 0\<rparr> (open_globals new_file)"
  using mem_keeps_bytes [of 512 1024 1] mem_grows_bytes [of 1024 8192 512 1] mm_start_find
  by (auto simp: session_rel_def volume_defs afile_ok_def stands_for_def demo_volume_def new_file_def
      calm_iff mem_holds_def example_disk_def)

theorem file_session_refines_witness:
  "\<exists>g'. run_calls (file_call (mem_lib 512 1024) 0)
      [Write_call 1 (replicate 512 65) 512, Write_call 1 (replicate 512 66) 512, Seek_call 0 SEEK_SET,
       Read_call 1 (replicate 1024 0) 1024] (open_globals new_file) =
    Inr ([(512, replicate 512 65), (512, replicate 512 66), (0, []), (512, replicate 512 65 @ replicate 512 0)], g')"
proof -
  have "spec_calls (afile_call demo_volume)
      [Write_call 1 (replicate 512 65) 512, Write_call 1 (replicate 512 66) 512, Seek_call 0 SEEK_SET,
       Read_call 1 (replicate 1024 0) 1024] \<lparr>a_data = [], a_size = 0, a_pos = 0\<rparr> =
    Some ([(512, replicate 512 65), (512, replicate 512 66), (0, []), (512, replicate 512 65 @ replicate 512 0)],
      \<lparr>a_data = replicate 512 65 @ replicate 512 66, a_size = 512, a_pos = 512\<rparr>)"
    by (simp add: demo_volume_def aligned_size_def piece_def write_allowed_def served_def recorded_def
        seek_target_def SEEK_SET_def SEEK_CUR_def)
  from file_session_refines [OF demo_rel this] show ?thesis by blast
qed

end
