(* ===== verification/Namespace.thy ===== *)
theory Namespace
  imports Dirent_Props
begin

text \<open>
  The root directory as a list of names with their blob ids. \<open>dir_holds\<close> says that the entry array,
  the count and the recorded size of the directory represent such a list; looking a name up, adding
  an entry and removing one are then the list's operations. Adding needs memory behind the last
  entry that is zero, because the code stores names without a terminator: this holds from the
  start, adding keeps it, removing an entry does not.
\<close>

section \<open>The representation\<close>

definition dir_holds :: "u64 \<Rightarrow> spdkfs_dir \<Rightarrow> (u8 list \<times> u64) list \<Rightarrow> bool" where
  "dir_holds u dir ns \<longleftrightarrow>
     dir_room u dir \<and> named_entries (dirents dir) (length ns) \<and>
     unat (d_dirent_count (dir_persist dir)) = length ns \<and> dir_names dir = map fst ns \<and>
     (\<forall>j<length ns. dirent_id dir j = Inr (snd (ns ! j))) \<and> sizeof_dirent \<le> unat u"

definition dir_limit :: nat where "dir_limit = 2 ^ 20"

text \<open>What adding needs: zero memory behind the entries, and sizes that do not overflow before
  \<open>dir_limit\<close> entries are reached.\<close>

definition dir_fresh :: "u64 \<Rightarrow> spdkfs_dir \<Rightarrow> nat \<Rightarrow> bool" where
  "dir_fresh u dir n \<longleftrightarrow> zero_tail dir \<and> unat (d_size (dir_persist dir)) + (dir_limit - n) * unat u < 2 ^ 63"

lemma dir_holdsD:
  assumes "dir_holds u dir ns"
  shows "dir_room u dir" and "named_entries (dirents dir) (unat (d_dirent_count (dir_persist dir)))"
    and "unat (d_dirent_count (dir_persist dir)) = length ns" and "dir_names dir = map fst ns"
    and "j < length ns \<Longrightarrow> dirent_id dir j = Inr (snd (ns ! j))" and "sizeof_dirent \<le> unat u"
  using assms by (simp_all add: dir_holds_def)

lemma empty_dir_holds: "sizeof_dirent \<le> unat u \<Longrightarrow> dir_holds u empty_dir []"
  by (simp add: dir_holds_def dir_names_def named_entries_def)

section \<open>Looking a name up\<close>

text \<open>The position of the first entry with a name.\<close>

fun position :: "'k \<Rightarrow> ('k \<times> 'v) list \<Rightarrow> nat option" where
  "position k [] = None"
| "position k (x # xs) = (if fst x = k then Some 0 else map_option Suc (position k xs))"

lemma position_None: "position k xs = None \<longleftrightarrow> k \<notin> fst ` set xs"
  by (induction xs) auto

lemma position_Some:
  "position k xs = Some j \<longleftrightarrow> j < length xs \<and> fst (xs ! j) = k \<and> k \<notin> fst ` set (take j xs)"
proof (induction xs arbitrary: j)
  case (Cons x xs)
  show ?case by (cases j) (auto simp: Cons.IH)
qed simp

lemma position_map_of: "map_of xs k = map_option (\<lambda>j. snd (xs ! j)) (position k xs)"
  by (induction xs) (auto simp: option.map_comp comp_def)

lemma lookup_position:
  assumes "dir_holds u dir ns" and "0 \<notin> set name"
  shows "spdkfs_dir_lookup dir name = Inr (case position name ns of None \<Rightarrow> - 1 | Some k \<Rightarrow> int k)"
proof -
  note d = dir_holdsD [OF assms(1)]
  have img: "set (take i (dir_names dir)) = fst ` set (take i ns)" for i using d(4) by (simp add: take_map)
  consider i where "spdkfs_dir_lookup dir name = Inr (int i)" "i < length ns" "dir_names dir ! i = name"
      "name \<notin> set (take i (dir_names dir))"
    | "spdkfs_dir_lookup dir name = Inr (- 1)" "name \<notin> set (dir_names dir)"
    using dir_lookup_names [OF d(2) assms(2)] d(4) by auto
  then show ?thesis
  proof cases
    case 1
    then have "position name ns = Some i" using d(4) img by (simp add: position_Some)
    then show ?thesis using 1 by simp
  next
    case 2
    then have "position name ns = None" using d(4) by (simp add: position_None)
    then show ?thesis using 2 by simp
  qed
qed

section \<open>Adding an entry\<close>

lemma add_dirent_frame:
  assumes "add_dirent junk u i filename dir = Inr dir'" and "dir_room u dir" and "sizeof_dirent \<le> unat u"
    and "unat (d_size (dir_persist dir)) + unat u < 2 ^ 64"
  shows "d_initialized dir' = d_initialized dir" and "d_blob dir' = d_blob dir"
    and "unat (d_size (dir_persist dir')) \<in> {unat (d_size (dir_persist dir)), unat (d_size (dir_persist dir)) + unat u}"
proof -
  let ?dir = "dir\<lparr>d_dirty := True\<rparr>"
  obtain dir1 where d1: "dirent_room junk u ?dir = Inr dir1" "d_initialized dir' = d_initialized dir1"
      "d_blob dir' = d_blob dir1" "d_size (dir_persist dir') = d_size (dir_persist dir1)"
    using assms(1) by (auto simp: add_dirent_def Let_def bind_res_Inr_iff)
  have room: "dir_room u ?dir" using assms(2) by (simp add: dir_room_def)
  have "d_initialized dir1 = d_initialized dir \<and> d_blob dir1 = d_blob dir \<and>
      unat (d_size (dir_persist dir1)) \<in> {unat (d_size (dir_persist dir)), unat (d_size (dir_persist dir)) + unat u}"
  proof (cases "d_size (dir_persist dir) = 0")
    case True
    then show ?thesis using room_first(1) [OF room assms(3), of junk] d1(1) by auto
  next
    case False
    then show ?thesis
      using d1(1) unat_small_sum [OF assms(4)] by (auto simp: dirent_room_def Let_def split: if_splits)
  qed
  then show "d_initialized dir' = d_initialized dir" "d_blob dir' = d_blob dir"
    "unat (d_size (dir_persist dir')) \<in> {unat (d_size (dir_persist dir)), unat (d_size (dir_persist dir)) + unat u}"
    using d1(2-4) by simp_all
qed

lemma fresh_small:
  assumes "dir_holds u dir ns" and "dir_fresh u dir (length ns)" and "length ns < dir_limit"
  shows "dir_small u dir" and "unat (d_size (dir_persist dir)) + unat u + (dir_limit - Suc (length ns)) * unat u < 2 ^ 63"
proof -
  have "dir_limit - length ns = Suc (dir_limit - Suc (length ns))" using assms(3) by simp
  then have e: "(dir_limit - length ns) * unat u = unat u + (dir_limit - Suc (length ns)) * unat u" by simp
  then show b: "unat (d_size (dir_persist dir)) + unat u + (dir_limit - Suc (length ns)) * unat u < 2 ^ 63"
    using assms(2) by (simp add: dir_fresh_def)
  have "length ns * sizeof_dirent + sizeof_dirent < 2 ^ 64"
    using assms(3) by (simp add: dir_limit_def sizeof_dirent_def)
  then show "dir_small u dir" using b dir_holdsD(3) [OF assms(1)] by (simp add: dir_small_def)
qed

lemma add_holds:
  assumes "dir_holds u dir ns" and "dir_fresh u dir (length ns)" and "name_ok name" and "length ns < dir_limit"
  shows "\<exists>dir'. add_dirent (\<lambda>_. 0) u i name dir = Inr dir' \<and> dir_holds u dir' (ns @ [(name, i)]) \<and>
     dir_fresh u dir' (Suc (length ns)) \<and> d_initialized dir' = d_initialized dir \<and> d_blob dir' = d_blob dir \<and>
     (unat u dvd unat (d_size (dir_persist dir)) \<longrightarrow> unat u dvd unat (d_size (dir_persist dir')))"
proof -
  note d = dir_holdsD [OF assms(1)] and small = fresh_small [OF assms(1,2,4)]
  have z: "zero_tail dir" using assms(2) by (simp add: dir_fresh_def)
  obtain dir' where a: "add_dirent (\<lambda>_. 0) u i name dir = Inr dir'" "dir_names dir' = dir_names dir @ [name]"
      "dirent_id dir' (length ns) = Inr i" "\<forall>j<length ns. dirent_id dir' j = dirent_id dir j" "dir_room u dir'"
      "zero_tail dir'" "named_entries (dirents dir') (Suc (length ns))"
      "unat (d_dirent_count (dir_persist dir')) = Suc (length ns)"
    using add_dirent_zero_memory [OF d(1,6) small(1) z d(2) assms(3) d(3) [symmetric]] by blast
  have "unat (d_size (dir_persist dir)) + unat u < 2 ^ 64" using small(1) by (simp add: dir_small_def)
  note f = add_dirent_frame [OF a(1) d(1,6) this]
  have "unat (d_size (dir_persist dir')) + (dir_limit - Suc (length ns)) * unat u < 2 ^ 63"
    using f(3) small(2) by auto
  then have fresh: "dir_fresh u dir' (Suc (length ns))" using a(6) by (simp add: dir_fresh_def)
  have ids: "dirent_id dir' j = Inr (snd ((ns @ [(name, i)]) ! j))" if "j < Suc (length ns)" for j
    using that a(3,4) d(5) by (cases "j = length ns") (auto simp: nth_append)
  have "dir_holds u dir' (ns @ [(name, i)])"
    unfolding dir_holds_def using a(2,5,7,8) d(4,6) ids by simp
  moreover have "unat u dvd unat (d_size (dir_persist dir'))" if "unat u dvd unat (d_size (dir_persist dir))"
    using f(3) that by auto
  ultimately show ?thesis using a(1) fresh f(1,2) by blast
qed

section \<open>Removing an entry\<close>

text \<open>The directory after the loop of \<open>monopoly_unlink\<close>.\<close>

lemma remove_holds:
  assumes "dir_holds u dir ns" and "k < length ns" and "n = length ns"
    and "length mem = length (dirents dir)" and "unat (d_dirent_count (dir_persist dir) - 1) = n - 1"
    and shift: "\<forall>j. entry mem j = (if k \<le> j \<and> j < n - 1 then entry (dirents dir) (Suc j) else entry (dirents dir) j)"
    and "dir' = dir\<lparr>dirents := mem, dir_persist := (dir_persist dir)\<lparr>d_dirent_count := d_dirent_count (dir_persist dir) - 1\<rparr>\<rparr>"
  shows "dir_holds u dir' (take k ns @ drop (Suc k) ns)"
proof -
  note d = dir_holdsD [OF assms(1)]
  let ?ns = "take k ns @ drop (Suc k) ns" and ?s = "\<lambda>j. if k \<le> j then Suc j else j"
  have len: "length ?ns = n - 1" using assms(2,3) by simp
  have nth: "?ns ! j = ns ! ?s j" if "j < n - 1" for j
    using that assms(2,3) by (simp add: nth_append min_def)
  have ent: "entry mem j = entry (dirents dir) (?s j)" and in_ns: "?s j < n" if "j < n - 1" for j
    using that shift by auto
  have named: "named_entries mem (n - 1)"
    unfolding named_entries_iff
  proof (intro allI impI)
    fix j assume j: "j < n - 1"
    show "0 \<in> set (take SPDK_MAX_NAME_COUNT (entry mem j))"
      unfolding ent [OF j] using d(2) in_ns [OF j] unfolding named_entries_iff d(3) assms(3) by blast
  qed
  have names: "dir_names dir' = map fst ?ns"
  proof -
    have m: "map fst ns = map (\<lambda>j. name_in (entry (dirents dir) j)) [0..<n]"
      using dir_names_entries [OF d(2)] unfolding d(3,4) assms(3) .
    have old: "name_in (entry (dirents dir) j) = fst (ns ! j)" if "j < n" for j
      using arg_cong [OF m, of "\<lambda>xs. xs ! j"] that assms(3) by simp
    have "dir_names dir' = map (\<lambda>j. name_in (entry mem j)) [0..<n - 1]"
      using dir_names_entries [of dir'] named assms(5,7) by simp
    also have "\<dots> = map fst ?ns"
    proof (rule nth_equalityI)
      show "length (map (\<lambda>j. name_in (entry mem j)) [0..<n - 1]) = length (map fst ?ns)" using len by simp
      fix j assume "j < length (map (\<lambda>j. name_in (entry mem j)) [0..<n - 1])"
      then have j: "j < n - 1" by simp
      have "name_in (entry mem j) = fst (ns ! ?s j)" unfolding ent [OF j] by (rule old [OF in_ns [OF j]])
      then show "map (\<lambda>j. name_in (entry mem j)) [0..<n - 1] ! j = map fst ?ns ! j" using j nth [OF j] len
        by (simp del: map_append)
    qed
    finally show ?thesis .
  qed
  have fit: "sizeof_dirent * Suc j \<le> length (dirents dir)" if "j < n" for j
    using room_entries [OF d(1,6)] d(3) that assms(3) by simp
  have ids: "dirent_id dir' j = Inr (snd (?ns ! j))" if "j < n - 1" for j
  proof -
    have "dirent_id dir' j = Inr (le_value (drop SPDK_MAX_NAME_COUNT (entry (dirents dir) (?s j))))"
      using dirent_id_entry [of j dir'] fit [of j] that assms(4,7) ent [OF that] by simp
    also have "\<dots> = dirent_id dir (?s j)" using dirent_id_entry [of "?s j" dir] fit in_ns [OF that] by simp
    finally show ?thesis using d(5) [of "?s j"] in_ns [OF that] nth [OF that] assms(3) by simp
  qed
  have room: "dir_room u dir'"
  proof -
    have "n * unat u \<le> unat (d_size (dir_persist dir))" using d(1,3) assms(3) by (simp add: dir_room_def)
    then have "(n - 1) * unat u \<le> unat (d_size (dir_persist dir))" by (rule order_trans [OF mult_le_mono1, rotated]) simp
    then show ?thesis using d(1,3) assms(3-5,7) by (simp add: dir_room_def)
  qed
  show ?thesis
    unfolding dir_holds_def len using room named names ids d(6) assms(5,7) by simp
qed

end
