(* ===== verification/Blobstore.thy ===== *)
theory Blobstore
  imports Contents
begin

text \<open>
  The contract of the library as the file system uses it: a store of blobs with contents and an
  attribute, reached through handles that are counted per open. Through a handle the store keeps
  and grows the bytes of one blob. The store in memory keeps the contract.
\<close>

section \<open>What a blobstore does\<close>

text \<open>The bytes of every blob with the value of its file attribute, and the open handles, each with the
  blob it leads to and how often it is open.\<close>

type_synonym contents = "blob_id \<Rightarrow> (u8 list \<times> xattr_value option) option"

type_synonym handles = "blob \<Rightarrow> (blob_id \<times> nat) option"

definition open_handle :: "blob \<Rightarrow> blob_id \<Rightarrow> handles \<Rightarrow> handles" where
  "open_handle h i H = H(h \<mapsto> (i, case H h of None \<Rightarrow> 1 | Some (j, n) \<Rightarrow> n + 1))"

definition close_handle :: "blob \<Rightarrow> handles \<Rightarrow> handles" where
  "close_handle h H =
     (case H h of None \<Rightarrow> H | Some (i, n) \<Rightarrow> if n \<le> 1 then H(h := None) else H(h \<mapsto> (i, n - 1)))"

text \<open>The library completes a request without error, soon enough for two requests in one poll.\<close>

definition serves :: "'b spdk \<Rightarrow> request \<Rightarrow> 'b \<Rightarrow> (completion \<Rightarrow> 'b \<Rightarrow> bool) \<Rightarrow> bool" where
  "serves L r b P \<longleftrightarrow>
     (\<exists>k c b'. 2 * k + 1 < POLLER_MAX_TIME \<and> lib_completes L k (submit L r b) c b' \<and> bserrno c = 0 \<and> P c b')"

text \<open>\<open>M r b V H\<close>: the library in the state \<open>b\<close> holds the blobs \<open>V\<close> with the handles \<open>H\<close> and has room for
  \<open>r\<close> more blobs. The first definition is about an open handle, the second about the store.\<close>

definition handle_laws ::
  "'b spdk \<Rightarrow> u64 \<Rightarrow> u64 \<Rightarrow> nat \<Rightarrow> (nat \<Rightarrow> 'b \<Rightarrow> contents \<Rightarrow> handles \<Rightarrow> bool) \<Rightarrow> nat \<Rightarrow> 'b \<Rightarrow> contents \<Rightarrow> handles \<Rightarrow>
     blob \<Rightarrow> blob_id \<Rightarrow> nat \<Rightarrow> bool"
where
  "handle_laws L u C cap M r b V H h i n \<longleftrightarrow> h \<noteq> 0 \<and> 0 < n \<and> get_id L b h = i \<and> (\<exists>D x. V i = Some (D, x) \<and>
     length D < 2 ^ 63 \<and> unat (num_clusters L b h) * unat C = length D \<and> get_xattr L b h file_xattr = x \<and>
     (\<forall>v. M r (set_xattr L h file_xattr v b) (V(i \<mapsto> (D, Some v))) H) \<and>
     (\<forall>off sz. in_range u D off sz \<longrightarrow>
        (\<exists>b'. read_done L b h off sz 0 (take (unat sz) (drop (unat off) D)) b' \<and> M r b' V H)) \<and>
     (\<forall>off sz buf. in_range u D off sz \<and> unat sz \<le> length buf \<longrightarrow>
        (\<exists>b'. write_done L b h off sz buf 0 b' \<and>
           M r b' (V(i \<mapsto> (overwrite (unat off) (take (unat sz) buf) D, x))) H)) \<and>
     (length D + unat C \<le> cap \<longrightarrow>
        (\<exists>b' junk. resize_done L b h (num_clusters L b h + 1) True b' \<and> length junk = unat C \<and>
           M r b' (V(i \<mapsto> (D @ junk, x))) H))) \<and>
     serves L (Blob_close h) b (\<lambda>c b'. M r b' V (close_handle h H))"

definition store_laws ::
  "'b spdk \<Rightarrow> (nat \<Rightarrow> 'b \<Rightarrow> contents \<Rightarrow> handles \<Rightarrow> bool) \<Rightarrow> nat \<Rightarrow> 'b \<Rightarrow> contents \<Rightarrow> handles \<Rightarrow> bool"
where
  "store_laws L M r b V H \<longleftrightarrow>
     (0 < r \<longrightarrow> serves L Bs_create_blob b (\<lambda>c b'. V (c_blobid c) = None \<and> M (r - 1) b' (V(c_blobid c \<mapsto> ([], None))) H)) \<and>
     (\<forall>i. V i \<noteq> None \<longrightarrow> serves L (Bs_open_blob i) b (\<lambda>c b'.
        (\<forall>j n. H (c_blob c) = Some (j, n) \<longrightarrow> j = i) \<and> M r b' V (open_handle (c_blob c) i H))) \<and>
     (\<forall>i. V i \<noteq> None \<and> (\<forall>h n. H h \<noteq> Some (i, n)) \<longrightarrow> serves L (Bs_delete_blob i) b (\<lambda>c b'. M r b' (V(i := None)) H))"

definition blobstore ::
  "'b spdk \<Rightarrow> u64 \<Rightarrow> u64 \<Rightarrow> nat \<Rightarrow> (nat \<Rightarrow> 'b \<Rightarrow> contents \<Rightarrow> handles \<Rightarrow> bool) \<Rightarrow> bool"
where
  "blobstore L u C cap M \<longleftrightarrow> u \<noteq> 0 \<and> C \<noteq> 0 \<and> cap < 2 ^ 63 \<and>
     (\<forall>h v b. get_xattr L (set_xattr L h file_xattr v b) h file_xattr = Some v) \<and> (\<forall>r b V H. M r b V H \<longrightarrow>
     io_unit_size L b = u \<and> cluster_size L b = C \<and> store_laws L M r b V H \<and>
     (\<forall>h i n. H h = Some (i, n) \<longrightarrow> handle_laws L u C cap M r b V H h i n))"

lemma blobstoreD:
  assumes "blobstore L u C cap M" and "M r b V H"
  shows "u \<noteq> 0" and "C \<noteq> 0" and "cap < 2 ^ 63" and "io_unit_size L b = u" and "cluster_size L b = C"
    and "store_laws L M r b V H" and "H h = Some (i, n) \<Longrightarrow> handle_laws L u C cap M r b V H h i n"
  using assms unfolding blobstore_def by blast+

lemma handle_lawsD:
  assumes "handle_laws L u C cap M r b V H h i n" and "V i = Some (D, x)"
  shows "h \<noteq> 0" and "0 < n" and "get_id L b h = i" and "length D < 2 ^ 63"
    and "unat (num_clusters L b h) * unat C = length D" and "get_xattr L b h file_xattr = x"
    and "M r (set_xattr L h file_xattr v b) (V(i \<mapsto> (D, Some v))) H"
    and "in_range u D off sz \<Longrightarrow>
      \<exists>b'. read_done L b h off sz 0 (take (unat sz) (drop (unat off) D)) b' \<and> M r b' V H"
    and "in_range u D off sz \<Longrightarrow> unat sz \<le> length buf \<Longrightarrow>
      \<exists>b'. write_done L b h off sz buf 0 b' \<and> M r b' (V(i \<mapsto> (overwrite (unat off) (take (unat sz) buf) D, x))) H"
    and "length D + unat C \<le> cap \<Longrightarrow>
      \<exists>b' junk. resize_done L b h (num_clusters L b h + 1) True b' \<and> length junk = unat C \<and>
        M r b' (V(i \<mapsto> (D @ junk, x))) H"
    and "serves L (Blob_close h) b (\<lambda>c b'. M r b' V (close_handle h H))"
proof -
  obtain D' x' where "V i = Some (D', x')" and laws: "h \<noteq> 0" "0 < n" "get_id L b h = i" "length D' < 2 ^ 63"
    "unat (num_clusters L b h) * unat C = length D'" "get_xattr L b h file_xattr = x'"
    "\<And>v. M r (set_xattr L h file_xattr v b) (V(i \<mapsto> (D', Some v))) H"
    "\<And>off sz. in_range u D' off sz \<Longrightarrow>
      \<exists>b'. read_done L b h off sz 0 (take (unat sz) (drop (unat off) D')) b' \<and> M r b' V H"
    "\<And>off sz buf. in_range u D' off sz \<Longrightarrow> unat sz \<le> length buf \<Longrightarrow>
      \<exists>b'. write_done L b h off sz buf 0 b' \<and> M r b' (V(i \<mapsto> (overwrite (unat off) (take (unat sz) buf) D', x'))) H"
    "length D' + unat C \<le> cap \<Longrightarrow>
      \<exists>b' junk. resize_done L b h (num_clusters L b h + 1) True b' \<and> length junk = unat C \<and>
        M r b' (V(i \<mapsto> (D' @ junk, x'))) H"
    "serves L (Blob_close h) b (\<lambda>c b'. M r b' V (close_handle h H))"
    using assms(1) unfolding handle_laws_def by blast
  moreover have "D' = D" "x' = x" using calculation(1) assms(2) by simp_all
  ultimately show "h \<noteq> 0" and "0 < n" and "get_id L b h = i" and "length D < 2 ^ 63"
    and "unat (num_clusters L b h) * unat C = length D" and "get_xattr L b h file_xattr = x"
    and "M r (set_xattr L h file_xattr v b) (V(i \<mapsto> (D, Some v))) H"
    and "in_range u D off sz \<Longrightarrow>
      \<exists>b'. read_done L b h off sz 0 (take (unat sz) (drop (unat off) D)) b' \<and> M r b' V H"
    and "in_range u D off sz \<Longrightarrow> unat sz \<le> length buf \<Longrightarrow>
      \<exists>b'. write_done L b h off sz buf 0 b' \<and> M r b' (V(i \<mapsto> (overwrite (unat off) (take (unat sz) buf) D, x))) H"
    and "length D + unat C \<le> cap \<Longrightarrow>
      \<exists>b' junk. resize_done L b h (num_clusters L b h + 1) True b' \<and> length junk = unat C \<and>
        M r b' (V(i \<mapsto> (D @ junk, x))) H"
    and "serves L (Blob_close h) b (\<lambda>c b'. M r b' V (close_handle h H))"
    by blast+
qed

text \<open>One blob of a blobstore, seen through an open handle, keeps and grows its bytes.\<close>

definition one_blob ::
  "(nat \<Rightarrow> 'b \<Rightarrow> contents \<Rightarrow> handles \<Rightarrow> bool) \<Rightarrow> nat \<Rightarrow> contents \<Rightarrow> handles \<Rightarrow> blob_id \<Rightarrow> 'b \<Rightarrow> u8 list \<Rightarrow> bool" where
  "one_blob M r V H i b D \<longleftrightarrow> (\<exists>x. M r b (V(i \<mapsto> (D, x))) H)"

lemma one_blob_laws:
  assumes "blobstore L u C cap M" and "H h = Some (i, n)" and "one_blob M r V H i b D"
  obtains x where "handle_laws L u C cap M r b (V(i \<mapsto> (D, x))) H h i n"
    "io_unit_size L b = u" "cluster_size L b = C"
proof -
  obtain x where x: "M r b (V(i \<mapsto> (D, x))) H" using assms(3) by (auto simp: one_blob_def)
  show thesis
    by (rule that [OF blobstoreD(7) [OF assms(1) x assms(2)] blobstoreD(4,5) [OF assms(1) x]])
qed

lemma one_blobI: "M r b (V(i \<mapsto> (D, x))) H \<Longrightarrow> one_blob M r V H i b D"
  by (auto simp: one_blob_def)

lemma one_blob_keeps:
  assumes "blobstore L u C cap M" and "H h = Some (i, n)"
  shows "keeps_bytes L u h (one_blob M r V H i)"
proof -
  have nz: "u \<noteq> 0" using assms(1) by (simp add: blobstore_def)
  show ?thesis
    unfolding keeps_bytes_def
  proof (intro conjI allI impI)
    fix b D assume o: "one_blob M r V H i b D"
    obtain x where x: "handle_laws L u C cap M r b (V(i \<mapsto> (D, x))) H h i n"
        "io_unit_size L b = u" "cluster_size L b = C"
      by (rule one_blob_laws [OF assms o])
    have "(V(i \<mapsto> (D, x))) i = Some (D, x)" by simp
    note l = handle_lawsD [OF x(1) this]
    show "io_unit_size L b = u" "length D < 2 ^ 63" by (fact x(2) l(4))+
    show "unat (num_clusters L b h * cluster_size L b) = length D"
      using l(4,5) x(3) by (simp add: unat_word_ariths take_bit_nat_eq_self flip: take_bit_eq_mod)
    show "one_blob M r V H i (set_xattr L h file_xattr v b) D" for v
      using l(7) [of v] unfolding fun_upd_upd by (rule one_blobI)
    show "\<exists>b'. read_done L b h off sz 0 (take (unat sz) (drop (unat off) D)) b' \<and> one_blob M r V H i b' D"
      if "in_range u D off sz" for off sz
      using l(8) [OF that] one_blobI by fast
    show "\<exists>b'. write_done L b h off sz buf 0 b' \<and>
        one_blob M r V H i b' (overwrite (unat off) (take (unat sz) buf) D)"
      if "in_range u D off sz \<and> unat sz \<le> length buf" for off sz buf
      using l(9) [of off sz buf] that one_blobI unfolding fun_upd_upd by fast
  qed (rule nz)
qed

lemma one_blob_grows:
  assumes "blobstore L u C cap M" and "H h = Some (i, n)"
  shows "grows_bytes L C cap h (one_blob M r V H i)"
  unfolding grows_bytes_def
proof (intro conjI allI impI)
  fix b D assume o: "one_blob M r V H i b D"
  obtain x where x: "handle_laws L u C cap M r b (V(i \<mapsto> (D, x))) H h i n" "cluster_size L b = C"
    by (rule one_blob_laws [OF assms o])
  have "(V(i \<mapsto> (D, x))) i = Some (D, x)" by simp
  note l = handle_lawsD [OF x(1) this]
  show "cluster_size L b = C" by (rule x(2))
  show "unat (num_clusters L b h) * unat C = length D" by (rule l(5))
  show "\<exists>b' junk. resize_done L b h (num_clusters L b h + 1) True b' \<and> length junk = unat C \<and>
      one_blob M r V H i b' (D @ junk)" if "length D + unat C \<le> cap"
    using l(10) [OF that] one_blobI unfolding fun_upd_upd by fast
qed (use assms(1) in \<open>simp_all add: blobstore_def\<close>)

section \<open>What no request of a file changes\<close>

definition lasting :: "'b spdk \<Rightarrow> ('b \<Rightarrow> bool) \<Rightarrow> bool" where
  "lasting L P \<longleftrightarrow> (\<forall>b. P b \<longrightarrow> P (fst (poll_lib L b)) \<and> (\<forall>r. P (submit L r b)) \<and> (\<forall>h x. h \<noteq> 0 \<longrightarrow> P (set_xattr L h file_xattr x b)))"

lemma lastingD:
  assumes "lasting L P" and "P b"
  shows "P (fst (poll_lib L b))" and "P (submit L r b)" and "h \<noteq> 0 \<Longrightarrow> P (set_xattr L h file_xattr x b)"
  using assms unfolding lasting_def by blast+

lemma completes_last:
  assumes "lasting L P"
  shows "lib_completes L k b c b' \<Longrightarrow> P b \<Longrightarrow> P b'"
proof (induction k arbitrary: b)
  case 0
  then show ?case using lastingD(1) [OF assms, of b] by simp
next
  case (Suc k)
  have "P (fst (poll_lib L b))" by (rule lastingD(1) [OF assms Suc.prems(2)])
  then show ?case using Suc.IH [of "fst (poll_lib L b)"] Suc.prems(1) by simp
qed

lemma requests_last:
  assumes "lasting L P" and "P b"
  shows "lib_completes L k (submit L r b) c b' \<Longrightarrow> P b'" and "read_done L b h off sz e bs b' \<Longrightarrow> P b'"
    and "write_done L b h off sz buf e b' \<Longrightarrow> P b'" and "resize_done L b h n ok b' \<Longrightarrow> P b'"
proof -
  have run: "lib_completes L k (submit L r b) c b' \<Longrightarrow> P b \<Longrightarrow> P b'" for k r b c b'
    using completes_last [OF assms(1)] lastingD(2) [OF assms(1)] by metis
  then show "lib_completes L k (submit L r b) c b' \<Longrightarrow> P b'" using assms(2) by blast
  show "read_done L b h off sz e bs b' \<Longrightarrow> P b'" "write_done L b h off sz buf e b' \<Longrightarrow> P b'"
    using run assms(2) by (auto simp: read_done_def write_done_def Let_def)
  show "resize_done L b h n ok b' \<Longrightarrow> P b'"
    using run assms(2) unfolding resize_done_def by metis
qed

lemma serves_last:
  assumes "lasting L P" and "P b" and "serves L r b Q" and "\<And>c b'. Q c b' \<Longrightarrow> P b' \<Longrightarrow> R c b'"
  shows "serves L r b R"
  using assms(3,4) requests_last(1) [OF assms(1,2)] unfolding serves_def by metis

text \<open>Such a property can be added to what a blobstore holds.\<close>

lemma store_laws_last:
  assumes "lasting L P" and "P b" and "store_laws L M r b V H"
  shows "store_laws L (\<lambda>r b V H. M r b V H \<and> P b) r b V H"
  unfolding store_laws_def
proof (intro conjI allI impI; (elim conjE)?)
  note s = assms(3) [unfolded store_laws_def] and last = serves_last [OF assms(1,2)]
  show "serves L Bs_create_blob b (\<lambda>c b'. V (c_blobid c) = None \<and> M (r - 1) b' (V(c_blobid c \<mapsto> ([], None))) H \<and> P b')"
    if "0 < r" using s that by (blast intro: last)
  show "serves L (Bs_open_blob i) b (\<lambda>c b'. (\<forall>j n. H (c_blob c) = Some (j, n) \<longrightarrow> j = i) \<and>
      M r b' V (open_handle (c_blob c) i H) \<and> P b')" if "V i \<noteq> None" for i
    using s that by (blast intro: last)
  show "serves L (Bs_delete_blob i) b (\<lambda>c b'. M r b' (V(i := None)) H \<and> P b')"
    if "V i \<noteq> None" "\<forall>h n. H h \<noteq> Some (i, n)" for i
    using s that by (blast intro: last)
qed

lemma handle_laws_last:
  assumes "lasting L P" and "P b" and "handle_laws L u C cap M r b V H h i n"
  shows "handle_laws L u C cap (\<lambda>r b V H. M r b V H \<and> P b) r b V H h i n"
proof -
  obtain D x where V: "V i = Some (D, x)" using assms(3) by (auto simp: handle_laws_def)
  note l = handle_lawsD [OF assms(3) V] and last = requests_last [OF assms(1,2)]
  have "M r (set_xattr L h file_xattr v b) (V(i \<mapsto> (D, Some v))) H \<and> P (set_xattr L h file_xattr v b)" for v
    using l(7) lastingD(3) [OF assms(1,2) l(1)] by blast
  moreover have "\<exists>b'. read_done L b h off sz 0 (take (unat sz) (drop (unat off) D)) b' \<and> M r b' V H \<and> P b'"
    if "in_range u D off sz" for off sz
    using l(8) [OF that] last(2) by blast
  moreover have "\<exists>b'. write_done L b h off sz buf 0 b' \<and>
      M r b' (V(i \<mapsto> (overwrite (unat off) (take (unat sz) buf) D, x))) H \<and> P b'"
    if "in_range u D off sz" "unat sz \<le> length buf" for off sz buf
    using l(9) [OF that] last(3) by blast
  moreover have "\<exists>b' junk. resize_done L b h (num_clusters L b h + 1) True b' \<and> length junk = unat C \<and>
      M r b' (V(i \<mapsto> (D @ junk, x))) H \<and> P b'" if "length D + unat C \<le> cap"
    using l(10) [OF that] last(4) by blast
  moreover have "serves L (Blob_close h) b (\<lambda>c b'. M r b' V (close_handle h H) \<and> P b')"
    using l(11) by (rule serves_last [OF assms(1,2)]) blast
  ultimately show ?thesis using l(1-6) V unfolding handle_laws_def by blast
qed

lemma blobstore_last:
  assumes "blobstore L u C cap M" and "lasting L P"
  shows "blobstore L u C cap (\<lambda>r b V H. M r b V H \<and> P b)"
  unfolding blobstore_def
proof (intro conjI allI impI)
  show "u \<noteq> 0" "C \<noteq> 0" "cap < 2 ^ 63" "get_xattr L (set_xattr L h file_xattr v b) h file_xattr = Some v" for h v b
    using assms(1) unfolding blobstore_def by blast+
  fix r b V H assume M: "M r b V H \<and> P b"
  note bs = blobstoreD [OF assms(1) conjunct1 [OF M]]
  show "io_unit_size L b = u" "cluster_size L b = C" by (rule bs(4) bs(5))+
  show "store_laws L (\<lambda>r b V H. M r b V H \<and> P b) r b V H"
    using store_laws_last [OF assms(2) conjunct2 [OF M] bs(6)] .
  show "handle_laws L u C cap (\<lambda>r b V H. M r b V H \<and> P b) r b V H h i n" if "H h = Some (i, n)" for h i n
    using handle_laws_last [OF assms(2) conjunct2 [OF M] bs(7) [OF that]] .
qed

section \<open>The store in memory is a blobstore\<close>

text \<open>Handles are ids here, and ids count up.\<close>

definition mem_fs :: "nat \<Rightarrow> nat \<Rightarrow> mem_bs \<Rightarrow> contents \<Rightarrow> handles \<Rightarrow> bool" where
  "mem_fs cl r b V H \<longleftrightarrow> bs_next b \<noteq> 0 \<and> unat (bs_next b) + r < 2 ^ 64 \<and>
     (\<forall>i. bs_data b i = map_option fst (V i)) \<and>
     (\<forall>i D x. V i = Some (D, x) \<longrightarrow> length D < 2 ^ 63 \<and> cl dvd length D \<and> bs_xattr b i file_xattr = x \<and> i \<noteq> 0 \<and>
        unat i < unat (bs_next b)) \<and>
     (\<forall>i. unat (bs_next b) \<le> unat i \<longrightarrow> bs_xattr b i file_xattr = None) \<and>
     (\<forall>h i n. H h = Some (i, n) \<longrightarrow> h = i \<and> 0 < n \<and> V i \<noteq> None)"

lemma mem_fsD:
  assumes "mem_fs cl r b V H"
  shows "bs_next b \<noteq> 0" and "unat (bs_next b) + r < 2 ^ 64" and "bs_data b i = map_option fst (V i)"
    and "V i = Some (D, x) \<Longrightarrow> length D < 2 ^ 63 \<and> cl dvd length D \<and> bs_xattr b i file_xattr = x \<and> i \<noteq> 0 \<and> unat i < unat (bs_next b)"
    and "unat (bs_next b) \<le> unat i \<Longrightarrow> bs_xattr b i file_xattr = None"
    and "H h = Some (i, n) \<Longrightarrow> h = i \<and> 0 < n \<and> V i \<noteq> None"
  using assms unfolding mem_fs_def by blast+

lemma mem_fs_pending [simp]: "mem_fs cl r (b\<lparr>bs_pending := c\<rparr>) V H = mem_fs cl r b V H"
  by (simp add: mem_fs_def)

text \<open>New contents or a new attribute for a blob.\<close>

lemma mem_fs_update:
  assumes "mem_fs cl r b V H" and "V i = Some (D, x)" and "length D' < 2 ^ 63" and "cl dvd length D'"
  shows "mem_fs cl r (b\<lparr>bs_data := (bs_data b)(i \<mapsto> D')\<rparr>) (V(i \<mapsto> (D', x))) H"
    and "mem_fs cl r (b\<lparr>bs_xattr := (bs_xattr b)(i := (bs_xattr b i)(file_xattr \<mapsto> v))\<rparr>) (V(i \<mapsto> (D, Some v))) H"
proof -
  note m = mem_fsD [OF assms(1)] and i = mem_fsD(4) [OF assms(1,2)]
  have low: "\<not> unat (bs_next b) \<le> unat i" using i by simp
  show "mem_fs cl r (b\<lparr>bs_data := (bs_data b)(i \<mapsto> D')\<rparr>) (V(i \<mapsto> (D', x))) H"
    using m assms(3,4) i by (auto simp: mem_fs_def)
  show "mem_fs cl r (b\<lparr>bs_xattr := (bs_xattr b)(i := (bs_xattr b i)(file_xattr \<mapsto> v))\<rparr>) (V(i \<mapsto> (D, Some v))) H"
    using m assms(2) low by (auto simp: mem_fs_def)
qed

lemma mem_fs_handles:
  assumes "mem_fs cl r b V H" and "V i \<noteq> None"
  shows "mem_fs cl r b V (open_handle i i H)" and "mem_fs cl r b V (close_handle h H)"
proof -
  note m = mem_fsD [OF assms(1)]
  show "mem_fs cl r b V (open_handle i i H)"
    using m assms(2) by (auto simp: mem_fs_def open_handle_def split: option.splits)
  show "mem_fs cl r b V (close_handle h H)"
    using m by (auto simp: mem_fs_def close_handle_def split: option.splits if_splits)
qed

lemma mem_fs_new:
  assumes "mem_fs cl r b V H" and "0 < r"
  shows "V (bs_next b) = None"
    and "mem_fs cl (r - 1) (b\<lparr>bs_data := (bs_data b)(bs_next b \<mapsto> []), bs_next := bs_next b + 1\<rparr>) (V(bs_next b \<mapsto> ([], None))) H"
proof -
  note m = mem_fsD [OF assms(1)]
  show none: "V (bs_next b) = None"
  proof (rule ccontr)
    assume "V (bs_next b) \<noteq> None"
    then obtain D x where "V (bs_next b) = Some (D, x)" by auto
    from m(4) [OF this] show False by simp
  qed
  have s: "unat (bs_next b + 1) = unat (bs_next b) + 1"
    using unat_small_sum [of "bs_next b" 1] m(2) assms(2) by simp
  show "mem_fs cl (r - 1) (b\<lparr>bs_data := (bs_data b)(bs_next b \<mapsto> []), bs_next := bs_next b + 1\<rparr>)
      (V(bs_next b \<mapsto> ([], None))) H"
    unfolding mem_fs_def
  proof (intro conjI allI impI)
    fix i D x assume v: "(V(bs_next b \<mapsto> ([], None))) i = Some (D, x)"
    show "length D < 2 ^ 63" "cl dvd length D" "i \<noteq> 0"
      "bs_xattr (b\<lparr>bs_data := (bs_data b)(bs_next b \<mapsto> []), bs_next := bs_next b + 1\<rparr>) i file_xattr = x"
      "unat i < unat (bs_next (b\<lparr>bs_data := (bs_data b)(bs_next b \<mapsto> []), bs_next := bs_next b + 1\<rparr>))"
      using v m(4) [of i D x] m(5) [of i] s m(1) by (auto split: if_splits)
  qed (use m s assms(2) in \<open>auto simp: less_imp_le\<close>)
qed

lemma mem_fs_delete:
  assumes "mem_fs cl r b V H" and "\<forall>h n. H h \<noteq> Some (i, n)"
  shows "mem_fs cl r (b\<lparr>bs_data := (bs_data b)(i := None)\<rparr>) (V(i := None)) H"
  using mem_fsD [OF assms(1)] assms(2) by (auto simp: mem_fs_def)

lemma serves_now:
  assumes "poll_lib L (submit L r b) = (b', Some c)" and "bserrno c = 0" and "P c b'"
  shows "serves L r b P"
  unfolding serves_def using assms by (intro exI [of _ 0] exI [of _ c] exI [of _ b']) (simp add: POLLER_MAX_TIME_def)

lemma mem_store_laws:
  assumes "mem_fs cl r b V H"
  shows "store_laws (mem_lib n cl) (mem_fs cl) r b V H"
  unfolding store_laws_def
proof (intro conjI allI impI)
  let ?ans = "\<lambda>i. \<lparr>bserrno = 0, c_blobid = i, c_blob = i, c_data = []\<rparr>"
  show "serves (mem_lib n cl) Bs_create_blob b
      (\<lambda>c b'. V (c_blobid c) = None \<and> mem_fs cl (r - 1) b' (V(c_blobid c \<mapsto> ([], None))) H)" if "0 < r"
    using mem_fs_new [OF assms that]
    by (intro serves_now [where c = "?ans (bs_next b)" and b' = "b\<lparr>bs_data := (bs_data b)(bs_next b \<mapsto> []),
        bs_next := bs_next b + 1, bs_pending := None\<rparr>"]) (simp_all add: answer_def)
  show "serves (mem_lib n cl) (Bs_open_blob i) b
      (\<lambda>c b'. (\<forall>j n. H (c_blob c) = Some (j, n) \<longrightarrow> j = i) \<and> mem_fs cl r b' V (open_handle (c_blob c) i H))"
    if "V i \<noteq> None" for i
    using that mem_fs_handles(1) [OF assms that] mem_fsD(3) [OF assms, of i] mem_fsD(6) [OF assms, of i]
    by (intro serves_now [where c = "?ans i"
        and b' = "b\<lparr>bs_pending := None\<rparr>"]) (auto simp: answer_def)
  show "serves (mem_lib n cl) (Bs_delete_blob i) b (\<lambda>c b'. mem_fs cl r b' (V(i := None)) H)"
    if "V i \<noteq> None \<and> (\<forall>h n. H h \<noteq> Some (i, n))" for i
    using that mem_fs_delete [OF assms, of i] mem_fsD(3) [OF assms, of i]
    by (intro serves_now [where c = "?ans i" and b' = "b\<lparr>bs_data := (bs_data b)(i := None), bs_pending := None\<rparr>"])
      (auto simp: answer_def)
qed

lemma mem_handle_laws:
  assumes "mem_fs cl r b V H" and "H h = Some (i, k)" and "0 < n" and "n < 2 ^ 31" and "0 < cl" and "cl < 2 ^ 31"
    and "cap < 2 ^ 63"
  shows "handle_laws (mem_lib n cl) (of_nat n) (of_nat cl) cap (mem_fs cl) r b V H h i k"
proof -
  note m = mem_fsD [OF assms(1)]
  have h: "h = i" "0 < k" "V i \<noteq> None" using m(6) [OF assms(2)] by blast+
  then obtain D x where V: "V i = Some (D, x)" by auto
  have d: "length D < 2 ^ 63" "cl dvd length D" "bs_xattr b i file_xattr = x" "i \<noteq> 0" using m(4) [OF V] by blast+
  have data: "bs_data b i = Some D" using m(3) [of i] V by simp
  have "cl < 2 ^ 64" by (rule order_less_trans [OF assms(6)]) simp
  note c = of_nat_u64 [OF this]
  note store = mem_fs_update [OF assms(1) V]
  show ?thesis
    unfolding handle_laws_def h(1)
  proof (intro conjI exI [of _ D] exI [of _ x] allI impI)
    show "unat (num_clusters (mem_lib n cl) b i) * unat (of_nat cl :: u64) = length D"
      using d(2) unfolding mem_clusters [OF data d(1)] c by simp
    show "mem_fs cl r (set_xattr (mem_lib n cl) i file_xattr v b) (V(i \<mapsto> (D, Some v))) H" for v
      using store(2) [OF d(1,2)] by simp
    show "\<exists>b'. read_done (mem_lib n cl) b i off sz 0 (take (unat sz) (drop (unat off) D)) b' \<and> mem_fs cl r b' V H"
      if "in_range (of_nat n) D off sz" for off sz
      using mem_read_done [OF assms(3,4) data that] assms(1)
      by (intro exI [of _ "b\<lparr>bs_pending := None\<rparr>"]) simp
    show "\<exists>b'. write_done (mem_lib n cl) b i off sz buf 0 b' \<and>
        mem_fs cl r b' (V(i \<mapsto> (overwrite (unat off) (take (unat sz) buf) D, x))) H"
      if "in_range (of_nat n) D off sz \<and> unat sz \<le> length buf" for off sz buf
    proof -
      let ?D = "overwrite (unat off) (take (unat sz) buf) D"
      have "length ?D = length D" using that by (auto simp: overwrite_def in_range_def)
      then show ?thesis
        using mem_write_done [OF assms(3,4) data, of off sz buf cl] that store(1) [of ?D] d
        by (intro exI [of _ "b\<lparr>bs_data := (bs_data b)(i \<mapsto> ?D), bs_pending := None\<rparr>"]) simp
    qed
    show "\<exists>b' junk. resize_done (mem_lib n cl) b i (num_clusters (mem_lib n cl) b i + 1) True b' \<and>
        length junk = unat (of_nat cl :: u64) \<and> mem_fs cl r b' (V(i \<mapsto> (D @ junk, x))) H"
      if "length D + unat (of_nat cl :: u64) \<le> cap"
    proof -
      have "length (D @ replicate cl 0) < 2 ^ 63" "cl dvd length (D @ replicate cl 0)"
        using that c assms(7) d(2) by simp_all
      from store(1) [OF this] show ?thesis
        using mem_grow_done [OF data d(1,2), of n] c
        by (intro exI [of _ "b\<lparr>bs_data := (bs_data b)(i \<mapsto> D @ replicate cl 0), bs_pending := None\<rparr>"]
            exI [of _ "replicate cl 0"]) simp
    qed
    show "serves (mem_lib n cl) (Blob_close i) b (\<lambda>c b'. mem_fs cl r b' V (close_handle i H))"
      using mem_fs_handles(2) [OF assms(1) h(3)]
      by (intro serves_now [where c = "\<lparr>bserrno = 0, c_blobid = i, c_blob = i, c_data = []\<rparr>"
          and b' = "b\<lparr>bs_pending := None\<rparr>"]) (simp_all add: answer_def)
  qed (use V d h in simp_all)
qed

lemma mem_blobstore:
  assumes "0 < n" and "n < 2 ^ 31" and "0 < cl" and "cl < 2 ^ 31" and "cap < 2 ^ 63"
  shows "blobstore (mem_lib n cl) (of_nat n) (of_nat cl) cap (mem_fs cl)"
proof -
  have "n < 2 ^ 64" "cl < 2 ^ 64"
    by (rule order_less_trans [OF assms(2)], simp) (rule order_less_trans [OF assms(4)], simp)
  then show ?thesis
    using assms mem_store_laws mem_handle_laws of_nat_u64_pos
    unfolding blobstore_def by (intro conjI allI impI) simp_all
qed

end
