(* ===== verification/Fs_Refine.thy ===== *)
theory Fs_Refine
  imports Session Namespace Blobstore
begin

text \<open>
  The whole file system as an abstract machine: a list of names, the bytes and the stored size of
  every file, and the open descriptors. Creating, opening, closing, removing, reading, writing and
  seeking on the program's globals refine it, over every library that behaves as a blobstore:
  blobs with contents, an attribute, and handles that are counted per open.
\<close>

section \<open>The abstract file system\<close>

record aopen =
  o_id :: blob_id
  o_size :: nat
  o_pos :: nat

text \<open>The names in order, whether entries can be added, for how many more blobs there is room, the bytes
  and the stored size of each file, and the open descriptors; each of these has a size of its own,
  which is stored when bytes are moved through it and when it is closed.\<close>

record afs =
  s_names :: "(u8 list \<times> blob_id) list"
  s_clean :: bool
  s_spare :: nat
  s_files :: "blob_id \<Rightarrow> (u8 list \<times> nat) option"
  s_open :: "nat \<Rightarrow> aopen option"

datatype fs_call = Make "u8 list" | Open_file "u8 list" | Close_file nat | Remove "u8 list" | Io nat io_call

datatype fs_result = Fd int | Moved "u64 \<times> u8 list" | Done

definition view :: "afs \<Rightarrow> aopen \<Rightarrow> afile" where
  "view a o' = \<lparr>a_data = fst (the (s_files a (o_id o'))), a_size = o_size o', a_pos = o_pos o'\<rparr>"

definition after_io :: "bool \<Rightarrow> nat \<Rightarrow> aopen \<Rightarrow> afile \<Rightarrow> afs \<Rightarrow> afs" where
  "after_io moved fd o' w a =
     a\<lparr>s_files := (if moved then (s_files a)(o_id o' \<mapsto> (a_data w, a_size w)) else s_files a),
       s_open := (s_open a)(fd \<mapsto> \<lparr>o_id = o_id o', o_size = a_size w, o_pos = a_pos w\<rparr>)\<rparr>"

definition drop_name :: "u8 list \<Rightarrow> (u8 list \<times> blob_id) list \<Rightarrow> (u8 list \<times> blob_id) list" where
  "drop_name nm ns = filter (\<lambda>x. fst x \<noteq> nm) ns"

fun fs_allowed :: "volume \<Rightarrow> fs_call \<Rightarrow> afs \<Rightarrow> bool" where
  "fs_allowed v (Make nm) a = (name_ok nm \<and> (nm \<in> fst ` set (s_names a) \<or>
     s_clean a \<and> 0 < s_spare a \<and> length (s_names a) < dir_limit \<and> card (dom (s_open a)) < 255))"
| "fs_allowed v (Open_file nm) a = (name_ok nm \<and> card (dom (s_open a)) < 255)"
| "fs_allowed v (Close_file fd) a = (fd \<in> dom (s_open a))"
| "fs_allowed v (Remove nm) a = (name_ok nm \<and>
     (\<forall>i. map_of (s_names a) nm = Some i \<longrightarrow> i \<notin> o_id ` ran (s_open a)))"
| "fs_allowed v (Io fd c) a = (\<exists>o'. s_open a fd = Some o' \<and> afile_call v c (view a o') \<noteq> None)"

fun fs_spec :: "volume \<Rightarrow> fs_call \<Rightarrow> afs \<Rightarrow> fs_result \<Rightarrow> afs \<Rightarrow> bool" where
  "fs_spec v (Make nm) a r a' =
     (if nm \<in> fst ` set (s_names a) then r = Fd (- 1) \<and> a' = a
      else \<exists>fd i. fd < 256 \<and> s_open a fd = None \<and> s_files a i = None \<and> r = Fd (int fd) \<and>
        a' = a\<lparr>s_names := s_names a @ [(nm, i)], s_spare := s_spare a - 1, s_files := (s_files a)(i \<mapsto> ([], 0)),
               s_open := (s_open a)(fd \<mapsto> \<lparr>o_id = i, o_size = 0, o_pos = 0\<rparr>)\<rparr>)"
| "fs_spec v (Open_file nm) a r a' =
     (case map_of (s_names a) nm of
        None \<Rightarrow> r = Fd (- 1) \<and> a' = a
      | Some i \<Rightarrow> \<exists>fd. fd < 256 \<and> s_open a fd = None \<and> r = Fd (int fd) \<and>
          a' = a\<lparr>s_open := (s_open a)(fd \<mapsto> \<lparr>o_id = i, o_size = snd (the (s_files a i)), o_pos = 0\<rparr>)\<rparr>)"
| "fs_spec v (Close_file fd) a r a' =
     (\<exists>o'. s_open a fd = Some o' \<and> r = Done \<and>
        a' = a\<lparr>s_files := (s_files a)(o_id o' \<mapsto> (fst (the (s_files a (o_id o'))), o_size o')),
               s_open := (s_open a)(fd := None)\<rparr>)"
| "fs_spec v (Remove nm) a r a' =
     (case map_of (s_names a) nm of
        None \<Rightarrow> r = Fd (- 1) \<and> a' = a
      | Some i \<Rightarrow> r = Done \<and>
          a' = a\<lparr>s_names := drop_name nm (s_names a), s_clean := False, s_files := (s_files a)(i := None)\<rparr>)"
| "fs_spec v (Io fd c) a r a' =
     (\<exists>o' x w. s_open a fd = Some o' \<and> afile_call v c (view a o') = Some (x, w) \<and> r = Moved x \<and>
        a' = after_io (moved_bytes c x) fd o' w a)"

section \<open>The calls of the program\<close>

text \<open>A removal that finds the name has no meaningful result.\<close>

definition fs_impl :: "'b spdk \<Rightarrow> env \<Rightarrow> fs_call \<Rightarrow> 'b globals \<Rightarrow> (fs_result \<times> 'b globals) res" where
  "fs_impl L e c g =
     (case c of
        Make nm \<Rightarrow> bind_res (monopoly_create L e nm g) (\<lambda>(fd, g'). Inr (Fd fd, g'))
      | Open_file nm \<Rightarrow> bind_res (monopoly_open L e nm g) (\<lambda>(fd, g'). Inr (Fd fd, g'))
      | Close_file fd \<Rightarrow> bind_res (monopoly_close L e (int fd) g) (\<lambda>(r, g'). Inr (Done, g'))
      | Remove nm \<Rightarrow> bind_res (monopoly_unlink L e nm g) (\<lambda>(r, g').
          Inr (if find_dir e nm (g_root g) = - 1 then Fd r else Done, g'))
      | Io fd c \<Rightarrow> bind_res (file_call L (int fd) c g) (\<lambda>(x, g'). Inr (Moved x, g')))"

section \<open>The relation\<close>

definition names_rel :: "volume \<Rightarrow> afs \<Rightarrow> spdkfs_dir \<Rightarrow> bool" where
  "names_rel v a dir \<longleftrightarrow> d_initialized dir \<and> dir_holds (v_unit v) dir (s_names a) \<and>
     (s_clean a \<longrightarrow> dir_fresh (v_unit v) dir (length (s_names a))) \<and>
     distinct (map fst (s_names a)) \<and> distinct (map snd (s_names a)) \<and> snd ` set (s_names a) \<subseteq> dom (s_files a) \<and>
     unat (v_unit v) dvd unat (d_size (dir_persist dir))"

definition files_rel :: "contents \<Rightarrow> (blob_id \<Rightarrow> (u8 list \<times> nat) option) \<Rightarrow> bool" where
  "files_rel V F \<longleftrightarrow> (\<forall>i bs sz. F i = Some (bs, sz) \<longrightarrow>
     (\<exists>rest p. V i = Some (bs @ rest, Some (File_ctx p)) \<and> unat (f_size p) = sz \<and> sz \<le> length bs))"

text \<open>\<open>hnd\<close> gives the handle of each open descriptor; the handles of files are open once for each
  descriptor that uses them.\<close>

definition open_rel :: "volume \<Rightarrow> handles \<Rightarrow> (nat \<Rightarrow> blob) \<Rightarrow> afs \<Rightarrow> 'b globals \<Rightarrow> nat \<Rightarrow> aopen \<Rightarrow> bool" where
  "open_rel v H hnd a g fd o' \<longleftrightarrow> (\<exists>f n. file_of_fd g (int fd) = Inr f \<and> f_blob f = hnd fd \<and>
     H (hnd fd) = Some (o_id o', n) \<and> unat (f_pos f) = o_pos o' \<and> unat (f_size (file_persist f)) = o_size o' \<and>
     o_id o' \<in> dom (s_files a) \<and> afile_ok v (view a o'))"

definition handles_rel :: "handles \<Rightarrow> (nat \<Rightarrow> blob) \<Rightarrow> afs \<Rightarrow> bool" where
  "handles_rel H hnd a \<longleftrightarrow> (\<forall>h i n. H h = Some (i, n) \<longrightarrow> i \<in> dom (s_files a) \<longrightarrow>
     n = card {fd \<in> dom (s_open a). hnd fd = h})"

text \<open>The blob of the root directory is open once and belongs to no file.\<close>

definition root_rel :: "volume \<Rightarrow> contents \<Rightarrow> handles \<Rightarrow> afs \<Rightarrow> spdkfs_dir \<Rightarrow> bool" where
  "root_rel v V H a dir \<longleftrightarrow> v_super v \<notin> dom (s_files a) \<and> V (v_super v) \<noteq> None \<and> H (d_blob dir) = Some (v_super v, 1)"

text \<open>What no call changes, what the calls find when they start, and the state of the store.\<close>

definition fs_world :: "'b spdk \<Rightarrow> volume \<Rightarrow> env \<Rightarrow> (nat \<Rightarrow> 'b \<Rightarrow> contents \<Rightarrow> handles \<Rightarrow> bool) \<Rightarrow> bool" where
  "fs_world L v e M \<longleftrightarrow> blobstore L (v_unit v) (v_cluster v) (v_cap v) M \<and> geometry v \<and>
     \<not> stack_done e \<and> junk_mem e = (\<lambda>_. 0) \<and>
     (\<forall>nm dir k. spdkfs_dir_lookup dir nm = Inr k \<longrightarrow> find_dir e nm dir = k)"

definition calm_globals :: "volume \<Rightarrow> 'b globals \<Rightarrow> bool" where
  "calm_globals v g \<longleftrightarrow> idle (g_thread g) \<and> g_workdir_set g \<and> fd_ok (g_fdtable g) \<and>
     (\<forall>p. p \<noteq> 0 \<longrightarrow> spdkfs_mm_find (g_mm g) p = Inr (v_dma v p)) \<and> length (g_buffer g) = v_buffer v"

definition store_rel ::
  "volume \<Rightarrow> (nat \<Rightarrow> 'b \<Rightarrow> contents \<Rightarrow> handles \<Rightarrow> bool) \<Rightarrow> contents \<Rightarrow> handles \<Rightarrow> (nat \<Rightarrow> blob) \<Rightarrow> afs \<Rightarrow> 'b globals \<Rightarrow> bool"
where
  "store_rel v M V H hnd a g \<longleftrightarrow> M (s_spare a) (lib (g_thread g)) V H \<and> files_rel V (s_files a) \<and> handles_rel H hnd a \<and>
     (\<forall>fd o'. s_open a fd = Some o' \<longrightarrow> open_rel v H hnd a g fd o') \<and> root_rel v V H a (g_root g)"

definition fs_rel ::
  "'b spdk \<Rightarrow> volume \<Rightarrow> env \<Rightarrow> (nat \<Rightarrow> 'b \<Rightarrow> contents \<Rightarrow> handles \<Rightarrow> bool) \<Rightarrow> afs \<Rightarrow> 'b globals \<Rightarrow> bool"
where
  "fs_rel L v e M a g \<longleftrightarrow> fs_world L v e M \<and> calm_globals v g \<and> names_rel v a (g_root g) \<and>
     live_fds (g_fdtable g) = dom (s_open a) \<and> (\<exists>V H hnd. store_rel v M V H hnd a g)"

lemma fs_worldD:
  assumes "fs_world L v e M"
  shows "blobstore L (v_unit v) (v_cluster v) (v_cap v) M" and "geometry v" and "\<not> stack_done e"
    and "junk_mem e = (\<lambda>_. 0)" and "spdkfs_dir_lookup dir nm = Inr k \<Longrightarrow> find_dir e nm dir = k"
  using assms unfolding fs_world_def by blast+

lemma calm_globalsD:
  assumes "calm_globals v g"
  shows "idle (g_thread g)" and "g_workdir_set g" and "fd_ok (g_fdtable g)"
    and "p \<noteq> 0 \<Longrightarrow> spdkfs_mm_find (g_mm g) p = Inr (v_dma v p)" and "length (g_buffer g) = v_buffer v"
  using assms unfolding calm_globals_def by blast+

lemma store_relD:
  assumes "store_rel v M V H hnd a g"
  shows "M (s_spare a) (lib (g_thread g)) V H" and "files_rel V (s_files a)" and "handles_rel H hnd a"
    and "s_open a fd = Some o' \<Longrightarrow> open_rel v H hnd a g fd o'" and "root_rel v V H a (g_root g)"
  using assms unfolding store_rel_def by blast+

lemma fs_relE:
  assumes "fs_rel L v e M a g"
  obtains V H hnd where "fs_world L v e M" and "calm_globals v g" and "names_rel v a (g_root g)"
    and "live_fds (g_fdtable g) = dom (s_open a)" and "store_rel v M V H hnd a g"
  using assms unfolding fs_rel_def by blast

lemma fs_relI:
  "fs_world L v e M \<Longrightarrow> calm_globals v g \<Longrightarrow> names_rel v a (g_root g) \<Longrightarrow> live_fds (g_fdtable g) = dom (s_open a) \<Longrightarrow>
   store_rel v M V H hnd a g \<Longrightarrow> fs_rel L v e M a g"
  unfolding fs_rel_def by blast

section \<open>Reading, writing and seeking\<close>

lemma afile_call_facts:
  assumes "afile_call v c a = Some (x, w)"
  shows "length (a_data a) \<le> length (a_data w)" and "\<not> moved_bytes c x \<Longrightarrow> a_data w = a_data a \<and> a_size w = a_size a"
proof -
  have "length (a_data a) \<le> length (a_data w) \<and> (\<not> moved_bytes c x \<longrightarrow> a_data w = a_data a \<and> a_size w = a_size a)"
  proof (cases c)
    case (Write_call buf user n)
    let ?m = "aligned_size v n" and ?k = "piece v buf (aligned_size v n)"
    show ?thesis
    proof (cases "?m = 0")
      case True
      then show ?thesis using assms Write_call by simp
    next
      case False
      have w: "?m \<le> length user" "a_pos a + ?m < 2 ^ 63" "write_allowed v a ?k ?m" "x = (of_nat ?m, user)"
          "a_data w = take (a_pos a) (a_data a) @ take ?m user @ drop (a_pos a + ?m) (a_data a)"
        using assms Write_call False by (auto simp: Let_def split: if_splits)
      have "unat (of_nat ?m :: u64) = ?m" using w(2) by (simp add: unsigned_of_nat take_bit_nat_eq_self)
      then have "(of_nat ?m :: u64) \<noteq> 0" using False unat_0_iff [of "of_nat ?m :: u64"] by simp
      moreover have "a_pos a \<le> length (a_data a)" using w(3) by (auto simp: write_allowed_def)
      ultimately show ?thesis using w(1,4,5) Write_call by (simp add: moved_bytes_def)
    qed
  qed (use assms in \<open>auto simp: Let_def split: if_splits\<close>)
  then show "length (a_data a) \<le> length (a_data w)" and "\<not> moved_bytes c x \<Longrightarrow> a_data w = a_data a \<and> a_size w = a_size a"
    by blast+
qed

text \<open>One open descriptor of the file system is an open file in the sense of the session.\<close>

lemma open_session:
  assumes "fs_world L v e M" and "calm_globals v g" and "store_rel v M V H hnd a g" and "s_open a fd = Some o'"
  shows "session_rel L v (hnd fd) (one_blob M (s_spare a) V H (o_id o')) (int fd) (view a o') g"
proof -
  note w = fs_worldD [OF assms(1)] and c = calm_globalsD [OF assms(2)] and st = store_relD [OF assms(3)]
  obtain f n where f: "file_of_fd g (int fd) = Inr f" "f_blob f = hnd fd" "H (hnd fd) = Some (o_id o', n)"
      "unat (f_pos f) = o_pos o'" "unat (f_size (file_persist f)) = o_size o'" "o_id o' \<in> dom (s_files a)"
      "afile_ok v (view a o')"
    using st(4) [OF assms(4)] unfolding open_rel_def by blast
  obtain bs sz where F: "s_files a (o_id o') = Some (bs, sz)" using f(6) by auto
  obtain rest p where V: "V (o_id o') = Some (bs @ rest, Some (File_ctx p))"
    using st(2) F unfolding files_rel_def by blast
  have "V(o_id o' \<mapsto> (bs @ rest, Some (File_ctx p))) = V" using V by auto
  then have "one_blob M (s_spare a) V H (o_id o') (lib (g_thread g)) (bs @ rest)"
    using st(1) one_blobI by metis
  then have "calm (one_blob M (s_spare a) V H (o_id o')) (bs @ rest) (g_thread g)" using c(1) by (simp add: calm_iff)
  moreover have "stands_for f (bs @ rest) (hnd fd) (view a o')"
    using f F by (simp add: stands_for_def view_def)
  moreover have "volume_ok L v (hnd fd) (one_blob M (s_spare a) V H (o_id o'))"
    unfolding volume_ok_def using one_blob_keeps [where H = H, OF w(1) f(3)] one_blob_grows [where H = H, OF w(1) f(3)] w(2) by blast
  ultimately show ?thesis
    using c(4,5) f(1,7) unfolding session_rel_def by blast
qed

lemma session_file:
  assumes "session_rel L v blb holds fd a g" and "file_of_fd g fd = Inr f"
  obtains D where "calm holds D (g_thread g)" and "stands_for f D blb a"
proof -
  obtain f' D where "file_of_fd g fd = Inr f'" "calm holds D (g_thread g)" "stands_for f' D blb a"
    using assms(1) unfolding session_rel_def by blast
  then show thesis using assms(2) that by simp
qed

lemma view_other:
  assumes "afile_ok v (view a p)" and "o_id p \<in> dom (s_files a)" and "afile_call v c (view a o') = Some (x, w)"
  shows "afile_ok v (view (after_io (moved_bytes c x) fd o' w a) p) \<and> o_id p \<in> dom (s_files (after_io (moved_bytes c x) fd o' w a))"
  using assms(1,2) afile_call_facts(1) [OF assms(3)]
  by (cases "o_id p = o_id o'") (auto simp: view_def after_io_def afile_ok_def)

text \<open>The store after a call that moved bytes: the data of that blob and its attribute are new.\<close>

lemma moved_store:
  assumes "fs_world L v e M" and "H h = Some (i, n)" and "calm (one_blob M r V H i) D (g_thread g')"
    and "stored L f' (g_thread g')" and "f_blob f' = h"
  shows "M r (lib (g_thread g')) (V(i \<mapsto> (D, Some (File_ctx (file_persist f'))))) H"
proof -
  note bs = fs_worldD(1) [OF assms(1)]
  let ?b = "lib (g_thread g')"
  obtain x where x: "M r ?b (V(i \<mapsto> (D, x))) H" using assms(3) by (auto simp: calm_iff one_blob_def)
  have "(V(i \<mapsto> (D, x))) i = Some (D, x)" by simp
  from handle_lawsD(6) [OF blobstoreD(7) [OF bs x assms(2)] this] have "get_xattr L ?b h file_xattr = x" .
  moreover have "get_xattr L ?b h file_xattr = Some (File_ctx (file_persist f'))"
    using assms(4,5) bs by (auto simp: stored_def blobstore_def)
  ultimately show ?thesis using x by simp
qed

lemma io_fs_step:
  assumes "fs_rel L v e M a g" and "s_open a fd = Some o'" and "afile_call v c (view a o') = Some (x, w)"
  shows "\<exists>g'. fs_impl L e (Io fd c) g = Inr (Moved x, g') \<and> fs_rel L v e M (after_io (moved_bytes c x) fd o' w a) g'"
proof -
  let ?i = "o_id o'" and ?a = "after_io (moved_bytes c x) fd o' w a"
  obtain V H hnd where rel: "fs_world L v e M" "calm_globals v g" "names_rel v a (g_root g)"
      "live_fds (g_fdtable g) = dom (s_open a)" "store_rel v M V H hnd a g"
    by (rule fs_relE [OF assms(1)])
  note st = store_relD [OF rel(5)] and cg = calm_globalsD [OF rel(2)]
  obtain n where op: "H (hnd fd) = Some (?i, n)" "?i \<in> dom (s_files a)" using st(4) [OF assms(2)] by (auto simp: open_rel_def)
  obtain g' f' where g': "file_call L (int fd) c g = Inr (x, g')"
      "session_rel L v (hnd fd) (one_blob M (s_spare a) V H ?i) (int fd) w g'" "io_done L (int fd) (moved_bytes c x) f' g g'"
    using call_step [OF open_session [OF rel(1,2,5) assms(2)] assms(3)] by blast
  have fr: "file_of_fd g' (int fd) = Inr f'" "io_frame (int fd) f' g g'" using g'(3) by (simp_all add: io_done_def)
  obtain D' where D': "calm (one_blob M (s_spare a) V H ?i) D' (g_thread g')" "stands_for f' D' (hnd fd) w"
    by (rule session_file [OF g'(2) fr(1)])
  have fb: "f_blob f' = hnd fd" "unat (f_pos f') = a_pos w" "unat (f_size (file_persist f')) = a_size w"
    using D'(2) by (simp_all add: stands_for_def)
  have wok: "afile_ok v w" using g'(2) by (simp add: session_rel_def)
  have "\<exists>V'. M (s_spare a) (lib (g_thread g')) V' H \<and> files_rel V' (s_files ?a) \<and> (\<forall>j. V j \<noteq> None \<longrightarrow> V' j \<noteq> None)"
  proof (cases "moved_bytes c x")
    case True
    then have "stored L f' (g_thread g')" using g'(3) by (simp add: io_done_def)
    from moved_store [where H = H, OF rel(1) op(1) D'(1) this fb(1)] have
      "M (s_spare a) (lib (g_thread g')) (V(?i \<mapsto> (D', Some (File_ctx (file_persist f'))))) H" .
    moreover have "files_rel (V(?i \<mapsto> (D', Some (File_ctx (file_persist f'))))) (s_files ?a)"
      using st(2) True D'(2) wok unfolding files_rel_def by (auto simp: after_io_def stands_for_def afile_ok_def)
    ultimately show ?thesis by (intro exI [of _ "V(?i \<mapsto> (D', Some (File_ctx (file_persist f'))))"]) simp
  next
    case False
    then have "g_thread g' = g_thread g" using g'(3) by (simp add: io_done_def)
    moreover have "s_files ?a = s_files a" using False by (simp add: after_io_def)
    ultimately show ?thesis using st(1,2) by metis
  qed
  then obtain V' where V': "M (s_spare a) (lib (g_thread g')) V' H" "files_rel V' (s_files ?a)"
      "\<forall>j. V j \<noteq> None \<longrightarrow> V' j \<noteq> None" by blast
  have dom: "dom (s_files ?a) = dom (s_files a)" "dom (s_open ?a) = dom (s_open a)" "s_spare ?a = s_spare a"
      "s_names ?a = s_names a" "s_clean ?a = s_clean a"
    using op(2) assms(2) by (auto simp: after_io_def)
  have "fd < length (open_files (g_fdtable g))"
    using session_file [OF open_session [OF rel(1,2,5) assms(2)]] st(4) [OF assms(2)]
    by (auto simp: open_rel_def file_of_fd_def split: if_splits)
  moreover have tab: "g_fdtable g' = (g_fdtable g)\<lparr>open_files := (open_files (g_fdtable g))[fd := Some f']\<rparr>"
      "g_root g' = g_root g" "g_workdir_set g' = g_workdir_set g" "g_mm g' = g_mm g"
      "length (g_buffer g') = length (g_buffer g)"
    using fr(2) by (simp_all add: io_frame_def set_open_file_def)
  ultimately have files: "file_of_fd g' (int j) = (if j = fd then Inr f' else file_of_fd g (int j))" for j
    by (intro file_of_fd_update) simp_all
  have opens: "open_rel v H hnd ?a g' j p" if j: "s_open ?a j = Some p" for j p
  proof (cases "j = fd")
    case True
    then have p: "p = \<lparr>o_id = ?i, o_size = a_size w, o_pos = a_pos w\<rparr>" using j by (simp add: after_io_def)
    have "view ?a p = w"
      using afile_call_facts(2) [OF assms(3)] by (cases "moved_bytes c x") (auto simp: view_def after_io_def p)
    then show ?thesis unfolding open_rel_def using True fr(1) fb op wok p dom(1) by auto
  next
    case False
    then have "s_open a j = Some p" using j by (simp add: after_io_def)
    from st(4) [OF this] have old: "open_rel v H hnd a g j p" .
    then have "afile_ok v (view a p)" "o_id p \<in> dom (s_files a)" unfolding open_rel_def by blast+
    from view_other [OF this assms(3), of fd] have "afile_ok v (view ?a p)" "o_id p \<in> dom (s_files ?a)" by blast+
    then show ?thesis using old files [of j] False unfolding open_rel_def by metis
  qed
  have "root_rel v V' H ?a (g_root g')" using st(5) V'(3) dom(1) tab(2) by (simp add: root_rel_def)
  then have "store_rel v M V' H hnd ?a g'"
    using V'(1,2) st(3) dom opens unfolding store_rel_def handles_rel_def by simp
  moreover have "calm_globals v g'"
  proof -
    have "idle (g_thread g')" using D'(1) by (simp add: calm_iff)
    moreover have "length (open_files (g_fdtable g)) = 256" using cg(3) by (simp add: fd_ok_def)
    ultimately show ?thesis using cg tab by (simp add: calm_globals_def)
  qed
  moreover have "names_rel v ?a (g_root g')" using rel(3) dom tab(2) by (simp add: names_rel_def)
  moreover have "live_fds (g_fdtable g') = dom (s_open ?a)" using rel(4) dom(2) tab(1) by simp
  ultimately have "fs_rel L v e M ?a g'" using rel(1) by (intro fs_relI)
  then show ?thesis using g'(1) by (auto simp: fs_impl_def)
qed

section \<open>Handles\<close>

lemma serves_step:
  assumes "serves L r b P"
  obtains k c b' where "2 * k + 1 < POLLER_MAX_TIME" and "k < POLLER_MAX_TIME" and "lib_completes L k (submit L r b) c b'"
    and "bserrno c = 0" and "P c b'"
proof -
  obtain k c b' where "2 * k + 1 < POLLER_MAX_TIME" "lib_completes L k (submit L r b) c b'" "bserrno c = 0" "P c b'"
    using assms unfolding serves_def by blast
  then show thesis by (intro that [of k c b']) simp_all
qed

text \<open>Opening and closing the handles of other blobs leaves the root's handle alone.\<close>

lemma root_open:
  assumes "root_rel v V H a dir" and "\<And>j n. H h = Some (j, n) \<Longrightarrow> j = i" and "i \<noteq> v_super v"
    and "V' (v_super v) \<noteq> None" and "dom (s_files a') \<subseteq> insert i (dom (s_files a))" and "d_blob dir' = d_blob dir"
  shows "root_rel v V' (open_handle h i H) a' dir'"
proof -
  have r: "v_super v \<notin> dom (s_files a)" "H (d_blob dir) = Some (v_super v, 1)" using assms(1) by (simp_all add: root_rel_def)
  have "d_blob dir \<noteq> h" using r(2) assms(2) [of "v_super v" 1] assms(3) by auto
  moreover have "v_super v \<notin> dom (s_files a')" using r(1) assms(3,5) by blast
  ultimately show ?thesis using r(2) assms(4,6) by (simp add: root_rel_def open_handle_def)
qed

lemma root_close:
  assumes "root_rel v V H a dir" and "H h = Some (i, n)" and "i \<in> dom (s_files a)"
    and "V' (v_super v) \<noteq> None" and "dom (s_files a') = dom (s_files a)"
  shows "root_rel v V' (close_handle h H) a' dir"
proof -
  have r: "v_super v \<notin> dom (s_files a)" "H (d_blob dir) = Some (v_super v, 1)" using assms(1) by (simp_all add: root_rel_def)
  have "i \<noteq> v_super v" using r(1) assms(3) by blast
  then have "d_blob dir \<noteq> h" using r(2) assms(2) by auto
  then show ?thesis using r assms(2,4,5) by (auto simp: root_rel_def close_handle_def)
qed

text \<open>One more descriptor, on a handle that the library opened.\<close>

lemma handles_open:
  assumes "handles_rel H hnd a" and "fd \<notin> dom (s_open a)" and "finite (dom (s_open a))"
    and same: "\<And>j n. H h = Some (j, n) \<Longrightarrow> j = i" and used: "\<And>fd. fd \<in> dom (s_open a) \<Longrightarrow> H (hnd fd) \<noteq> None"
    and new: "i \<in> dom (s_files a) \<or> (\<forall>h n. H h \<noteq> Some (i, n))"
    and "dom (s_open a') = insert fd (dom (s_open a))" and "dom (s_files a') \<subseteq> insert i (dom (s_files a))"
  shows "handles_rel (open_handle h i H) (hnd(fd := h)) a'"
  unfolding handles_rel_def
proof (intro allI impI)
  fix h2 i2 n assume H': "open_handle h i H h2 = Some (i2, n)" and i2: "i2 \<in> dom (s_files a')"
  let ?S = "\<lambda>h. {fd \<in> dom (s_open a). hnd fd = h}"
  have S': "{fd' \<in> dom (s_open a'). (hnd(fd := h)) fd' = h2} = (if h2 = h then insert fd (?S h) else ?S h2)"
    using assms(2,7) by auto
  have fin: "finite (?S h)" "fd \<notin> ?S h" using assms(2,3) by auto
  show "n = card {fd' \<in> dom (s_open a'). (hnd(fd := h)) fd' = h2}"
  proof (cases "h2 = h")
    case True
    then have n: "n = (case H h of None \<Rightarrow> 1 | Some (j, n) \<Rightarrow> n + 1)" using H' by (simp add: open_handle_def)
    show ?thesis
    proof (cases "H h")
      case None
      then have "?S h = {}" using used by blast
      then have "card (insert fd (?S h)) = 1" by (simp only: card.insert finite.emptyI empty_iff card.empty) simp
      moreover have "n = 1" using n None by simp
      ultimately show ?thesis unfolding S' if_P [OF True] by simp
    next
      case (Some jm)
      obtain m where m: "H h = Some (i, m)" using Some same by (cases jm) auto
      then have "i \<in> dom (s_files a)" using new by blast
      then have "m = card (?S h)" using assms(1) m unfolding handles_rel_def by blast
      then show ?thesis using n m True S' fin by simp
    qed
  next
    case False
    then have "H h2 = Some (i2, n)" using H' by (simp add: open_handle_def)
    moreover have "i2 \<in> dom (s_files a)" using i2 assms(8) new calculation by auto
    ultimately have "n = card (?S h2)" using assms(1) unfolding handles_rel_def by blast
    then show ?thesis using S' False by simp
  qed
qed

lemma opens_keep:
  assumes "open_rel v H hnd a g j p" and "file_of_fd g' (int j) = file_of_fd g (int j)" and "j \<noteq> fd"
    and "\<And>j n. H h = Some (j, n) \<Longrightarrow> j = i" and "s_files a' (o_id p) = s_files a (o_id p)"
  shows "open_rel v (open_handle h i H) (hnd(fd := h)) a' g' j p"
proof -
  obtain f n where f: "file_of_fd g (int j) = Inr f" "f_blob f = hnd j" "H (hnd j) = Some (o_id p, n)"
      "unat (f_pos f) = o_pos p" "unat (f_size (file_persist f)) = o_size p" "o_id p \<in> dom (s_files a)"
      "afile_ok v (view a p)"
    using assms(1) unfolding open_rel_def by blast
  have "\<exists>m. open_handle h i H (hnd j) = Some (o_id p, m)"
    using f(3) assms(4) [of "o_id p" n] by (cases "hnd j = h") (auto simp: open_handle_def)
  moreover have "view a' p = view a p" using assms(5) by (simp add: view_def)
  moreover have "o_id p \<in> dom (s_files a')" using f(6) assms(5) by (simp add: domIff)
  ultimately show ?thesis using f assms(2,3) unfolding open_rel_def by auto
qed

text \<open>One descriptor less.\<close>

lemma handles_close:
  assumes "handles_rel H hnd a" and "fd \<in> dom (s_open a)" and "finite (dom (s_open a))" and "hnd fd = h"
    and "H h = Some (i, n)" and "dom (s_open a') = dom (s_open a) - {fd}" and "dom (s_files a') = dom (s_files a)"
  shows "handles_rel (close_handle h H) hnd a'"
  unfolding handles_rel_def
proof (intro allI impI)
  fix h2 i2 m assume H': "close_handle h H h2 = Some (i2, m)" and i2: "i2 \<in> dom (s_files a')"
  let ?S = "\<lambda>h. {fd \<in> dom (s_open a). hnd fd = h}"
  have S': "{fd' \<in> dom (s_open a'). hnd fd' = h2} = (if h2 = h then ?S h - {fd} else ?S h2)"
    using assms(4,6) by auto
  show "m = card {fd' \<in> dom (s_open a'). hnd fd' = h2}"
  proof (cases "h2 = h")
    case True
    then have "i2 = i \<and> m = n - 1 \<and> \<not> n \<le> 1" using H' assms(5) by (auto simp: close_handle_def split: if_splits)
    moreover have "fd \<in> ?S h" "finite (?S h)" using assms(2-4) by auto
    moreover have "n = card (?S h)" using assms(1,5,7) i2 calculation(1) unfolding handles_rel_def by auto
    ultimately show ?thesis using S' True by simp
  next
    case False
    then have "H h2 = Some (i2, m)" using H' assms(5) by (auto simp: close_handle_def split: if_splits)
    then have "m = card (?S h2)" using assms(1,7) i2 unfolding handles_rel_def by auto
    then show ?thesis using S' False by simp
  qed
qed

lemma closes_keep:
  assumes "handles_rel H hnd a" and "open_rel v H hnd a g j p" and "s_open a j = Some p" and "j \<noteq> fd"
    and "fd \<in> dom (s_open a)" and "finite (dom (s_open a))" and "hnd fd = h" and "H h = Some (i, n)"
    and "file_of_fd g' (int j) = file_of_fd g (int j)" and "view a' p = view a p" and "dom (s_files a') = dom (s_files a)"
  shows "open_rel v (close_handle h H) hnd a' g' j p"
proof -
  obtain f m where f: "file_of_fd g (int j) = Inr f" "f_blob f = hnd j" "H (hnd j) = Some (o_id p, m)"
      "unat (f_pos f) = o_pos p" "unat (f_size (file_persist f)) = o_size p" "o_id p \<in> dom (s_files a)"
      "afile_ok v (view a p)"
    using assms(2) unfolding open_rel_def by blast
  have "\<exists>m. close_handle h H (hnd j) = Some (o_id p, m)"
  proof (cases "hnd j = h")
    case True
    then have i: "o_id p = i" "m = n" using f(3) assms(8) by simp_all
    have "{fd, j} \<subseteq> {fd \<in> dom (s_open a). hnd fd = h}" using assms(3,5,7) True by auto
    then have "card {fd, j} \<le> card {fd \<in> dom (s_open a). hnd fd = h}" using assms(6) by (intro card_mono) auto
    moreover have "n = card {fd \<in> dom (s_open a). hnd fd = h}" using assms(1,8) f(6) i unfolding handles_rel_def by auto
    ultimately have "\<not> n \<le> 1" using assms(4) by simp
    then show ?thesis using True assms(8) i by (simp add: close_handle_def)
  next
    case False
    then show ?thesis using f(3) assms(8) by (auto simp: close_handle_def)
  qed
  then show ?thesis using f assms(9-11) unfolding open_rel_def by auto
qed

section \<open>Creating, opening, closing and removing\<close>

lemma names_position:
  assumes "names_rel v a dir" and "name_ok nm"
  shows "spdkfs_dir_lookup dir nm = Inr (case position nm (s_names a) of None \<Rightarrow> - 1 | Some k \<Rightarrow> int k)"
  using lookup_position [of "v_unit v" dir "s_names a" nm] assms by (simp add: names_rel_def name_ok_def)

lemma names_found:
  assumes "names_rel v a dir" and "name_ok nm" and "map_of (s_names a) nm = Some i"
  obtains k bs sz where "spdkfs_dir_lookup dir nm = Inr (int k)" and "dirent_id dir k = Inr i" and "k < length (s_names a)"
    and "position nm (s_names a) = Some k" and "s_files a i = Some (bs, sz)"
proof -
  obtain k where k: "position nm (s_names a) = Some k" "snd (s_names a ! k) = i"
    using assms(3) by (auto simp: position_map_of)
  then have "k < length (s_names a)" by (simp add: position_Some)
  moreover have "spdkfs_dir_lookup dir nm = Inr (int k)" using names_position [OF assms(1,2)] k(1) by simp
  moreover have "dirent_id dir k = Inr i" using assms(1) calculation(1) k(2) by (auto simp: names_rel_def dest: dir_holdsD(5))
  moreover have "i \<in> dom (s_files a)" using assms(1) nth_mem [OF calculation(1)] k(2) by (auto simp: names_rel_def)
  then obtain bs sz where "s_files a i = Some (bs, sz)" by auto
  ultimately show thesis using k(1) that [of k bs sz] by simp
qed

lemma names_missing:
  assumes "names_rel v a dir" and "name_ok nm" and "map_of (s_names a) nm = None"
  shows "spdkfs_dir_lookup dir nm = Inr (- 1)" and "nm \<notin> fst ` set (s_names a)"
proof -
  show "nm \<notin> fst ` set (s_names a)" using assms(3) by (simp add: map_of_eq_None_iff)
  then have "position nm (s_names a) = None" by (simp add: position_None)
  then show "spdkfs_dir_lookup dir nm = Inr (- 1)" using names_position [OF assms(1,2)] by simp
qed

text \<open>A file has its blob in the store.\<close>

lemma file_blob:
  assumes "store_rel v M V H hnd a g" and "s_files a i = Some (bs, sz)"
  obtains rest p where "V i = Some (bs @ rest, Some (File_ctx p))" and "unat (f_size p) = sz" and "sz \<le> length bs"
  using store_relD(2) [OF assms(1)] assms(2) unfolding files_rel_def by blast

lemma open_handle_known: "open_rel v H hnd a g fd o' \<Longrightarrow> H (hnd fd) \<noteq> None"
  by (auto simp: open_rel_def)

lemma finite_open: "calm_globals v g \<Longrightarrow> live_fds (g_fdtable g) = dom (s_open a) \<Longrightarrow> finite (dom (s_open a))"
  by (rule finite_subset [of _ "{..<256}"]) (auto simp: live_fds_def)

lemma make_fs_step:
  assumes "fs_rel L v e M a g" and "fs_allowed v (Make nm) a"
  shows "\<exists>r a' g'. fs_impl L e (Make nm) g = Inr (r, g') \<and> fs_spec v (Make nm) a r a' \<and> fs_rel L v e M a' g'"
proof (cases "map_of (s_names a) nm")
  case (Some i)
  obtain V H hnd where rel: "fs_world L v e M" "calm_globals v g" "names_rel v a (g_root g)"
    by (rule fs_relE [OF assms(1)])
  have nm: "name_ok nm" using assms(2) by simp
  obtain k where "spdkfs_dir_lookup (g_root g) nm = Inr (int k)" by (rule names_found [OF rel(3) nm Some])
  then have "monopoly_create L e nm g = Inr (- 1, g)"
    using rel(3) calm_globalsD(2) [OF rel(2)] by (simp add: monopoly_create_def workdir_def names_rel_def)
  moreover have "nm \<in> fst ` set (s_names a)" using Some by (metis map_of_eq_None_iff option.distinct(1))
  ultimately show ?thesis using assms(1) by (auto simp: fs_impl_def)
next
  case None
  obtain V H hnd where rel: "fs_world L v e M" "calm_globals v g" "names_rel v a (g_root g)"
      "live_fds (g_fdtable g) = dom (s_open a)" "store_rel v M V H hnd a g"
    by (rule fs_relE [OF assms(1)])
  note w = fs_worldD [OF rel(1)] and cg = calm_globalsD [OF rel(2)] and st = store_relD [OF rel(5)]
  have nm: "name_ok nm" using assms(2) by simp
  note miss = names_missing [OF rel(3) nm None]
  have ok: "s_clean a" "0 < s_spare a" "length (s_names a) < dir_limit" "card (dom (s_open a)) < 255"
    using assms(2) miss(2) by auto
  have dir: "d_initialized (g_root g)" "dir_holds (v_unit v) (g_root g) (s_names a)"
      "dir_fresh (v_unit v) (g_root g) (length (s_names a))" "distinct (map fst (s_names a))" "distinct (map snd (s_names a))"
      "snd ` set (s_names a) \<subseteq> dom (s_files a)" "unat (v_unit v) dvd unat (d_size (dir_persist (g_root g)))"
    using rel(3) ok(1) by (simp_all add: names_rel_def)
  let ?r = "s_spare a - 1"
  note bs = blobstoreD [OF w(1)]
  have "serves L Bs_create_blob (lib (g_thread g))
      (\<lambda>c b'. V (c_blobid c) = None \<and> M ?r b' (V(c_blobid c \<mapsto> ([], None))) H)"
    using bs(6) [OF st(1)] ok(2) unfolding store_laws_def by blast
  then obtain k1 c1 b1 where c1: "2 * k1 + 1 < POLLER_MAX_TIME"
      "lib_completes L k1 (submit L Bs_create_blob (lib (g_thread g))) c1 b1"
      "bserrno c1 = 0" "V (c_blobid c1) = None" "M ?r b1 (V(c_blobid c1 \<mapsto> ([], None))) H"
    by (elim serves_step conjE)
  define i where "i = c_blobid c1"
  define V1 where "V1 = V(i \<mapsto> ([], None))"
  have Vi: "V i = None" and M1: "M ?r b1 V1 H" using c1(4,5) by (simp_all add: i_def V1_def)
  have "serves L (Bs_open_blob i) b1 (\<lambda>c b'.
        (\<forall>j n. H (c_blob c) = Some (j, n) \<longrightarrow> j = i) \<and> M ?r b' V1 (open_handle (c_blob c) i H))"
    using bs(6) [OF M1] unfolding store_laws_def V1_def by simp
  then obtain k2 c2 b2 where c2: "2 * k2 + 1 < POLLER_MAX_TIME" "lib_completes L k2 (submit L (Bs_open_blob i) b1) c2 b2"
      "bserrno c2 = 0" "\<forall>j n. H (c_blob c2) = Some (j, n) \<longrightarrow> j = i" "M ?r b2 V1 (open_handle (c_blob c2) i H)"
    by (elim serves_step conjE)
  define h where "h = c_blob c2"
  define H1 where "H1 = open_handle h i H"
  have Hi: "H h2 \<noteq> Some (i, n)" for h2 n
    using bs(7) [OF st(1), of h2 i n] Vi by (auto simp: handle_laws_def)
  have H1h: "H1 h = Some (i, 1)" using c2(4) Hi by (cases "H h") (auto simp: H1_def h_def open_handle_def)
  have M2: "M ?r b2 V1 H1" using c2(5) by (simp add: H1_def h_def)
  have V1i: "V1 i = Some ([], None)" by (simp add: V1_def)
  note hl = handle_lawsD [OF bs(7) [OF M2 H1h] V1i]
  define p where "p = (junk_file e)\<lparr>f_size := 0, f_blob_id := get_id L b2 h, i_writecount := 0, i_ctime := time_now e\<rparr>"
  define b3 where "b3 = set_xattr L h file_xattr (File_ctx p) b2"
  define V2 where "V2 = V(i \<mapsto> ([], Some (File_ctx p)))"
  have M3: "M ?r b3 V2 H1" using hl(7) [of "File_ctx p"] unfolding b3_def V2_def V1_def fun_upd_upd .
  have id3: "get_id L b3 h = i" using bs(7) [OF M3 H1h] by (simp add: handle_laws_def)
  have u3: "v_unit v = c_int (io_unit_size L b3)"
    using bs(4) [OF M3] w(2) by (simp add: geometry_def c_int_small)
  obtain dir' where dir': "add_dirent (\<lambda>_. 0) (v_unit v) i nm (g_root g) = Inr dir'"
      "dir_holds (v_unit v) dir' (s_names a @ [(nm, i)])" "dir_fresh (v_unit v) dir' (Suc (length (s_names a)))"
      "d_initialized dir' = d_initialized (g_root g)" "d_blob dir' = d_blob (g_root g)"
      "unat (v_unit v) dvd unat (d_size (dir_persist (g_root g))) \<longrightarrow> unat (v_unit v) dvd unat (d_size (dir_persist dir'))"
    using add_holds [OF dir(2,3) nm ok(3)] by blast
  have "add_dirent (junk_mem e) (v_unit v) (get_id L b3 h) nm (g_root g) = Inr dir'"
    using dir'(1) id3 w(4) by simp
  moreover have "k1 + k2 + 1 < POLLER_MAX_TIME" using c1(1) c2(1) by linarith
  ultimately obtain fd g' where g': "monopoly_create L e nm g = Inr (int fd, g')" "fd < 256"
      "fd \<notin> live_fds (g_fdtable g)" "fd_ok (g_fdtable g')" "live_fds (g_fdtable g') = insert fd (live_fds (g_fdtable g))"
      "\<forall>j. file_of_fd g' (int j) =
        (if j = fd then Inr \<lparr>f_blob = h, f_pos = 0, file_persist = p\<rparr> else file_of_fd g (int j))"
      "settled b3 (g_thread g')" "g_root g' = dir'"
      "g' = g\<lparr>g_thread := g_thread g', g_root := dir', g_fdtable := g_fdtable g'\<rparr>"
    using monopoly_create_new [OF cg(1,2) w(3) dir(1) cg(3) _ miss(1) c1(2,3) c2(2) [unfolded i_def] c2(3) _ h_def hl(1)
        p_def b3_def u3] rel(4) ok(4) by auto
  let ?a = "a\<lparr>s_names := s_names a @ [(nm, i)], s_spare := ?r, s_files := (s_files a)(i \<mapsto> ([], 0)),
               s_open := (s_open a)(fd \<mapsto> \<lparr>o_id = i, o_size = 0, o_pos = 0\<rparr>)\<rparr>"
  let ?hnd = "hnd(fd := h)"
  have Fi: "s_files a i = None"
  proof (rule ccontr)
    assume "s_files a i \<noteq> None"
    then obtain d sz where "s_files a i = Some (d, sz)" by auto
    then show False by (rule file_blob [OF rel(5)]) (use Vi in simp)
  qed
  have fdn: "fd \<notin> dom (s_open a)" using g'(3) rel(4) by simp
  have same: "g_workdir_set g' = g_workdir_set g" "g_mm g' = g_mm g" "g_buffer g' = g_buffer g"
    by (subst g'(9), simp)+
  have "store_rel v M V2 H1 ?hnd ?a g'"
    unfolding store_rel_def
  proof (intro conjI allI impI)
    show "M (s_spare ?a) (lib (g_thread g')) V2 H1" using M3 g'(7) by (simp add: settled_def)
    show "files_rel V2 (s_files ?a)" using st(2) by (auto simp: files_rel_def V2_def p_def)
    show "handles_rel H1 ?hnd ?a"
      unfolding H1_def
    proof (rule handles_open [OF st(3) fdn finite_open [OF rel(2,4)]])
      show "j = i" if "H h = Some (j, n)" for j n using that c2(4) by (simp add: h_def)
      show "H (hnd fd) \<noteq> None" if "fd \<in> dom (s_open a)" for fd using that st(4) open_handle_known by blast
    qed (use Hi in auto)
    have si: "V (v_super v) \<noteq> None" using st(5) by (simp add: root_rel_def)
    show "root_rel v V2 H1 ?a (g_root g')"
      unfolding H1_def
    proof (rule root_open [OF st(5)])
      show "j = i" if "H h = Some (j, n)" for j n using that c2(4) by (simp add: h_def)
      show "i \<noteq> v_super v" using si Vi by auto
    qed (use si g'(8) dir'(5) in \<open>auto simp: V2_def\<close>)
    fix j q assume j: "s_open ?a j = Some q"
    show "open_rel v H1 ?hnd ?a g' j q"
    proof (cases "j = fd")
      case True
      then show ?thesis
        using j g'(6) H1h by (auto simp: open_rel_def p_def afile_ok_def view_def)
    next
      case False
      then have q: "s_open a j = Some q" using j by simp
      have "o_id q \<noteq> i" using st(4) [OF q] Fi by (auto simp: open_rel_def)
      then show ?thesis
        unfolding H1_def using False g'(6) c2(4) by (intro opens_keep [OF st(4) [OF q]]) (auto simp: h_def)
    qed
  qed
  moreover have "names_rel v ?a (g_root g')"
    using dir dir'(2-4,6) miss(2) g'(8) Fi by (auto simp: names_rel_def)
  moreover have "calm_globals v g'" using cg same g'(4,7) by (simp add: calm_globals_def settled_def)
  moreover have "live_fds (g_fdtable g') = dom (s_open ?a)" using g'(5) rel(4) by simp
  ultimately have "fs_rel L v e M ?a g'" using rel(1) by (intro fs_relI)
  moreover have "fs_spec v (Make nm) a (Fd (int fd)) ?a"
    using miss(2) g'(2) fdn Fi by (auto simp: domIff)
  ultimately show ?thesis using g'(1) by (fastforce simp: fs_impl_def)
qed

lemma open_fs_step:
  assumes "fs_rel L v e M a g" and "fs_allowed v (Open_file nm) a"
  shows "\<exists>r a' g'. fs_impl L e (Open_file nm) g = Inr (r, g') \<and> fs_spec v (Open_file nm) a r a' \<and> fs_rel L v e M a' g'"
proof -
  obtain V H hnd where rel: "fs_world L v e M" "calm_globals v g" "names_rel v a (g_root g)"
      "live_fds (g_fdtable g) = dom (s_open a)" "store_rel v M V H hnd a g"
    by (rule fs_relE [OF assms(1)])
  note w = fs_worldD [OF rel(1)] and cg = calm_globalsD [OF rel(2)] and st = store_relD [OF rel(5)]
  have nm: "name_ok nm" "card (dom (s_open a)) < 255" using assms(2) by simp_all
  show ?thesis
  proof (cases "map_of (s_names a) nm")
    case None
    then have "monopoly_open L e nm g = Inr (- 1, g)"
      using names_missing(1) [OF rel(3) nm(1)] cg(2) by (simp add: monopoly_open_def workdir_def)
    then show ?thesis using assms(1) None by (auto simp: fs_impl_def)
  next
    case (Some i)
    obtain k bs sz where k: "spdkfs_dir_lookup (g_root g) nm = Inr (int k)" "dirent_id (g_root g) k = Inr i"
        "s_files a i = Some (bs, sz)"
      by (rule names_found [OF rel(3) nm(1) Some])
    obtain rest p where p: "V i = Some (bs @ rest, Some (File_ctx p))" "unat (f_size p) = sz" "sz \<le> length bs"
      by (rule file_blob [OF rel(5) k(3)])
    note bl = blobstoreD [OF w(1)]
    have "serves L (Bs_open_blob i) (lib (g_thread g)) (\<lambda>c b'.
        (\<forall>j n. H (c_blob c) = Some (j, n) \<longrightarrow> j = i) \<and> M (s_spare a) b' V (open_handle (c_blob c) i H))"
      using bl(6) [OF st(1)] p(1) unfolding store_laws_def by simp
    then obtain k1 c b where c: "k1 < POLLER_MAX_TIME" "lib_completes L k1 (submit L (Bs_open_blob i) (lib (g_thread g))) c b"
        "\<forall>j n. H (c_blob c) = Some (j, n) \<longrightarrow> j = i" "M (s_spare a) b V (open_handle (c_blob c) i H)"
      by (elim serves_step conjE)
    define h where "h = c_blob c"
    define H1 where "H1 = open_handle h i H"
    have M1: "M (s_spare a) b V H1" using c(4) by (simp add: H1_def h_def)
    obtain m where H1h: "H1 h = Some (i, m)" by (simp add: H1_def open_handle_def)
    have x: "get_xattr L b h file_xattr = Some (File_ctx p)"
      by (rule handle_lawsD(6) [OF bl(7) [OF M1 H1h] p(1)])
    obtain fd g' where g': "monopoly_open L e nm g = Inr (int fd, g')" "fd < 256" "fd \<notin> live_fds (g_fdtable g)"
        "fd_ok (g_fdtable g')" "live_fds (g_fdtable g') = insert fd (live_fds (g_fdtable g))"
        "\<forall>j. file_of_fd g' (int j) =
          (if j = fd then Inr \<lparr>f_blob = h, f_pos = 0, file_persist = p\<rparr> else file_of_fd g (int j))"
        "settled b (g_thread g')" "g' = g\<lparr>g_thread := g_thread g', g_fdtable := g_fdtable g'\<rparr>"
      using monopoly_open_there [OF cg(1,2) w(3) cg(3) _ k(1,2) c(2,1) h_def x] rel(4) nm(2) by auto
    let ?a = "a\<lparr>s_open := (s_open a)(fd \<mapsto> \<lparr>o_id = i, o_size = sz, o_pos = 0\<rparr>)\<rparr>"
    let ?hnd = "hnd(fd := h)"
    have fdn: "fd \<notin> dom (s_open a)" using g'(3) rel(4) by simp
    have same: "g_workdir_set g' = g_workdir_set g" "g_mm g' = g_mm g" "g_buffer g' = g_buffer g" "g_root g' = g_root g"
      by (subst g'(8), simp)+
    have "store_rel v M V H1 ?hnd ?a g'"
      unfolding store_rel_def
    proof (intro conjI allI impI)
      show "M (s_spare ?a) (lib (g_thread g')) V H1" using M1 g'(7) by (simp add: settled_def)
      show "files_rel V (s_files ?a)" using st(2) by simp
      show "handles_rel H1 ?hnd ?a"
        unfolding H1_def
      proof (rule handles_open [OF st(3) fdn finite_open [OF rel(2,4)]])
        show "j = i" if "H h = Some (j, n)" for j n using that c(3) by (simp add: h_def)
        show "H (hnd fd) \<noteq> None" if "fd \<in> dom (s_open a)" for fd using that st(4) open_handle_known by blast
      qed (use k(3) in auto)
      show "root_rel v V H1 ?a (g_root g')"
        unfolding H1_def
      proof (rule root_open [OF st(5)])
        show "j = i" if "H h = Some (j, n)" for j n using that c(3) by (simp add: h_def)
        show "i \<noteq> v_super v" using st(5) k(3) by (auto simp: root_rel_def)
      qed (use st(5) same(4) in \<open>auto simp: root_rel_def\<close>)
      fix j q assume j: "s_open ?a j = Some q"
      show "open_rel v H1 ?hnd ?a g' j q"
      proof (cases "j = fd")
        case True
        then show ?thesis
          using j g'(6) H1h k(3) p(2,3) by (auto simp: open_rel_def afile_ok_def view_def)
      next
        case False
        then have q: "s_open a j = Some q" using j by simp
        then show ?thesis
          unfolding H1_def using False g'(6) c(3) by (intro opens_keep [OF st(4) [OF q]]) (auto simp: h_def)
      qed
    qed
    moreover have "names_rel v ?a (g_root g')" using rel(3) same(4) by (simp add: names_rel_def)
    moreover have "calm_globals v g'" using cg same g'(4,7) by (simp add: calm_globals_def settled_def)
    moreover have "live_fds (g_fdtable g') = dom (s_open ?a)" using g'(5) rel(4) by simp
    ultimately have "fs_rel L v e M ?a g'" using rel(1) by (intro fs_relI)
    moreover have "fs_spec v (Open_file nm) a (Fd (int fd)) ?a"
      using Some g'(2) fdn k(3) by (auto simp: domIff)
    ultimately show ?thesis using g'(1) by (fastforce simp: fs_impl_def)
  qed
qed

lemma close_fs_step:
  assumes "fs_rel L v e M a g" and "fs_allowed v (Close_file fd) a"
  shows "\<exists>r a' g'. fs_impl L e (Close_file fd) g = Inr (r, g') \<and> fs_spec v (Close_file fd) a r a' \<and> fs_rel L v e M a' g'"
proof -
  obtain V H hnd where rel: "fs_world L v e M" "calm_globals v g" "names_rel v a (g_root g)"
      "live_fds (g_fdtable g) = dom (s_open a)" "store_rel v M V H hnd a g"
    by (rule fs_relE [OF assms(1)])
  note w = fs_worldD [OF rel(1)] and cg = calm_globalsD [OF rel(2)] and st = store_relD [OF rel(5)]
  obtain o' where o': "s_open a fd = Some o'" using assms(2) by auto
  obtain f n where f: "file_of_fd g (int fd) = Inr f" "f_blob f = hnd fd" "H (hnd fd) = Some (o_id o', n)"
      "unat (f_size (file_persist f)) = o_size o'" "o_id o' \<in> dom (s_files a)" "afile_ok v (view a o')"
    using st(4) [OF o'] unfolding open_rel_def by blast
  obtain bs sz where F: "s_files a (o_id o') = Some (bs, sz)" using f(5) by auto
  obtain rest p where p: "V (o_id o') = Some (bs @ rest, Some (File_ctx p))" by (rule file_blob [OF rel(5) F])
  note bl = blobstoreD [OF w(1)]
  let ?b0 = "set_xattr L (hnd fd) file_xattr (File_ctx (file_persist f)) (lib (g_thread g))"
  define V1 where "V1 = V(o_id o' \<mapsto> (bs @ rest, Some (File_ctx (file_persist f))))"
  have M0: "M (s_spare a) ?b0 V1 H"
    unfolding V1_def by (rule handle_lawsD(7) [OF bl(7) [OF st(1) f(3)] p])
  have "V1 (o_id o') = Some (bs @ rest, Some (File_ctx (file_persist f)))" by (simp add: V1_def)
  from handle_lawsD(11) [OF bl(7) [OF M0 f(3)] this]
  obtain k c b where c: "k < POLLER_MAX_TIME" "lib_completes L k (submit L (Blob_close (hnd fd)) ?b0) c b"
      "M (s_spare a) b V1 (close_handle (hnd fd) H)"
    by (elim serves_step conjE)
  have "fd \<in> live_fds (g_fdtable g)" using o' rel(4) by auto
  then obtain g' where g': "monopoly_close L e (int fd) g = Inr (0, g')" "fd_ok (g_fdtable g')"
      "live_fds (g_fdtable g') = live_fds (g_fdtable g) - {fd}" "settled b (g_thread g')"
      "\<forall>j. file_of_fd g' (int j) = file_of_fd g (int j)"
      "g' = g\<lparr>g_thread := g_thread g', g_fdtable := g_fdtable g'\<rparr>"
    using monopoly_close_there [OF cg(1) w(3) cg(3) _ f(1), unfolded f(2), OF _ c(2,1)] by blast
  let ?a = "a\<lparr>s_files := (s_files a)(o_id o' \<mapsto> (bs, o_size o')), s_open := (s_open a)(fd := None)\<rparr>"
  have same: "g_workdir_set g' = g_workdir_set g" "g_mm g' = g_mm g" "g_buffer g' = g_buffer g" "g_root g' = g_root g"
    by (subst g'(6), simp)+
  have size: "o_size o' \<le> length bs" using f(6) F by (simp add: afile_ok_def view_def)
  have doms: "dom (s_open ?a) = dom (s_open a) - {fd}" "dom (s_files ?a) = dom (s_files a)" using F by auto
  have "store_rel v M V1 (close_handle (hnd fd) H) hnd ?a g'"
    unfolding store_rel_def
  proof (intro conjI allI impI)
    show "M (s_spare ?a) (lib (g_thread g')) V1 (close_handle (hnd fd) H)" using c(3) g'(4) by (simp add: settled_def)
    show "files_rel V1 (s_files ?a)" using st(2) size f(4) by (auto simp: files_rel_def V1_def)
    show "handles_rel (close_handle (hnd fd) H) hnd ?a"
      using o' by (intro handles_close [where H = H and hnd = hnd, OF st(3) _ finite_open [OF rel(2,4)] refl f(3) doms]) auto
    show "root_rel v V1 (close_handle (hnd fd) H) ?a (g_root g')"
      unfolding same(4) using st(5) by (intro root_close [OF st(5) f(3,5) _ doms(2)]) (auto simp: root_rel_def V1_def)
    fix j q assume j: "s_open ?a j = Some q"
    then have q: "s_open a j = Some q" "j \<noteq> fd" by (auto split: if_splits)
    have "view ?a q = view a q" using F by (simp add: view_def)
    then show "open_rel v (close_handle (hnd fd) H) hnd ?a g' j q"
      using o' g'(5)
      by (intro closes_keep [where H = H, OF st(3) st(4) [OF q(1)] q _ finite_open [OF rel(2,4)] refl f(3) _ _ doms(2)]) auto
  qed
  moreover have "names_rel v ?a (g_root g')"
    using rel(3) same(4) doms(2) by (simp add: names_rel_def)
  moreover have "calm_globals v g'" using cg same g'(2,4) by (simp add: calm_globals_def settled_def)
  moreover have "live_fds (g_fdtable g') = dom (s_open ?a)" using g'(3) rel(4) doms(1) by simp
  ultimately have "fs_rel L v e M ?a g'" using rel(1) by (intro fs_relI)
  moreover have "fs_spec v (Close_file fd) a Done ?a" using o' F by simp
  ultimately show ?thesis using g'(1) by (fastforce simp: fs_impl_def)
qed

lemma drop_name_position:
  assumes "distinct (map fst ns)" and "position nm ns = Some k"
  shows "drop_name nm ns = take k ns @ drop (Suc k) ns"
  using assms
proof (induction ns arbitrary: k)
  case (Cons x xs)
  show ?case
  proof (cases "fst x = nm")
    case True
    then have "nm \<notin> fst ` set xs" using Cons.prems(1) by auto
    then have "filter (\<lambda>x. fst x \<noteq> nm) xs = xs" by (intro filter_True) auto
    then show ?thesis using True Cons.prems(2) by (simp add: drop_name_def)
  next
    case False
    then obtain j where "k = Suc j" "position nm xs = Some j" using Cons.prems(2) by auto
    then show ?thesis using False Cons.IH [of j] Cons.prems(1) by (simp add: drop_name_def)
  qed
qed simp

lemma drop_name_ids:
  assumes "distinct (map snd ns)" and "map_of ns nm = Some i"
  shows "snd ` set (drop_name nm ns) \<subseteq> snd ` set ns - {i}" and "distinct (map snd (drop_name nm ns))"
proof -
  have "(nm, i) \<in> set ns" using assms(2) by (rule map_of_SomeD)
  then have "snd x \<noteq> i" if "x \<in> set ns" "fst x \<noteq> nm" for x
    using that assms(1) by (metis distinct_map fst_conv inj_onD snd_conv)
  then show "snd ` set (drop_name nm ns) \<subseteq> snd ` set ns - {i}" by (auto simp: drop_name_def)
  show "distinct (map snd (drop_name nm ns))" using assms(1) by (simp add: drop_name_def distinct_map_filter)
qed

lemma held_entries:
  assumes "dir_holds u dir ns" and "k < length ns"
  shows "sizeof_dirent * length ns \<le> length (dirents dir)"
proof -
  note d = dir_holdsD [OF assms(1)]
  obtain j where j: "length ns = Suc j" using assms(2) by (cases "length ns") simp_all
  show ?thesis using room_entries [OF d(1,6), of j] d(3) unfolding j by simp
qed

text \<open>A blob that no open descriptor uses has no handle.\<close>

lemma no_handle:
  assumes "store_rel v M V H hnd a g" and "handle_laws L u C cap M r b V' H h i n" and "i \<in> dom (s_files a)"
    and "i \<notin> o_id ` ran (s_open a)"
  shows "H h \<noteq> Some (i, n)"
proof
  note st = store_relD [OF assms(1)]
  assume H: "H h = Some (i, n)"
  have "0 < n" using assms(2) by (simp add: handle_laws_def)
  moreover have "n = card {fd \<in> dom (s_open a). hnd fd = h}" using st(3) H assms(3) unfolding handles_rel_def by blast
  ultimately obtain fd where "fd \<in> dom (s_open a)" "hnd fd = h" by (metis (mono_tags, lifting) card_gt_0_iff empty_Collect_eq)
  then obtain q where "s_open a fd = Some q" "o_id q = i" using st(4) [of fd] H by (auto simp: open_rel_def)
  then show False using assms(4) by (auto simp: ran_def)
qed

definition removed :: "u8 list \<Rightarrow> blob_id \<Rightarrow> afs \<Rightarrow> afs" where
  "removed nm i a = a\<lparr>s_names := drop_name nm (s_names a), s_clean := False, s_files := (s_files a)(i := None)\<rparr>"

lemma removed_simps [simp]:
  "s_names (removed nm i a) = drop_name nm (s_names a)" "\<not> s_clean (removed nm i a)"
  "s_files (removed nm i a) = (s_files a)(i := None)" "s_open (removed nm i a) = s_open a"
  "s_spare (removed nm i a) = s_spare a"
  by (simp_all add: removed_def)

lemma removed_names:
  assumes "names_rel v a dir" and "map_of (s_names a) nm = Some i" and "dir_holds (v_unit v) dir' (s_names (removed nm i a))"
    and "d_initialized dir'" and "d_size (dir_persist dir') = d_size (dir_persist dir)"
  shows "names_rel v (removed nm i a) dir'"
proof -
  have d: "distinct (map fst (s_names a))" "distinct (map snd (s_names a))" "snd ` set (s_names a) \<subseteq> dom (s_files a)"
      "unat (v_unit v) dvd unat (d_size (dir_persist dir))"
    using assms(1) by (simp_all add: names_rel_def)
  have "distinct (map fst (drop_name nm (s_names a)))" using d(1) by (simp add: drop_name_def distinct_map_filter)
  moreover have "distinct (map snd (drop_name nm (s_names a)))" "snd ` set (drop_name nm (s_names a)) \<subseteq> dom ((s_files a)(i := None))"
    using drop_name_ids [OF d(2) assms(2)] d(3) by auto
  ultimately show ?thesis using assms(3-5) d(4) by (simp add: names_rel_def)
qed

lemma removed_store:
  assumes "store_rel v M V H hnd a g" and "M (s_spare a) (lib (g_thread g')) (V(i := None)) H" and "i \<in> dom (s_files a)"
    and "i \<notin> o_id ` ran (s_open a)" and "\<And>h n. H h \<noteq> Some (i, n)" and "g_fdtable g' = g_fdtable g"
    and "d_blob (g_root g') = d_blob (g_root g)"
  shows "store_rel v M (V(i := None)) H hnd (removed nm i a) g'"
  unfolding store_rel_def
proof (intro conjI allI impI)
  note st = store_relD [OF assms(1)]
  show "M (s_spare (removed nm i a)) (lib (g_thread g')) (V(i := None)) H" using assms(2) by simp
  show "files_rel (V(i := None)) (s_files (removed nm i a))" using st(2) by (auto simp: files_rel_def)
  show "handles_rel H hnd (removed nm i a)" using st(3) assms(5) by (auto simp: handles_rel_def)
  have "i \<noteq> v_super v" using st(5) assms(3) by (auto simp: root_rel_def)
  then show "root_rel v (V(i := None)) H (removed nm i a) (g_root g')" using st(5) assms(7) by (simp add: root_rel_def)
  have files: "file_of_fd g' j = file_of_fd g j" for j by (simp add: file_of_fd_def assms(6))
  fix j q assume "s_open (removed nm i a) j = Some q"
  then have q: "s_open a j = Some q" by simp
  then have "o_id q \<noteq> i" using assms(4) by (auto simp: ran_def)
  then have "view (removed nm i a) q = view a q" "s_files (removed nm i a) (o_id q) = s_files a (o_id q)"
    by (simp_all add: view_def)
  then show "open_rel v H hnd (removed nm i a) g' j q" using st(4) [OF q] files by (auto simp: open_rel_def)
qed

text \<open>Removing a name that is there: its blob goes, and the directory is left neither more nor less dirty.\<close>

lemma remove_found:
  assumes rel: "fs_world L v e M" "calm_globals v g" "names_rel v a (g_root g)" "store_rel v M V H hnd a g"
    and nm: "name_ok nm" "map_of (s_names a) nm = Some i" "i \<notin> o_id ` ran (s_open a)"
  obtains g' where "fs_impl L e (Remove nm) g = Inr (Done, g')" and "names_rel v (removed nm i a) (g_root g')"
    and "calm_globals v g'" and "store_rel v M (V(i := None)) H hnd (removed nm i a) g'" and "g_fdtable g' = g_fdtable g"
    and "g_mm g' = g_mm g" and "d_dirty (g_root g') = d_dirty (g_root g)" and "d_blob (g_root g') = d_blob (g_root g)"
proof -
  note w = fs_worldD [OF rel(1)] and cg = calm_globalsD [OF rel(2)] and st = store_relD [OF rel(4)] and bl = blobstoreD [OF w(1)]
  obtain k bs sz where k: "spdkfs_dir_lookup (g_root g) nm = Inr (int k)" "dirent_id (g_root g) k = Inr i"
      "k < length (s_names a)" "position nm (s_names a) = Some k" "s_files a i = Some (bs, sz)"
    by (rule names_found [OF rel(3) nm(1,2)])
  have dir: "d_initialized (g_root g)" "dir_holds (v_unit v) (g_root g) (s_names a)" "distinct (map fst (s_names a))"
    using rel(3) by (simp_all add: names_rel_def)
  have i: "i \<in> dom (s_files a)" using k(5) by blast
  have unused: "H h \<noteq> Some (i, n)" for h n
    using no_handle [OF rel(4) bl(7) [OF st(1)] i nm(3)] by blast
  obtain rest p where p: "V i = Some (bs @ rest, Some (File_ctx p))" by (rule file_blob [OF rel(4) k(5)])
  have "serves L (Bs_delete_blob i) (lib (g_thread g)) (\<lambda>c b'. M (s_spare a) b' (V(i := None)) H)"
    using bl(6) [OF st(1)] p unused unfolding store_laws_def by blast
  then obtain k1 c b where c: "k1 < POLLER_MAX_TIME" "lib_completes L k1 (submit L (Bs_delete_blob i) (lib (g_thread g))) c b"
      "M (s_spare a) b (V(i := None)) H"
    by (elim serves_step)
  obtain g' mem where g': "monopoly_unlink L e nm g = Inr (junk_result e, g')" "settled b (g_thread g')"
      "g_root g' = (g_root g)\<lparr>dirents := mem, dir_persist := (dir_persist (g_root g))
         \<lparr>d_dirent_count := d_dirent_count (dir_persist (g_root g)) - 1\<rparr>\<rparr>"
      "unat (d_dirent_count (dir_persist (g_root g)) - 1) = length (s_names a) - 1" "length mem = length (dirents (g_root g))"
      "g' = g\<lparr>g_thread := g_thread g', g_root := g_root g'\<rparr>"
      "\<forall>j. entry mem j = (if k \<le> j \<and> j < length (s_names a) - 1 then entry (dirents (g_root g)) (Suc j) else entry (dirents (g_root g)) j)"
    using unlink_entry [OF cg(1,2) w(3) w(5) [OF k(1)] dir_holdsD(3) [OF dir(2), symmetric] k(3) held_entries [OF dir(2) k(3)] k(2) c(2,1)]
    by blast
  have same: "g_workdir_set g' = g_workdir_set g" "g_mm g' = g_mm g" "g_buffer g' = g_buffer g" "g_fdtable g' = g_fdtable g"
    by (subst g'(6), simp)+
  have holds: "dir_holds (v_unit v) (g_root g') (s_names (removed nm i a))"
    using remove_holds [OF dir(2) k(3) refl g'(5,4,7,3)] drop_name_position [OF dir(3) k(4)] by simp
  show thesis
  proof
    show "fs_impl L e (Remove nm) g = Inr (Done, g')" using g'(1) w(5) [OF k(1)] by (simp add: fs_impl_def)
    show "names_rel v (removed nm i a) (g_root g')"
      by (rule removed_names [OF rel(3) nm(2) holds]) (use dir(1) g'(3) in simp_all)
    show "calm_globals v g'" using cg same g'(2) by (simp add: calm_globals_def settled_def)
    show "store_rel v M (V(i := None)) H hnd (removed nm i a) g'"
      using c(3) g'(2,3) by (intro removed_store [OF rel(4) _ i nm(3) unused same(4)]) (simp_all add: settled_def)
  qed (use same g'(3) in simp_all)
qed

lemma remove_fs_step:
  assumes "fs_rel L v e M a g" and "fs_allowed v (Remove nm) a"
  shows "\<exists>r a' g'. fs_impl L e (Remove nm) g = Inr (r, g') \<and> fs_spec v (Remove nm) a r a' \<and> fs_rel L v e M a' g'"
proof -
  obtain V H hnd where rel: "fs_world L v e M" "calm_globals v g" "names_rel v a (g_root g)"
      "live_fds (g_fdtable g) = dom (s_open a)" "store_rel v M V H hnd a g"
    by (rule fs_relE [OF assms(1)])
  have nm: "name_ok nm" using assms(2) by simp
  show ?thesis
  proof (cases "map_of (s_names a) nm")
    case None
    then have find: "find_dir e nm (g_root g) = - 1" using fs_worldD(5) [OF rel(1) names_missing(1) [OF rel(3) nm]] by simp
    then have "monopoly_unlink L e nm g = Inr (- 1, g)" by (simp add: monopoly_unlink_def)
    then show ?thesis using assms(1) None find by (auto simp: fs_impl_def)
  next
    case (Some i)
    then have "i \<notin> o_id ` ran (s_open a)" using assms(2) by simp
    then obtain g' where g': "fs_impl L e (Remove nm) g = Inr (Done, g')" "names_rel v (removed nm i a) (g_root g')"
        "calm_globals v g'" "store_rel v M (V(i := None)) H hnd (removed nm i a) g'" "g_fdtable g' = g_fdtable g"
      by (rule remove_found [OF rel(1-3,5) nm Some])
    have "live_fds (g_fdtable g') = dom (s_open (removed nm i a))" using rel(4) g'(5) by simp
    then have "fs_rel L v e M (removed nm i a) g'" using rel(1) g'(2-4) by (intro fs_relI)
    moreover have "fs_spec v (Remove nm) a Done (removed nm i a)" using Some by (simp add: removed_def)
    ultimately show ?thesis using g'(1) by blast
  qed
qed

section \<open>The refinement\<close>

lemma fs_step_refines:
  assumes "fs_rel L v e M a g" and "fs_allowed v c a"
  shows "\<exists>r a' g'. fs_impl L e c g = Inr (r, g') \<and> fs_spec v c a r a' \<and> fs_rel L v e M a' g'"
proof (cases c)
  case (Io fd io)
  obtain o' x w where "s_open a fd = Some o'" "afile_call v io (view a o') = Some (x, w)"
    using assms(2) Io by auto
  then obtain g' where "fs_impl L e c g = Inr (Moved x, g')" "fs_rel L v e M (after_io (moved_bytes io x) fd o' w a) g'"
    using io_fs_step [OF assms(1)] Io by blast
  moreover have "fs_spec v c a (Moved x) (after_io (moved_bytes io x) fd o' w a)"
    unfolding Io fs_spec.simps using \<open>s_open a fd = Some o'\<close> \<open>afile_call v io (view a o') = Some (x, w)\<close> by blast
  ultimately show ?thesis by blast
qed (use assms make_fs_step open_fs_step close_fs_step remove_fs_step in \<open>simp_all only:\<close>)

interpretation whole: loose_simulation "fs_allowed v" "fs_spec v" "fs_impl L e" "fs_rel L v e M" for L v e M
  by unfold_locales (rule fs_step_refines)



section \<open>An example\<close>

text \<open>An empty directory, no descriptor in use and a store with nothing but the blob of the root stand
  for the empty file system.\<close>

definition empty_fs :: "nat \<Rightarrow> afs" where
  "empty_fs r = \<lparr>s_names = [], s_clean = True, s_spare = r, s_files = Map.empty, s_open = Map.empty\<rparr>"

lemma empty_dir_fields: "d_initialized empty_dir" "d_blob empty_dir = 1"
  by (simp_all add: empty_dir_def)

lemma empty_fs_rel:
  assumes "fs_world L v e M" and "calm_globals v g" and "live_fds (g_fdtable g) = {}" and "g_root g = empty_dir"
    and "M r (lib (g_thread g)) [v_super v \<mapsto> Dx] [1 \<mapsto> (v_super v, 1)]"
    and "sizeof_dirent \<le> unat (v_unit v)" and "unat (v_unit v) < 2 ^ 31"
  shows "fs_rel L v e M (empty_fs r) g"
proof -
  have "dir_limit * unat (v_unit v) < 2 ^ 63" using assms(7) by (simp add: dir_limit_def)
  then have "names_rel v (empty_fs r) (g_root g)"
    using assms(4,6) empty_dir_holds by (simp add: names_rel_def empty_fs_def dir_fresh_def empty_dir_fields)
  moreover have "store_rel v M [v_super v \<mapsto> Dx] [1 \<mapsto> (v_super v, 1)] (\<lambda>_. 0) (empty_fs r) g"
    using assms(4,5) by (simp add: store_rel_def empty_fs_def files_rel_def handles_rel_def root_rel_def empty_dir_fields)
  moreover have "live_fds (g_fdtable g) = dom (s_open (empty_fs r))" using assms(3) by (simp add: empty_fs_def)
  ultimately show ?thesis using assms(1,2) by (intro fs_relI)
qed

definition small_volume :: "nat \<Rightarrow> volume" where
  "small_volume cl = \<lparr>v_unit = 1024, v_cluster = of_nat cl, v_cap = 8192, v_buffer = 1024, v_dma = (\<lambda>_. False), v_super = 1\<rparr>"

definition super_disk :: mem_bs where
  "super_disk = mem_empty\<lparr>bs_data := [1 \<mapsto> replicate 8192 0], bs_next := 2\<rparr>"

definition small_globals :: "mem_bs globals" where
  "small_globals = (example_globals super_disk empty_dir)\<lparr>g_buffer := replicate 1024 0\<rparr>"

definition lookup_env :: env where
  "lookup_env = example_env\<lparr>find_dir := (\<lambda>nm dir. case spdkfs_dir_lookup dir nm of Inl e \<Rightarrow> 0 | Inr k \<Rightarrow> k)\<rparr>"

lemma super_disk_holds:
  assumes "cl dvd 8192"
  shows "mem_fs cl 10 super_disk [1 \<mapsto> (replicate 8192 0, None)] [1 \<mapsto> (1, 1)]"
  using assms by (auto simp: mem_fs_def super_disk_def mem_empty_def)

lemma small_world:
  assumes "cl dvd 8192" and "0 < cl"
  shows "fs_world (mem_lib 1024 cl) (small_volume cl) lookup_env (mem_fs cl)"
proof -
  have "cl \<le> 8192" using assms by (simp add: dvd_imp_le)
  then show ?thesis
    using mem_blobstore [of 1024 cl 8192] assms(2)
    by (simp add: fs_world_def small_volume_def lookup_env_def example_env_def geometry_def)
qed

lemma small_empty_rel:
  assumes "cl dvd 8192" and "0 < cl"
  shows "fs_rel (mem_lib 1024 cl) (small_volume cl) lookup_env (mem_fs cl) (empty_fs 10) small_globals"
proof (rule empty_fs_rel)
  show "fs_world (mem_lib 1024 cl) (small_volume cl) lookup_env (mem_fs cl)" by (rule small_world [OF assms])
  show "calm_globals (small_volume cl) small_globals"
    using mm_start_find fdtable_zero_ok
    by (simp add: calm_globals_def small_globals_def example_globals_def small_volume_def)
  show "mem_fs cl 10 (lib (g_thread small_globals)) [v_super (small_volume cl) \<mapsto> (replicate 8192 0, None)]
      [1 \<mapsto> (v_super (small_volume cl), 1)]"
    using super_disk_holds [OF assms(1)] by (simp add: small_globals_def example_globals_def small_volume_def)
qed (simp_all add: small_globals_def example_globals_def small_volume_def sizeof_dirent_def SPDK_MAX_NAME_COUNT_def fdtable_zero_ok)

text \<open>A client that makes a file, writes two blocks, closes it, opens it again and reads two blocks.\<close>

definition demo_client :: "fs_result list \<Rightarrow> fs_call option" where
  "demo_client rs =
     (case rs of
        [] \<Rightarrow> Some (Make [97])
      | [Fd fd] \<Rightarrow> Some (Io (nat fd) (Write_call 1 (replicate 1024 65) 1024))
      | [Fd fd, _] \<Rightarrow> Some (Io (nat fd) (Write_call 1 (replicate 1024 66) 1024))
      | [Fd fd, _, _] \<Rightarrow> Some (Close_file (nat fd))
      | [_, _, _, _] \<Rightarrow> Some (Open_file [97])
      | [_, _, _, _, Fd fd] \<Rightarrow> Some (Io (nat fd) (Read_call 1 (replicate 2048 0) 2048))
      | _ \<Rightarrow> None)"

lemmas small_io = small_volume_def aligned_size_def piece_def write_allowed_def served_def recorded_def view_def
  after_io_def moved_bytes_def

lemma six_calls: "6 = Suc (Suc (Suc (Suc (Suc (Suc 0)))))"
  by simp

lemma demo_served: "client_served (fs_allowed (small_volume 2048)) (fs_spec (small_volume 2048)) demo_client 6 [] (empty_fs 10)"
  unfolding six_calls by (auto simp: demo_client_def empty_fs_def name_ok_def SPDK_MAX_NAME_COUNT_def dir_limit_def small_io)

lemma demo_result:
  assumes "client_result (fs_spec (small_volume 2048)) demo_client 6 [] (empty_fs 10) rs a"
  shows "\<exists>fd1 fd2. rs = [Fd fd1, Moved (1024, replicate 1024 65), Moved (1024, replicate 1024 66), Done, Fd fd2,
     Moved (1024, replicate 1024 65 @ replicate 1024 0)]"
  using assms unfolding six_calls by (auto simp: demo_client_def empty_fs_def small_io)


end
