(* ===== verification/Ut_Programs.thy ===== *)
theory Ut_Programs
  imports Fs_Refine Interface
begin

text \<open>
  The two test programs, \<^verbatim>\<open>test/file_test/file_ut.c\<close> and \<^verbatim>\<open>test/posix_test/posix_ut.c\<close>, run over the
  file system. Both write 4096 bytes to a file, set the position back, read 4096 bytes and log the
  buffer after each step. The first calls the operations of \<^verbatim>\<open>monopoly_ops.c\<close>, the second the names
  that \<^verbatim>\<open>interface.c\<close> interposes. The program's result is what it logs and the state it leaves.
\<close>

section \<open>The programs\<close>

definition hello_path :: "u8 list" where
  "hello_path = spdkfs_prefix @ [104, 101, 108, 108, 111]"

text \<open>What \<^verbatim>\<open>%s\<close> prints of a buffer.\<close>

definition c_string :: "u8 list \<Rightarrow> u8 list" where
  "c_string mem = takeWhile (\<lambda>b. b \<noteq> 0) mem"

text \<open>\<^verbatim>\<open>memset(buffer, b, 4096); buffer[14] = '\0';\<close>\<close>

definition ut_fill :: "u8 \<Rightarrow> u8 list" where
  "ut_fill b = (replicate 4096 b)[14 := 0]"

text \<open>The statements from the first \<^verbatim>\<open>memset\<close> to \<^verbatim>\<open>return\<close>, which the programs share, over the calls
  they make: write the buffer, go to the start, read into the buffer, close.\<close>

definition ut_steps ::
  "(u8 list \<Rightarrow> 's \<Rightarrow> (u64 \<times> u8 list \<times> 's) res) \<Rightarrow> ('s \<Rightarrow> (u64 \<times> 's) res) \<Rightarrow>
     (u8 list \<Rightarrow> 's \<Rightarrow> (u64 \<times> u8 list \<times> 's) res) \<Rightarrow> ('s \<Rightarrow> (int \<times> 's) res) \<Rightarrow> 's \<Rightarrow> (u8 list list \<times> 's) res"
where
  "ut_steps do_write do_seek do_read do_close s =
     bind_res (do_write (ut_fill 65) s) (\<lambda>(n, mem, s1).
     bind_res (do_seek s1) (\<lambda>(off, s2).
     bind_res (do_read (ut_fill 66) s2) (\<lambda>(m, mem', s3).
     bind_res (do_close s3) (\<lambda>(r, s4).
       Inr ([c_string (ut_fill 65), c_string (ut_fill 66), c_string (mem'[14 := 0])], s4)))))"

text \<open>\<^verbatim>\<open>malloc\<close> is the interposed one; a null buffer faults at the \<^verbatim>\<open>memset\<close>.\<close>

definition ut_malloc :: "(u64 \<Rightarrow> u64) \<Rightarrow> (u64 \<Rightarrow> u64) \<Rightarrow> 'b globals \<Rightarrow> (u64 \<times> 'b globals) res" where
  "ut_malloc um sm g =
     bind_res (interposed_malloc um sm 4096 (g_mm g)) (\<lambda>(buffer, calls, mm).
       if buffer = 0 then Inl Null_deref else Inr (buffer, g\<lparr>g_mm := mm\<rparr>))"

text \<open>The first statements: the file is made or, when it exists, opened.\<close>

definition ut_open :: "'b spdk \<Rightarrow> env \<Rightarrow> 'b globals \<Rightarrow> (int \<times> 'b globals) res" where
  "ut_open L e g =
     bind_res (monopoly_create L e hello_path g) (\<lambda>(fd0, g0).
       if fd0 = - 1 then monopoly_open L e hello_path g0 else Inr (fd0, g0))"

definition file_ut_main ::
  "'b spdk \<Rightarrow> env \<Rightarrow> (u64 \<Rightarrow> u64) \<Rightarrow> (u64 \<Rightarrow> u64) \<Rightarrow> 'b globals \<Rightarrow> (u8 list list \<times> 'b globals) res" where
  "file_ut_main L e um sm g =
     bind_res (ut_open L e g) (\<lambda>(fd, g1).
     bind_res (ut_malloc um sm g1) (\<lambda>(buffer, g2).
       ut_steps (\<lambda>mem s. monopoly_write L fd buffer mem 4096 s) (monopoly_lseek L fd 0 SEEK_SET)
         (\<lambda>mem s. monopoly_read L fd buffer mem 4096 s) (monopoly_close L e fd) g2))"

text \<open>\<^verbatim>\<open>creat\<close> is not among the \<open>interposed_names\<close>: its result and its effect on the kernel are parameters.\<close>

definition posix_ut_main ::
  "'b spdk \<Rightarrow> 'k kernel \<Rightarrow> env \<Rightarrow> u64 \<Rightarrow> (u8 list \<Rightarrow> u32 \<Rightarrow> 'k \<Rightarrow> int \<times> 'k) \<Rightarrow> (u64 \<Rightarrow> u64) \<Rightarrow> (u64 \<Rightarrow> u64) \<Rightarrow>
     ('b, 'k) process \<Rightarrow> (u8 list list \<times> ('b, 'k) process) res"
where
  "posix_ut_main L K e va sys_creat um sm p =
     (case sys_creat hello_path O_CREAT (p_kernel p) of (fd0, k) \<Rightarrow>
      let p0 = p\<lparr>p_kernel := k\<rparr> in
      bind_res (if fd0 = - 1 then spdk_open L K e va hello_path O_CREAT p0 else Inr (fd0, p0)) (\<lambda>(fd, p1).
      if \<not> 10000 < fd then Inl Assert_failed
      else bind_res (ut_malloc um sm (p_fs p1)) (\<lambda>(buffer, g2).
        ut_steps (\<lambda>mem s. spdk_write L K fd buffer mem 4096 s) (spdk_lseek L K fd 0 SEEK_SET)
          (\<lambda>mem s. spdk_read L K fd buffer mem 4096 s) (spdk_close L K e fd) (p1\<lparr>p_fs := g2\<rparr>))))"

section \<open>Facts\<close>

lemma install_keeps_mm: "install_file f g = Inr (fd, g') \<Longrightarrow> g_mm g' = g_mm g"
  by (auto simp: install_file_def set_open_file_def bind_res_Inr_iff split: if_splits)

lemma keeps_mm:
  "monopoly_create L e nm g = Inr (fd, g') \<Longrightarrow> g_mm g' = g_mm g"
  "monopoly_open L e nm g = Inr (fd, g') \<Longrightarrow> g_mm g' = g_mm g"
  by (auto simp: monopoly_create_def monopoly_open_def Let_def bind_res_Inr_iff case_prod_beta split: if_splits
      dest: install_keeps_mm)

text \<open>What the logs show of a filled buffer.\<close>

lemma c_string_fill:
  assumes "b \<noteq> 0" and "14 < length mem" and "take 14 mem = replicate 14 b"
  shows "c_string (mem[14 := 0]) = replicate 14 b"
proof -
  have "mem[14 := 0] = take 14 mem @ 0 # drop (Suc 14) mem" by (rule upd_conv_take_nth_drop [OF assms(2)])
  then show ?thesis using assms(1,3) by (simp add: c_string_def takeWhile_append)
qed

lemma ut_fill:
  "length (ut_fill b) = 4096" "take 14 (ut_fill b) = replicate 14 b" "b \<noteq> 0 \<Longrightarrow> c_string (ut_fill b) = replicate 14 b"
proof -
  show l: "length (ut_fill b) = 4096" "take 14 (ut_fill b) = replicate 14 b"
    by (simp_all add: ut_fill_def take_update_cancel)
  have "(ut_fill b)[14 := 0] = ut_fill b" by (simp add: ut_fill_def)
  then show "c_string (ut_fill b) = replicate 14 b" if "b \<noteq> 0"
    using c_string_fill [OF that, of "ut_fill b"] l by simp
qed

text \<open>The stored size of the file, 0 when there is none.\<close>

definition stored_size :: "afs \<Rightarrow> u8 list \<Rightarrow> nat" where
  "stored_size a nm = (case map_of (s_names a) nm of None \<Rightarrow> 0 | Some i \<Rightarrow> snd (the (s_files a i)))"

text \<open>The file with the name \<open>nm\<close> begins with the bytes written.\<close>

definition ut_written :: "afs \<Rightarrow> u8 list \<Rightarrow> bool" where
  "ut_written a nm \<longleftrightarrow> (\<exists>i bs sz. map_of (s_names a) nm = Some i \<and> s_files a i = Some (ut_fill 65 @ bs, sz))"

section \<open>The run on an open file\<close>

text \<open>Memory handed out by the allocator changes which addresses are DMA buffers and nothing else.\<close>

definition with_dma :: "mm_state \<Rightarrow> volume \<Rightarrow> volume" where
  "with_dma mm v = v\<lparr>v_dma := (\<lambda>p. p \<in> owned mm)\<rparr>"

lemma with_dma [simp]:
  "v_unit (with_dma mm v) = v_unit v" "v_cluster (with_dma mm v) = v_cluster v" "v_cap (with_dma mm v) = v_cap v"
  "v_buffer (with_dma mm v) = v_buffer v" "v_super (with_dma mm v) = v_super v" "v_dma (with_dma mm v) p \<longleftrightarrow> p \<in> owned mm"
  by (simp_all add: with_dma_def)

lemma fs_rel_mm:
  assumes "fs_rel L v e M a g" and "mm_inv ub mm"
  shows "fs_rel L (with_dma mm v) e M a (g\<lparr>g_mm := mm\<rparr>)"
proof -
  obtain V H hnd where rel: "fs_world L v e M" "calm_globals v g" "names_rel v a (g_root g)"
      "live_fds (g_fdtable g) = dom (s_open a)" "store_rel v M V H hnd a g"
    by (rule fs_relE [OF assms(1)])
  have fd: "file_of_fd (g\<lparr>g_mm := mm\<rparr>) j = file_of_fd g j" for j by (simp add: file_of_fd_def)
  have "fs_world L (with_dma mm v) e M" using rel(1) by (simp add: fs_world_def geometry_def)
  moreover have "calm_globals (with_dma mm v) (g\<lparr>g_mm := mm\<rparr>)"
    using rel(2) mm_find_owned [OF assms(2)] by (simp add: calm_globals_def)
  moreover have "names_rel (with_dma mm v) a (g_root (g\<lparr>g_mm := mm\<rparr>))" using rel(3) by (simp add: names_rel_def)
  moreover have "store_rel (with_dma mm v) M V H hnd a (g\<lparr>g_mm := mm\<rparr>)"
    using rel(5) fd by (simp add: store_rel_def open_rel_def afile_ok_def root_rel_def)
  ultimately show ?thesis using rel(4) by (intro fs_relI) simp_all
qed

lemma ut_malloc_dma:
  assumes "mm_inv ub (g_mm g)" and "card (live_entries (g_mm g)) < 4095" and "sm 4096 \<noteq> 0" and "sm 4096 \<notin> owned (g_mm g)"
  shows "\<exists>mm. ut_malloc um sm g = Inr (sm 4096, g\<lparr>g_mm := mm\<rparr>) \<and> mm_inv ub mm \<and> owned mm = insert (sm 4096) (owned (g_mm g))"
proof -
  obtain d where "d < 4095" "d \<notin> live_entries (g_mm g)" using free_entry [OF assms(1,2)] by blast
  then obtain mm where "spdkfs_malloc um sm 4096 (g_mm g) = Inr (sm 4096, [Spdk_malloc 4096], mm)" "mm_inv ub mm"
      "owned mm = insert (sm 4096) (owned (g_mm g))"
    using mm_malloc_spdk [of ub "g_mm g" 4096 sm d um] assms by auto
  then show ?thesis
    using assms(1,3) by (auto simp: ut_malloc_def interposed_malloc_def spdkfs_mm_inited_def mm_inv_def)
qed

text \<open>The three transfers on the abstract file.\<close>

definition ut_volume :: "volume \<Rightarrow> bool" where
  "ut_volume v \<longleftrightarrow> unat (v_unit v) dvd 4096 \<and> 4096 \<le> unat (v_cluster v) \<and> 4096 + unat (v_cluster v) \<le> v_cap v"

lemma ut_afile:
  assumes "ut_volume v" and "v_dma v buf" and "buf \<noteq> 0" and "D = ut_fill 65 @ drop 4096 bs"
  shows "afile_call v (Write_call buf (ut_fill 65) 4096) \<lparr>a_data = bs, a_size = sz, a_pos = 0\<rparr> =
      Some ((4096, ut_fill 65), \<lparr>a_data = D, a_size = sz, a_pos = 4096\<rparr>)"
    and "afile_call v (Seek_call 0 SEEK_SET) \<lparr>a_data = D, a_size = sz, a_pos = 4096\<rparr> =
      Some ((0, []), \<lparr>a_data = D, a_size = sz, a_pos = 0\<rparr>)"
    and "afile_call v (Read_call buf (ut_fill 66) 4096) \<lparr>a_data = D, a_size = sz, a_pos = 0\<rparr> =
      (if 4096 \<le> sz then Some ((4096, ut_fill 65), \<lparr>a_data = D, a_size = sz, a_pos = 4096\<rparr>)
       else Some ((0, ut_fill 66), \<lparr>a_data = D, a_size = sz, a_pos = 0\<rparr>))"
proof -
  have al: "aligned_size v 4096 = 4096" using assms(1) by (auto simp: ut_volume_def aligned_size_def)
  have k: "piece v buf 4096 = 4096" using assms(2) by (simp add: piece_def)
  show "afile_call v (Write_call buf (ut_fill 65) 4096) \<lparr>a_data = bs, a_size = sz, a_pos = 0\<rparr> =
      Some ((4096, ut_fill 65), \<lparr>a_data = D, a_size = sz, a_pos = 4096\<rparr>)"
    using assms al k by (simp add: ut_fill(1) write_allowed_def ut_volume_def recorded_once)
  show "afile_call v (Seek_call 0 SEEK_SET) \<lparr>a_data = D, a_size = sz, a_pos = 4096\<rparr> =
      Some ((0, []), \<lparr>a_data = D, a_size = sz, a_pos = 0\<rparr>)"
    by (simp add: seek_target_def)
  have "served 4096 4096 sz = (if 4096 \<le> sz then 4096 else 0)" by (simp add: served_def)
  then show "afile_call v (Read_call buf (ut_fill 66) 4096) \<lparr>a_data = D, a_size = sz, a_pos = 0\<rparr> =
      (if 4096 \<le> sz then Some ((4096, ut_fill 65), \<lparr>a_data = D, a_size = sz, a_pos = 4096\<rparr>)
       else Some ((0, ut_fill 66), \<lparr>a_data = D, a_size = sz, a_pos = 0\<rparr>))"
    using assms(3,4) al k by (simp add: ut_fill(1))
qed

text \<open>One call through a descriptor, in the form the program makes it.\<close>

lemma fs_io:
  assumes "fs_rel L v e M a g" and "s_open a fd = Some o'" and "afile_call v c (view a o') = Some (x, w)"
  obtains g' where "file_call L (int fd) c g = Inr (x, g')" and "fs_rel L v e M (after_io (moved_bytes c x) fd o' w a) g'"
proof -
  obtain g' where "fs_impl L e (Io fd c) g = Inr (Moved x, g')" "fs_rel L v e M (after_io (moved_bytes c x) fd o' w a) g'"
    using io_fs_step [OF assms] by blast
  then show thesis by (intro that [of g']) (auto simp: fs_impl_def bind_res_Inr_iff)
qed

definition ut_done :: "nat \<Rightarrow> blob_id \<Rightarrow> u8 list \<Rightarrow> nat \<Rightarrow> afs \<Rightarrow> afs" where
  "ut_done fd i bs sz a =
     a\<lparr>s_files := (s_files a)(i \<mapsto> (ut_fill 65 @ drop 4096 bs, sz)), s_open := (s_open a)(fd := None)\<rparr>"

definition ut_logs :: "nat \<Rightarrow> u8 list list" where
  "ut_logs sz = [replicate 14 65, replicate 14 66, replicate 14 (if 4096 \<le> sz then 65 else 66)]"

lemma ut_steps_run:
  assumes "fs_rel L v e M a g" and "s_open a fd = Some \<lparr>o_id = i, o_size = sz, o_pos = 0\<rparr>"
    and "s_files a i = Some (bs, s0)" and "ut_volume v" and "v_dma v buf" and "buf \<noteq> 0"
  shows "\<exists>g'. ut_steps (\<lambda>mem s. monopoly_write L (int fd) buf mem 4096 s) (monopoly_lseek L (int fd) 0 SEEK_SET)
       (\<lambda>mem s. monopoly_read L (int fd) buf mem 4096 s) (monopoly_close L e (int fd)) g = Inr (ut_logs sz, g') \<and>
     fs_rel L v e M (ut_done fd i bs sz a) g'"
proof -
  define D where "D = ut_fill 65 @ drop 4096 bs"
  note io = ut_afile [OF assms(4-6) D_def, of sz]
  let ?st = "\<lambda>s p. a\<lparr>s_files := (s_files a)(i \<mapsto> (D, s)), s_open := (s_open a)(fd \<mapsto> \<lparr>o_id = i, o_size = sz, o_pos = p\<rparr>)\<rparr>"
  have "view a \<lparr>o_id = i, o_size = sz, o_pos = 0\<rparr> = \<lparr>a_data = bs, a_size = sz, a_pos = 0\<rparr>"
    using assms(3) by (simp add: view_def)
  note w = io(1) [folded this]
  have o': "s_open (?st sz p) fd = Some \<lparr>o_id = i, o_size = sz, o_pos = p\<rparr>" for p by simp
  have v: "\<lparr>a_data = D, a_size = sz, a_pos = p\<rparr> = view (?st sz p) \<lparr>o_id = i, o_size = sz, o_pos = p\<rparr>" for p
    by (simp add: view_def)
  obtain g1 where g1: "file_call L (int fd) (Write_call buf (ut_fill 65) 4096) g = Inr ((4096, ut_fill 65), g1)"
      "fs_rel L v e M (?st sz 4096) g1"
    by (rule fs_io [OF assms(1,2) w]) (simp add: after_io_def moved_bytes_def)
  obtain g2 where g2: "file_call L (int fd) (Seek_call 0 SEEK_SET) g1 = Inr ((0, []), g2)" "fs_rel L v e M (?st sz 0) g2"
    by (rule fs_io [OF g1(2) o' io(2) [unfolded v]]) (simp add: after_io_def moved_bytes_def view_def)
  obtain g3 m p where g3: "file_call L (int fd) (Read_call buf (ut_fill 66) 4096) g2 =
        Inr ((m, if 4096 \<le> sz then ut_fill 65 else ut_fill 66), g3)" "fs_rel L v e M (?st sz p) g3"
  proof (cases "4096 \<le> sz")
    case True
    then have "afile_call v (Read_call buf (ut_fill 66) 4096) (view (?st sz 0) \<lparr>o_id = i, o_size = sz, o_pos = 0\<rparr>) =
        Some ((4096, ut_fill 65), \<lparr>a_data = D, a_size = sz, a_pos = 4096\<rparr>)" using io(3) v [of 0] by simp
    then obtain g3 where "file_call L (int fd) (Read_call buf (ut_fill 66) 4096) g2 = Inr ((4096, ut_fill 65), g3)"
        "fs_rel L v e M (?st sz 4096) g3"
      by (rule fs_io [OF g2(2) o']) (simp add: after_io_def moved_bytes_def)
    then show thesis using True by (intro that [of 4096 g3 4096]) simp_all
  next
    case False
    then have "afile_call v (Read_call buf (ut_fill 66) 4096) (view (?st sz 0) \<lparr>o_id = i, o_size = sz, o_pos = 0\<rparr>) =
        Some ((0, ut_fill 66), \<lparr>a_data = D, a_size = sz, a_pos = 0\<rparr>)" using io(3) v [of 0] by simp
    then obtain g3 where "file_call L (int fd) (Read_call buf (ut_fill 66) 4096) g2 = Inr ((0, ut_fill 66), g3)"
        "fs_rel L v e M (?st sz 0) g3"
      by (rule fs_io [OF g2(2) o']) (simp add: after_io_def moved_bytes_def)
    then show thesis using False by (intro that [of 0 g3 0]) simp_all
  qed
  obtain r a4 g4 where "fs_impl L e (Close_file fd) g3 = Inr (r, g4)" "fs_spec v (Close_file fd) (?st sz p) r a4"
      "fs_rel L v e M a4 g4"
    using fs_step_refines [OF g3(2), of "Close_file fd"] by auto
  then have g4: "\<exists>n. monopoly_close L e (int fd) g3 = Inr (n, g4)" "fs_rel L v e M (ut_done fd i bs sz a) g4"
    by (auto simp: fs_impl_def bind_res_Inr_iff ut_done_def D_def)
  have "monopoly_write L (int fd) buf (ut_fill 65) 4096 g = Inr (4096, ut_fill 65, g1)"
    "monopoly_lseek L (int fd) 0 SEEK_SET g1 = Inr (0, g2)"
    "monopoly_read L (int fd) buf (ut_fill 66) 4096 g2 = Inr (m, if 4096 \<le> sz then ut_fill 65 else ut_fill 66, g3)"
    using g1(1) g2(1) g3(1) by (auto simp: file_call_def bind_res_Inr_iff)
  moreover have "c_string ((if 4096 \<le> sz then ut_fill 65 else ut_fill 66)[14 := 0]) = replicate 14 (if 4096 \<le> sz then 65 else 66)"
    using c_string_fill [of 65 "ut_fill 65"] c_string_fill [of 66 "ut_fill 66"] ut_fill(1,2) by simp
  ultimately show ?thesis
    using g4 ut_fill(3) [of 65] ut_fill(3) [of 66] by (auto simp: ut_steps_def ut_logs_def)
qed

section \<open>Opening the file\<close>

lemma hello_ok: "name_ok hello_path" "0 \<notin> set hello_path" "spdk_ptop_blobfile hello_path = Inr True"
proof -
  show "name_ok hello_path" "0 \<notin> set hello_path"
    by (simp_all add: name_ok_def hello_path_def spdkfs_prefix_def SPDK_MAX_NAME_COUNT_def)
  then show "spdk_ptop_blobfile hello_path = Inr True" using blobfile_iff by (auto simp: hello_path_def)
qed

lemma names_file:
  assumes "fs_rel L v e M a g" and "map_of (s_names a) nm = Some i"
  obtains bs sz where "s_files a i = Some (bs, sz)"
proof -
  have "snd ` set (s_names a) \<subseteq> dom (s_files a)" using assms(1) by (simp add: fs_rel_def names_rel_def)
  moreover have "i \<in> snd ` set (s_names a)" using map_of_SomeD [OF assms(2)] by (metis image_eqI snd_conv)
  ultimately show thesis using that by auto
qed

lemma ut_open_run:
  assumes "fs_rel L v e M a g" and "fs_allowed v (Make hello_path) a" and "card (dom (s_open a)) < 255"
  shows "\<exists>fd i g' a' bs sz. ut_open L e g = Inr (int fd, g') \<and> fs_rel L v e M a' g' \<and> g_mm g' = g_mm g \<and>
     map_of (s_names a') hello_path = Some i \<and> s_files a' i = Some (bs, sz) \<and> sz = stored_size a hello_path \<and>
     s_open a' fd = Some \<lparr>o_id = i, o_size = sz, o_pos = 0\<rparr>"
proof -
  obtain r a1 g1 where m: "fs_impl L e (Make hello_path) g = Inr (r, g1)" "fs_spec v (Make hello_path) a r a1" "fs_rel L v e M a1 g1"
    using fs_step_refines [OF assms(1,2)] by blast
  then obtain fd0 where fd0: "monopoly_create L e hello_path g = Inr (fd0, g1)" "r = Fd fd0"
    by (auto simp: fs_impl_def bind_res_Inr_iff)
  note mm = keeps_mm(1) [OF fd0(1)]
  show ?thesis
  proof (cases "hello_path \<in> fst ` set (s_names a)")
    case True
    then have same: "fd0 = - 1" "a1 = a" using m(2) fd0(2) by simp_all
    obtain i where i: "map_of (s_names a) hello_path = Some i" using True map_of_eq_None_iff by fastforce
    obtain bs sz where f: "s_files a i = Some (bs, sz)"
      by (rule names_file [OF assms(1) i])
    obtain r2 a2 g2 where o2: "fs_impl L e (Open_file hello_path) g1 = Inr (r2, g2)"
        "fs_spec v (Open_file hello_path) a r2 a2" "fs_rel L v e M a2 g2"
      using fs_step_refines [of L v e M a g1 "Open_file hello_path"] m(3) same(2) assms(3) hello_ok(1) by auto
    then obtain fd where fd: "monopoly_open L e hello_path g1 = Inr (int fd, g2)"
        "a2 = a\<lparr>s_open := (s_open a)(fd \<mapsto> \<lparr>o_id = i, o_size = sz, o_pos = 0\<rparr>)\<rparr>"
      using i f by (auto simp: fs_impl_def bind_res_Inr_iff)
    then have "ut_open L e g = Inr (int fd, g2)" using fd0 same(1) by (simp add: ut_open_def)
    then show ?thesis
      using o2(3) keeps_mm(2) [OF fd(1)] mm i f fd(2)
      by (intro exI [of _ fd] exI [of _ i] exI [of _ g2] exI [of _ a2] exI [of _ bs] exI [of _ sz])
        (simp add: stored_size_def)
  next
    case False
    then obtain fd i where n: "fd0 = int fd" "a1 = a\<lparr>s_names := s_names a @ [(hello_path, i)], s_spare := s_spare a - 1,
        s_files := (s_files a)(i \<mapsto> ([], 0)), s_open := (s_open a)(fd \<mapsto> \<lparr>o_id = i, o_size = 0, o_pos = 0\<rparr>)\<rparr>"
      using m(2) fd0(2) by auto
    have "map_of (s_names a) hello_path = None" using False by (simp add: map_of_eq_None_iff)
    then show ?thesis
      using m(3) fd0 mm n
      by (intro exI [of _ fd] exI [of _ i] exI [of _ g1] exI [of _ a1] exI [of _ "[]"] exI [of _ 0])
        (simp add: stored_size_def map_add_def ut_open_def)
  qed
qed

text \<open>What the state of the file system and the allocator must allow.\<close>

definition ut_ready ::
  "'b spdk \<Rightarrow> volume \<Rightarrow> env \<Rightarrow> (nat \<Rightarrow> 'b \<Rightarrow> contents \<Rightarrow> handles \<Rightarrow> bool) \<Rightarrow> (u64 \<Rightarrow> u64) \<Rightarrow> afs \<Rightarrow> 'b globals \<Rightarrow> bool"
where
  "ut_ready L v e M sm a g \<longleftrightarrow> fs_rel L v e M a g \<and> fs_allowed v (Make hello_path) a \<and> card (dom (s_open a)) < 255 \<and>
     ut_volume v \<and> (\<exists>ub. mm_inv ub (g_mm g)) \<and> card (live_entries (g_mm g)) < 4095 \<and>
     sm 4096 \<noteq> 0 \<and> sm 4096 \<notin> owned (g_mm g)"

lemma file_ut_run:
  assumes "ut_ready L v e M sm a g"
  shows "\<exists>g' a' v'. file_ut_main L e um sm g = Inr (ut_logs (stored_size a hello_path), g') \<and> fs_rel L v' e M a' g' \<and>
     ut_written a' hello_path \<and> stored_size a' hello_path = stored_size a hello_path"
proof -
  have u: "fs_rel L v e M a g" "fs_allowed v (Make hello_path) a" "card (dom (s_open a)) < 255" "ut_volume v"
      "card (live_entries (g_mm g)) < 4095" "sm 4096 \<noteq> 0" "sm 4096 \<notin> owned (g_mm g)"
    using assms unfolding ut_ready_def by blast+
  obtain ub where ub: "mm_inv ub (g_mm g)" using assms unfolding ut_ready_def by blast
  obtain fd i g1 a1 bs sz where o1: "ut_open L e g = Inr (int fd, g1)" "fs_rel L v e M a1 g1" "g_mm g1 = g_mm g"
      "map_of (s_names a1) hello_path = Some i" "s_files a1 i = Some (bs, sz)" "sz = stored_size a hello_path"
      "s_open a1 fd = Some \<lparr>o_id = i, o_size = sz, o_pos = 0\<rparr>"
    using ut_open_run [OF u(1-3)] by blast
  obtain mm where mm: "ut_malloc um sm g1 = Inr (sm 4096, g1\<lparr>g_mm := mm\<rparr>)" "mm_inv ub mm"
      "owned mm = insert (sm 4096) (owned (g_mm g1))"
    using ut_malloc_dma [of ub g1 sm um] o1(3) ub u(5-7) by auto
  have "ut_volume (with_dma mm v)" "v_dma (with_dma mm v) (sm 4096)" using u(4) mm(3) by (simp_all add: ut_volume_def)
  from ut_steps_run [OF fs_rel_mm [OF o1(2) mm(2)] o1(7,5) this u(6)] obtain g' where
    g': "ut_steps (\<lambda>mem s. monopoly_write L (int fd) (sm 4096) mem 4096 s) (monopoly_lseek L (int fd) 0 SEEK_SET)
       (\<lambda>mem s. monopoly_read L (int fd) (sm 4096) mem 4096 s) (monopoly_close L e (int fd)) (g1\<lparr>g_mm := mm\<rparr>) =
       Inr (ut_logs sz, g')" "fs_rel L (with_dma mm v) e M (ut_done fd i bs sz a1) g'" by blast
  have "file_ut_main L e um sm g = Inr (ut_logs sz, g')" using o1(1) mm(1) g'(1) by (simp add: file_ut_main_def)
  moreover have "ut_written (ut_done fd i bs sz a1) hello_path" "stored_size (ut_done fd i bs sz a1) hello_path = sz"
    using o1(4) by (simp_all add: ut_written_def stored_size_def ut_done_def)
  ultimately show ?thesis using g'(2) o1(6) by blast
qed

section \<open>The same steps through the interposed names\<close>

lemma shift_steps:
  assumes "ut_steps (\<lambda>mem s. monopoly_write L fd buf mem 4096 s) (monopoly_lseek L fd 0 SEEK_SET)
       (\<lambda>mem s. monopoly_read L fd buf mem 4096 s) (monopoly_close L e fd) (p_fs p) = Inr (logs, g')" and "0 \<le> fd"
  shows "ut_steps (\<lambda>mem s. spdk_write L K (TESTFD + fd) buf mem 4096 s) (spdk_lseek L K (TESTFD + fd) 0 SEEK_SET)
       (\<lambda>mem s. spdk_read L K (TESTFD + fd) buf mem 4096 s) (spdk_close L K e (TESTFD + fd)) p = Inr (logs, p\<lparr>p_fs := g'\<rparr>)"
  using assms
  by (auto simp: ut_steps_def spdk_write_def spdk_lseek_def spdk_read_def spdk_close_def on_fs_def bind_res_Inr_iff)

lemma ut_steps_fd:
  assumes "ut_steps (\<lambda>mem s. monopoly_write L fd buf mem 4096 s) sk rd cl g = Inr r"
  shows "0 \<le> fd"
proof (rule ccontr)
  assume "\<not> 0 \<le> fd"
  then have "file_of_fd g fd = Inl Out_of_bounds" by (simp add: file_of_fd_def)
  then have "monopoly_write L fd buf (ut_fill 65) 4096 g = Inl (if fd = - 1 then Assert_failed else Out_of_bounds)"
    by (simp add: monopoly_write_def)
  then show False using assms by (simp add: ut_steps_def)
qed

section \<open>Properties\<close>


definition ut_globals :: "mem_bs globals" where
  "ut_globals = small_globals\<lparr>g_mm := example_mm\<rparr>"

lemma ut_small_ready: "ut_ready (mem_lib 1024 4096) (with_dma example_mm (small_volume 4096)) lookup_env (mem_fs 4096)
    (\<lambda>_. 131072) (empty_fs 10) ut_globals"
proof -
  have "fs_rel (mem_lib 1024 4096) (small_volume 4096) lookup_env (mem_fs 4096) (empty_fs 10) small_globals"
    by (rule small_empty_rel) simp_all
  from fs_rel_mm [OF this example_mm(1)]
  have "fs_rel (mem_lib 1024 4096) (with_dma example_mm (small_volume 4096)) lookup_env (mem_fs 4096) (empty_fs 10) ut_globals"
    by (simp add: ut_globals_def)
  moreover have "g_mm ut_globals = example_mm" by (simp add: ut_globals_def)
  moreover have "ut_volume (with_dma example_mm (small_volume 4096))" by (simp add: ut_volume_def small_volume_def)
  moreover have "fs_allowed (with_dma example_mm (small_volume 4096)) (Make hello_path) (empty_fs 10)"
    using hello_ok(1) by (simp add: empty_fs_def dir_limit_def)
  ultimately show ?thesis
    using example_mm example_mm_card unfolding ut_ready_def by (auto simp: empty_fs_def)
qed


text \<open>C19. \<open>posix_ut\<close> is \<open>file_ut\<close> through the interposed names: when the kernel cannot create the path,
  whatever \<open>file_ut\<close> would log and leave on the file system, \<open>posix_ut\<close> logs and leaves, and the
  kernel sees nothing but the \<^verbatim>\<open>creat\<close>. When the kernel can, as in a directory \<^verbatim>\<open>spdkfs\<close>, the program
  stops at its assertion.\<close>

theorem posix_ut_output:
  assumes "fd_ok (g_fdtable (p_fs p))" and "file_ut_main L e um sm (p_fs p) = Inr (logs, g')"
  shows "(sys_creat hello_path O_CREAT (p_kernel p) = (- 1, k) \<longrightarrow>
       posix_ut_main L K e va sys_creat um sm p = Inr (logs, p\<lparr>p_kernel := k, p_fs := g'\<rparr>)) \<and>
     (sys_creat hello_path O_CREAT (p_kernel p) = (fd, k) \<longrightarrow> 0 \<le> fd \<longrightarrow> fd \<le> 10000 \<longrightarrow>
       posix_ut_main L K e va sys_creat um sm p = Inl Assert_failed)"
proof (intro conjI impI)
  assume creat: "sys_creat hello_path O_CREAT (p_kernel p) = (- 1, k)"
  let ?p = "p\<lparr>p_kernel := k\<rparr>"
  obtain fd1 g1 buf g2 where r: "ut_open L e (p_fs p) = Inr (fd1, g1)" "ut_malloc um sm g1 = Inr (buf, g2)"
      "ut_steps (\<lambda>mem s. monopoly_write L fd1 buf mem 4096 s) (monopoly_lseek L fd1 0 SEEK_SET)
         (\<lambda>mem s. monopoly_read L fd1 buf mem 4096 s) (monopoly_close L e fd1) g2 = Inr (logs, g')"
    using assms(2) by (auto simp: file_ut_main_def bind_res_Inr_iff)
  note nonneg = ut_steps_fd [OF r(3)]
  have "fd_ok (g_fdtable (p_fs ?p))" using assms(1) by simp
  from spdk_open_blobfile [OF hello_ok(3) this, of L K e va O_CREAT]
  have "spdk_open L K e va hello_path O_CREAT ?p = Inr (TESTFD + fd1, ?p\<lparr>p_fs := g1\<rparr>)"
    using r(1) by (auto simp: ut_open_def bind_res_Inr_iff split: if_splits)
  moreover have "ut_steps (\<lambda>mem s. spdk_write L K (TESTFD + fd1) buf mem 4096 s) (spdk_lseek L K (TESTFD + fd1) 0 SEEK_SET)
       (\<lambda>mem s. spdk_read L K (TESTFD + fd1) buf mem 4096 s) (spdk_close L K e (TESTFD + fd1)) (?p\<lparr>p_fs := g2\<rparr>) =
       Inr (logs, ?p\<lparr>p_fs := g'\<rparr>)"
    using shift_steps [of L fd1 buf e "?p\<lparr>p_fs := g2\<rparr>" logs g' K] r(3) nonneg by simp
  ultimately show "posix_ut_main L K e va sys_creat um sm p = Inr (logs, p\<lparr>p_kernel := k, p_fs := g'\<rparr>)"
    using creat nonneg r(2) by (simp add: posix_ut_main_def TESTFD_def)
next
  assume "sys_creat hello_path O_CREAT (p_kernel p) = (fd, k)" "0 \<le> fd" "fd \<le> 10000"
  then show "posix_ut_main L K e va sys_creat um sm p = Inl Assert_failed" by (simp add: posix_ut_main_def)
qed

theorem posix_ut_output_witness:
  "\<exists>g'. posix_ut_main (mem_lib 1024 4096) count_kernel lookup_env 0 (\<lambda>path mode k. (- 1, k)) (\<lambda>_. 1) (\<lambda>_. 131072)
     \<lparr>p_fs = ut_globals, p_kernel = 3, p_open_found = True\<rparr> =
     Inr ([replicate 14 65, replicate 14 66, replicate 14 66], \<lparr>p_fs = g', p_kernel = 3, p_open_found = True\<rparr>)"
proof -
  let ?p = "\<lparr>p_fs = ut_globals, p_kernel = 3 :: nat, p_open_found = True\<rparr>"
  have "fd_ok (g_fdtable ut_globals)"
    using fdtable_zero_ok by (simp add: ut_globals_def small_globals_def example_globals_def)
  moreover have "stored_size (empty_fs 10) hello_path = 0" by (simp add: stored_size_def empty_fs_def)
  then obtain g' where "file_ut_main (mem_lib 1024 4096) lookup_env (\<lambda>_. 1) (\<lambda>_. 131072) ut_globals =
      Inr ([replicate 14 65, replicate 14 66, replicate 14 66], g')"
    using file_ut_run [OF ut_small_ready, of "\<lambda>_. 1"] by (auto simp: ut_logs_def)
  ultimately show ?thesis
    using posix_ut_output [of ?p "mem_lib 1024 4096" lookup_env "\<lambda>_. 1" "\<lambda>_. 131072"
      "[replicate 14 65, replicate 14 66, replicate 14 66]" g' "\<lambda>path mode k. (- 1, k)" 3 count_kernel 0] by auto
qed

end
