(* ===== verification/Restart.thy ===== *)
theory Restart
  imports Fs_Refine Boot
begin

text \<open>
  One process after another: unloading the library in one process and loading it in the next. The
  file system that the second process finds is the one the first left, name by name and byte by
  byte, over every library that is durable: what is in the store when the blobstore is unloaded is
  there when it is mounted again.
\<close>

section \<open>Durability\<close>

text \<open>The requests of an unload, with the handle \<open>h\<close> of the super blob, complete and lead to a state
  that satisfies \<open>P\<close>.\<close>

definition unloads :: "'b spdk \<Rightarrow> blob \<Rightarrow> 'b \<Rightarrow> ('b \<Rightarrow> bool) \<Rightarrow> bool" where
  "unloads L h b P \<longleftrightarrow> (\<exists>k1 c1 b1 k2 c2 b2 k3 c3 b3.
     lib_completes L k1 (submit L (Blob_close h) b) c1 b1 \<and> k1 < POLLER_MAX_TIME \<and>
     lib_completes L k2 (submit L Bs_unload (free_io_channel L b1)) c2 b2 \<and> k2 < POLLER_MAX_TIME \<and>
     lib_completes L k3 (submit L Subsystem_fini b2) c3 b3 \<and> k3 < POLLER_MAX_TIME \<and> P b3)"

text \<open>\<open>remounts b b' h\<close>: a process left the library in the state \<open>b\<close>, and mounting it again gives the
  state \<open>b'\<close> with the handle \<open>h\<close> of the super blob. The requests of an unload complete, and the next
  mount finds the blobs and the attribute of the super blob, with its handle the only one.\<close>

definition durable ::
  "'b spdk \<Rightarrow> (nat \<Rightarrow> 'b \<Rightarrow> contents \<Rightarrow> handles \<Rightarrow> bool) \<Rightarrow> blob_id \<Rightarrow> ('b \<Rightarrow> 'b \<Rightarrow> blob \<Rightarrow> bool) \<Rightarrow> bool"
where
  "durable L M si remounts \<longleftrightarrow> (\<forall>r b V H h x. M r b V H \<and> H h = Some (si, 1) \<longrightarrow>
     unloads L h (set_xattr L h dir_xattr x b)
       (\<lambda>b3. \<forall>b' h'. remounts b3 b' h' \<longrightarrow> M r b' V [h' \<mapsto> (si, 1)] \<and> get_xattr L b' h' dir_xattr = Some x))"

lemma durableD:
  assumes "durable L M si remounts" and "M r b V H" and "H h = Some (si, 1)"
  obtains k1 c1 b1 k2 c2 b2 k3 c3 b3 where
    "lib_completes L k1 (submit L (Blob_close h) (set_xattr L h dir_xattr x b)) c1 b1" and "k1 < POLLER_MAX_TIME"
    and "lib_completes L k2 (submit L Bs_unload (free_io_channel L b1)) c2 b2" and "k2 < POLLER_MAX_TIME"
    and "lib_completes L k3 (submit L Subsystem_fini b2) c3 b3" and "k3 < POLLER_MAX_TIME"
    and "\<And>b' h'. remounts b3 b' h' \<Longrightarrow> M r b' V [h' \<mapsto> (si, 1)] \<and> get_xattr L b' h' dir_xattr = Some x"
proof -
  note d = assms(1) [unfolded durable_def unloads_def, rule_format, of r b V H h x, OF conjI [OF assms(2,3)]]
  show thesis using d that by blast
qed

section \<open>The root directory in its blob\<close>

definition with_entries :: "spdkfs_dir \<Rightarrow> u8 list \<Rightarrow> u8 list" where
  "with_entries dir D = overwrite 0 (dirents dir) D"

text \<open>What \<open>unload_simple_spdk_fs\<close> needs of the root, and what it stores.\<close>

lemma root_fits:
  assumes "fs_rel L v e M a g" and "s_names a \<noteq> []"
    and "d_size (dir_persist (g_root g)) \<le> get_blob_size L (d_blob (g_root g)) (g_thread g)"
  obtains V H hnd D x where "store_rel v M V H hnd a g" and "V (v_super v) = Some (D, x)"
    and "in_range (v_unit v) D 0 (d_size (dir_persist (g_root g)))"
    and "length (dirents (g_root g)) = unat (d_size (dir_persist (g_root g)))"
proof -
  let ?dir = "g_root g" and ?sz = "d_size (dir_persist (g_root g))"
  obtain V H hnd where rel: "fs_world L v e M" "calm_globals v g" "names_rel v a ?dir" "store_rel v M V H hnd a g"
    by (rule fs_relE [OF assms(1)])
  note st = store_relD [OF rel(4)] and bl = blobstoreD [OF fs_worldD(1) [OF rel(1)]]
  have H: "H (d_blob ?dir) = Some (v_super v, 1)" using st(5) by (simp add: root_rel_def)
  obtain D x where V: "V (v_super v) = Some (D, x)" using st(5) by (auto simp: root_rel_def)
  note hl = handle_lawsD [OF bl(7) [OF st(1) H] V]
  have "unat (get_blob_size L (d_blob ?dir) (g_thread g)) = length D"
    using hl(4,5) bl(5) [OF st(1)]
    by (simp add: get_blob_size_def unat_word_ariths take_bit_nat_eq_self flip: take_bit_eq_mod)
  then have le: "unat ?sz \<le> length D" using assms(3) by (simp add: word_le_nat_alt)
  have dh: "dir_holds (v_unit v) ?dir (s_names a)" "unat (v_unit v) dvd unat ?sz" using rel(3) by (simp_all add: names_rel_def)
  note d = dir_holdsD [OF dh(1)]
  have "0 < sizeof_dirent * length (s_names a)" using assms(2) by (simp add: sizeof_dirent_def)
  also have "\<dots> \<le> length (dirents ?dir)" using held_entries [OF dh(1), of 0] assms(2) by simp
  finally have "?sz \<noteq> 0" using d(1) by (auto simp: dir_room_def)
  then have "in_range (v_unit v) D 0 ?sz" using le dh(2) by (simp add: in_range_def)
  then show thesis using that [OF rel(4) V] d(1) by (simp add: dir_room_def)
qed

lemma entries_stored:
  assumes "length (dirents dir) \<le> length D"
  shows "take (length (dirents dir)) (with_entries dir D) = dirents dir" and "length (with_entries dir D) = length D"
  using assms by (simp_all add: with_entries_def overwrite_def)

text \<open>The unload, and the store the next process finds.\<close>

lemma unload_leaves:
  assumes "fs_rel L v e M a g" and "s_names a \<noteq> []" and "d_dirty (g_root g)"
    and "d_size (dir_persist (g_root g)) \<le> get_blob_size L (d_blob (g_root g)) (g_thread g)"
    and "mm_inv ub (g_mm g)" and "durable L M (v_super v) remounts"
  obtains g1 V D x where "unload_simple_spdk_fs L e g = Inr ([], g1)" and "files_rel V (s_files a)"
    and "V (v_super v) = Some (D, x)" and "in_range (v_unit v) D 0 (d_size (dir_persist (g_root g)))"
    and "take (unat (d_size (dir_persist (g_root g)))) D = dirents (g_root g)"
    and "\<And>b h. remounts (lib (g_thread g1)) b h \<Longrightarrow> M (s_spare a) b V [h \<mapsto> (v_super v, 1)] \<and>
       get_xattr L b h dir_xattr = Some (Dir_ctx (dir_persist (g_root g)))"
proof -
  let ?dir = "g_root g" and ?sz = "d_size (dir_persist (g_root g))"
  obtain V H hnd D x where s: "store_rel v M V H hnd a g" "V (v_super v) = Some (D, x)"
      "in_range (v_unit v) D 0 ?sz" "length (dirents ?dir) = unat ?sz"
    by (rule root_fits [OF assms(1,2,4)])
  obtain rel: "fs_world L v e M" "calm_globals v g" by (rule fs_relE [OF assms(1)])
  note w = fs_worldD [OF rel(1)] and cg = calm_globalsD [OF rel(2)] and st = store_relD [OF s(1)] and bl = blobstoreD [OF w(1)]
  have H: "H (d_blob ?dir) = Some (v_super v, 1)" using st(5) by (simp add: root_rel_def)
  note hl = handle_lawsD [OF bl(7) [OF st(1) H] s(2)]
  have le: "length (dirents ?dir) \<le> length D" using s(3,4) by (simp add: in_range_def)
  define D1 where "D1 = with_entries ?dir D"
  define V1 where "V1 = V(v_super v \<mapsto> (D1, x))"
  obtain b0 where b0: "write_done L (lib (g_thread g)) (d_blob ?dir) 0 ?sz (dirents ?dir) 0 b0" "M (s_spare a) b0 V1 H"
    using hl(9) [OF s(3), of "dirents ?dir"] s(4) unfolding V1_def D1_def with_entries_def by auto
  obtain k1 c1 b1 k2 c2 b2 k3 c3 b3 where c:
    "lib_completes L k1 (submit L (Blob_close (d_blob ?dir)) (set_xattr L (d_blob ?dir) dir_xattr (Dir_ctx (dir_persist ?dir)) b0)) c1 b1"
    "k1 < POLLER_MAX_TIME" "lib_completes L k2 (submit L Bs_unload (free_io_channel L b1)) c2 b2" "k2 < POLLER_MAX_TIME"
    "lib_completes L k3 (submit L Subsystem_fini b2) c3 b3" "k3 < POLLER_MAX_TIME"
    "\<And>b' h'. remounts b3 b' h' \<Longrightarrow> M (s_spare a) b' V1 [h' \<mapsto> (v_super v, 1)] \<and>
       get_xattr L b' h' dir_xattr = Some (Dir_ctx (dir_persist ?dir))"
    by (rule durableD [where H = H, OF assms(6) b0(2) H]) (rule that)
  obtain g1 where g1: "unload_simple_spdk_fs L e g = Inr ([], g1)" "settled b3 (g_thread g1)"
    using unload_done [OF cg(1) w(3) assms(5) refl assms(3,4) b0(1) c(1-6)] by blast
  have "v_super v \<notin> dom (s_files a)" using st(5) by (simp add: root_rel_def)
  then have "files_rel V1 (s_files a)" using st(2) by (auto simp: files_rel_def V1_def)
  moreover have "V1 (v_super v) = Some (D1, x)" by (simp add: V1_def)
  moreover have "in_range (v_unit v) D1 0 ?sz" "take (unat ?sz) D1 = dirents ?dir"
    using entries_stored [OF le] s(3,4) by (simp_all add: D1_def in_range_def)
  moreover have "lib (g_thread g1) = b3" using g1(2) by (simp add: settled_def)
  ultimately show thesis using that [OF g1(1)] c(7) by blast
qed

text \<open>Loading reads the entries back.\<close>

lemma load_finds:
  assumes "blobstore L (v_unit v) (v_cluster v) (v_cap v) M" and "M r b V [h \<mapsto> (v_super v, 1)]" and "V (v_super v) = Some (D, x)"
    and "get_xattr L b h dir_xattr = Some (Dir_ctx p)" and "in_range (v_unit v) D 0 (d_size p)"
  shows "\<exists>th b'. load_root L e junk h (idle_thread b) = Inr (junk\<lparr>d_blob := h, d_has_fs := True, dir_persist := p,
       dirents := take (unat (d_size p)) D, d_initialized := True, d_dirty := False\<rparr>, th) \<and> settled b' th \<and>
     M r b' V [h \<mapsto> (v_super v, 1)]"
proof -
  let ?H = "[h \<mapsto> (v_super v, 1 :: nat)]" and ?root = "junk\<lparr>d_blob := h, d_has_fs := True\<rparr>"
  have "?H h = Some (v_super v, 1)" by simp
  note hl = handle_lawsD [OF blobstoreD(7) [OF assms(1,2) this] assms(3)]
  have r: "0 < unat (d_size p)" "unat (d_size p) \<le> length D" using assms(5) by (simp_all add: in_range_def unat_gt_0)
  then have nz: "num_clusters L b h \<noteq> 0" using hl(5) by auto
  obtain b' where b': "read_done L b h 0 (d_size p) 0 (take (unat (d_size p)) D) b'" "M r b' V ?H"
    using hl(8) [OF assms(5)] unfolding unsigned_0 drop_0 by blast
  have "\<exists>th. simple_dir_read L (junk_mem e) ?root (idle_thread b) =
      Inr (?root\<lparr>dir_persist := p, dirents := take (unat (d_size p)) D, d_initialized := True, d_dirty := False\<rparr>, th) \<and> settled b' th"
    using assms(4) b'(1) r(2) by (intro dir_read_settled [where e = 0]) simp_all
  then show ?thesis using nz b'(2) by (auto simp: load_root_def Let_def)
qed

section \<open>The next process\<close>

definition next_volume :: "volume \<Rightarrow> volume" where
  "next_volume v = v\<lparr>v_buffer := 65536, v_dma := (\<lambda>_. False)\<rparr>"

lemma next_volume [simp]:
  "v_unit (next_volume v) = v_unit v" "v_cluster (next_volume v) = v_cluster v" "v_cap (next_volume v) = v_cap v"
  "v_super (next_volume v) = v_super v" "v_buffer (next_volume v) = 65536" "\<not> v_dma (next_volume v) p"
  by (simp_all add: next_volume_def)

text \<open>The names are those of the entries and the context.\<close>

lemma names_rel_same:
  assumes "names_rel v a dir" and "dirents dir' = dirents dir" and "dir_persist dir' = dir_persist dir" and "d_initialized dir'"
    and "v_unit v' = v_unit v"
  shows "names_rel v' a dir'"
proof -
  have "dir_room u dir' = dir_room u dir" "dir_names dir' = dir_names dir" "dirent_id dir' j = dirent_id dir j"
    "zero_tail dir' = zero_tail dir" for u j
    using assms(2,3) by (simp_all add: dir_room_def dir_names_def dirent_id_def zero_tail_def)
  then show ?thesis using assms by (simp add: names_rel_def dir_holds_def dir_fresh_def)
qed

lemma process_rel:
  assumes "fs_world L (next_volume v) e M" and "names_rel v a root" and "settled b th" and "s_open a = Map.empty"
    and "M (s_spare a) b V [d_blob root \<mapsto> (v_super v, 1)]" and "files_rel V (s_files a)" and "V (v_super v) \<noteq> None"
    and "v_super v \<notin> dom (s_files a)"
  shows "fs_rel L (next_volume v) e M a \<lparr>g_thread = th, g_fdtable = fdtable_zero, g_root = root, g_workdir_set = True,
     g_mm = snd (spdkfs_mm_init ub mm_start), g_buffer = fresh_mem (junk_mem e) 0x10000\<rparr>"
    (is "fs_rel _ _ _ _ _ ?g")
proof (rule fs_relI [OF assms(1)])
  have "spdkfs_mm_find (g_mm ?g) p = Inr False" for p
    using mm_find_owned [OF mm_start_inv] by (simp add: mm_start_owned)
  then show "calm_globals (next_volume v) ?g"
    using assms(3) fdtable_zero_ok by (simp add: calm_globals_def settled_def fresh_mem_def)
  show "names_rel (next_volume v) a (g_root ?g)" using names_rel_same [OF assms(2) refl refl] assms(2) by (simp add: names_rel_def)
  show "live_fds (g_fdtable ?g) = dom (s_open a)" using assms(4) fdtable_zero_ok by simp
  have "i = v_super v" if "[d_blob root \<mapsto> (v_super v, 1 :: nat)] h = Some (i, n)" for h i n using that by (simp split: if_splits)
  then show "store_rel (next_volume v) M V [d_blob root \<mapsto> (v_super v, 1)] (\<lambda>_. 0) a ?g"
    using assms(3-8) by (auto simp: store_rel_def handles_rel_def root_rel_def settled_def split: if_splits)
qed

section \<open>An example\<close>

text \<open>The store in memory is durable, and its super blob is blob 1.\<close>

definition mem_remounts :: "mem_bs \<Rightarrow> mem_bs \<Rightarrow> blob \<Rightarrow> bool" where
  "mem_remounts b b' h \<longleftrightarrow> b' = b \<and> h = 1"

lemma mem_durable: "durable (mem_lib n cl) (mem_fs cl) 1 mem_remounts"
  unfolding durable_def unloads_def
proof (intro allI impI)
  fix r b V H h x assume "mem_fs cl r b V H \<and> H h = Some (1, 1)"
  then have m: "mem_fs cl r b V H" "H h = Some (1, 1)" by blast+
  note f = mem_fsD [OF m(1)]
  have h: "h = 1" "V 1 \<noteq> None" using f(6) [OF m(2)] by blast+
  let ?b = "(set_xattr (mem_lib n cl) h dir_xattr x b)\<lparr>bs_pending := None\<rparr>" and ?L = "mem_lib n cl"
  let ?c = "\<lambda>i. \<lparr>bserrno = 0, c_blobid = i, c_blob = i, c_data = []\<rparr>"
  have 1: "lib_completes ?L 0 (submit ?L (Blob_close h) (set_xattr ?L h dir_xattr x b)) (?c h) ?b"
    "lib_completes ?L 0 (submit ?L Bs_unload (free_io_channel ?L ?b)) (?c 0) ?b"
    "lib_completes ?L 0 (submit ?L Subsystem_fini ?b) (?c 0) ?b"
    by (simp_all add: answer_def)
  have "dir_xattr \<noteq> file_xattr" by (simp add: dir_xattr_def file_xattr_def)
  then have "mem_fs cl r ?b V [1 \<mapsto> (1, 1)]" using f h by (auto simp: mem_fs_def)
  then have 2: "\<forall>b' h'. mem_remounts ?b b' h' \<longrightarrow>
      mem_fs cl r b' V [h' \<mapsto> (1, 1)] \<and> get_xattr ?L b' h' dir_xattr = Some x"
    using h(1) by (simp add: mem_remounts_def)
  have 3: "0 < POLLER_MAX_TIME" by (simp add: POLLER_MAX_TIME_def)
  show "\<exists>k1 c1 b1 k2 c2 b2 k3 c3 b3.
        lib_completes ?L k1 (submit ?L (Blob_close h) (set_xattr ?L h dir_xattr x b)) c1 b1 \<and> k1 < POLLER_MAX_TIME \<and>
        lib_completes ?L k2 (submit ?L Bs_unload (free_io_channel ?L b1)) c2 b2 \<and> k2 < POLLER_MAX_TIME \<and>
        lib_completes ?L k3 (submit ?L Subsystem_fini b2) c3 b3 \<and> k3 < POLLER_MAX_TIME \<and>
        (\<forall>b' h'. mem_remounts b3 b' h' \<longrightarrow>
           mem_fs cl r b' V [h' \<mapsto> (1, 1)] \<and> get_xattr ?L b' h' dir_xattr = Some x)"
    using 1 2 3 by blast
qed

text \<open>A volume with the one file \<open>a\<close>: 2048 bytes, of which 1024 count.\<close>

definition one_file_dir :: spdkfs_dir where
  "one_file_dir = (case add_dirent (\<lambda>_. 0) 1024 2 [97] empty_dir of Inl e \<Rightarrow> empty_dir | Inr d \<Rightarrow> d)"

definition one_file_disk :: mem_bs where
  "one_file_disk = mem_empty\<lparr>bs_data := [1 \<mapsto> replicate 8192 0, 2 \<mapsto> replicate 2048 65],
     bs_xattr := (\<lambda>i. if i = 2 then [file_xattr \<mapsto> File_ctx (example_persist\<lparr>f_size := 1024\<rparr>)] else Map.empty),
     bs_next := 3\<rparr>"

definition one_file_fs :: afs where
  "one_file_fs = \<lparr>s_names = [([97], 2)], s_clean = True, s_spare = 10, s_files = [2 \<mapsto> (replicate 2048 65, 1024)],
     s_open = Map.empty\<rparr>"

definition one_file_globals :: "mem_bs globals" where
  "one_file_globals = (example_globals one_file_disk one_file_dir)\<lparr>g_buffer := replicate 1024 0, g_mm := snd (spdkfs_mm_init (\<lambda>_ _. 0) mm_start)\<rparr>"

lemma one_file_dir:
  "dir_holds 1024 one_file_dir [([97], 2)]" "dir_fresh 1024 one_file_dir 1" "d_initialized one_file_dir"
  "d_blob one_file_dir = 1" "1024 dvd unat (d_size (dir_persist one_file_dir))" "d_dirty one_file_dir"
  "unat (d_size (dir_persist one_file_dir)) \<le> 1024"
proof -
  have f: "dir_fresh 1024 empty_dir (length ([] :: (u8 list \<times> u64) list))" by (simp add: dir_fresh_def dir_limit_def)
  have e: "dir_holds 1024 empty_dir []"
    by (rule empty_dir_holds) (simp add: sizeof_dirent_def)
  have nm: "name_ok [97]" by (simp add: name_ok_def SPDK_MAX_NAME_COUNT_def)
  obtain d where d: "add_dirent (\<lambda>_. 0) 1024 2 [97] empty_dir = Inr d" "dir_holds 1024 d ([] @ [([97], 2)])"
      "dir_fresh 1024 d (Suc (length ([] :: (u8 list \<times> u64) list)))" "d_initialized d = d_initialized empty_dir"
      "d_blob d = d_blob empty_dir"
      "unat (1024 :: u64) dvd unat (d_size (dir_persist empty_dir)) \<longrightarrow> unat (1024 :: u64) dvd unat (d_size (dir_persist d))"
    using add_holds [OF e f nm, of 2] by (auto simp: dir_limit_def)
  then have o: "one_file_dir = d" by (simp add: one_file_dir_def)
  show "dir_holds 1024 one_file_dir [([97], 2)]" "dir_fresh 1024 one_file_dir 1" "d_initialized one_file_dir"
    "d_blob one_file_dir = 1" "1024 dvd unat (d_size (dir_persist one_file_dir))"
    using d by (simp_all add: o empty_dir_fields)
  show "d_dirty one_file_dir"
    using d(1) unfolding o
    by (auto simp: add_dirent_def dirent_room_def Let_def bind_res_Inr_iff split: if_splits)
  have "unat (d_size (dir_persist d)) \<in> {unat (d_size (dir_persist empty_dir)), unat (d_size (dir_persist empty_dir)) + unat (1024 :: u64)}"
    using d(1) by (rule add_dirent_frame(3)) (simp_all add: sizeof_dirent_def)
  then show "unat (d_size (dir_persist one_file_dir)) \<le> 1024" by (auto simp: o)
qed

lemma one_file_store:
  "mem_fs 2048 10 one_file_disk
     [1 \<mapsto> (replicate 8192 0, None), 2 \<mapsto> (replicate 2048 65, Some (File_ctx (example_persist\<lparr>f_size := 1024\<rparr>)))]
     [1 \<mapsto> (1, 1)]"
  by (auto simp: mem_fs_def one_file_disk_def mem_empty_def split: if_splits)

lemma one_file_rel: "fs_rel (mem_lib 1024 2048) (small_volume 2048) lookup_env (mem_fs 2048) one_file_fs one_file_globals"
proof (rule fs_relI)
  show "fs_world (mem_lib 1024 2048) (small_volume 2048) lookup_env (mem_fs 2048)" by (rule small_world) simp_all
  have "spdkfs_mm_find (snd (spdkfs_mm_init (\<lambda>_ _. 0) mm_start)) p = Inr False" for p
    using mm_find_owned [OF mm_start_inv] by (simp add: mm_start_owned)
  then show "calm_globals (small_volume 2048) one_file_globals"
    using fdtable_zero_ok by (simp add: calm_globals_def one_file_globals_def example_globals_def small_volume_def)
  show "names_rel (small_volume 2048) one_file_fs (g_root one_file_globals)"
    using one_file_dir by (simp add: names_rel_def one_file_fs_def one_file_globals_def example_globals_def small_volume_def)
  show "live_fds (g_fdtable one_file_globals) = dom (s_open one_file_fs)"
    using fdtable_zero_ok by (simp add: one_file_globals_def example_globals_def one_file_fs_def)
  show "store_rel (small_volume 2048) (mem_fs 2048)
     [1 \<mapsto> (replicate 8192 0, None), 2 \<mapsto> (replicate 2048 65, Some (File_ctx (example_persist\<lparr>f_size := 1024\<rparr>)))]
     [1 \<mapsto> (1, 1)] (\<lambda>_. 0) one_file_fs one_file_globals"
    using one_file_store one_file_dir(4)
    by (auto simp: store_rel_def one_file_fs_def one_file_globals_def example_globals_def files_rel_def handles_rel_def
        root_rel_def small_volume_def split: if_splits)
qed

lemma small_next_world: "fs_world (mem_lib 1024 2048) (next_volume (small_volume 2048)) lookup_env (mem_fs 2048)"
  using small_world [of 2048] by (simp add: fs_world_def geometry_def small_volume_def)

section \<open>Properties\<close>




end
