(* ===== verification/Mm_History.thy ===== *)
theory Mm_History
  imports Interface
begin

text \<open>
  Any history of the interposed \<^verbatim>\<open>malloc\<close>, \<^verbatim>\<open>free\<close> and \<^verbatim>\<open>realloc\<close> as operations on the set of buffers
  that are out: the ring of entries, the tree from pointers to entries and the searches in both are
  refined away, and what is left is which of the two allocators each call goes to.
\<close>

section \<open>The abstract allocator\<close>

text \<open>A call carries what the two allocators answer to it: a size, the C library's answer and
  \<^verbatim>\<open>spdk_malloc\<close>'s; a pointer; a pointer, a size and both answers.\<close>

datatype mm_call = Malloc u64 u64 u64 | Free u64 | Realloc u64 u64 u64 u64

text \<open>The result is the pointer returned and the calls made. What the specification leaves out: a null
  answer of the C library, an answer of \<^verbatim>\<open>spdk_malloc\<close> that is in use, the 4096th buffer, and an
  \<^verbatim>\<open>spdk_realloc\<close> that moves the buffer.\<close>

fun owner_spec :: "mm_call \<Rightarrow> u64 set \<Rightarrow> ((u64 \<times> alloc_call list) \<times> u64 set) option" where
  "owner_spec (Malloc sz q p) S =
     (if sz mod 4096 \<noteq> 0 then if q = 0 then None else Some ((q, [U_malloc sz]), S)
      else if p = 0 then Some ((q, [Spdk_malloc sz, U_malloc sz]), S)
      else if p \<in> S \<or> 4095 \<le> card S then None else Some ((p, [Spdk_malloc sz]), insert p S))"
| "owner_spec (Free p) S = Some ((0, [if p \<in> S then Spdk_free p else U_free p]), S - {p})"
| "owner_spec (Realloc p sz q r) S =
     (if p \<notin> S then Some ((q, [U_realloc p sz]), S)
      else if r = p then Some ((p, [Spdk_realloc p sz]), S) else None)"

definition mm_impl :: "mm_call \<Rightarrow> mm_state \<Rightarrow> ((u64 \<times> alloc_call list) \<times> mm_state) res" where
  "mm_impl c s =
     (case c of
        Malloc sz q p \<Rightarrow> bind_res (interposed_malloc (\<lambda>_. q) (\<lambda>_. p) sz s) (\<lambda>(x, calls, s'). Inr ((x, calls), s'))
      | Free p \<Rightarrow> bind_res (interposed_free p s) (\<lambda>(calls, s'). Inr ((0, calls), s'))
      | Realloc p sz q r \<Rightarrow>
          bind_res (interposed_realloc (\<lambda>_ _. q) (\<lambda>_ _. r) p sz s) (\<lambda>(x, calls, s'). Inr ((x, calls), s')))"

definition owner_rel :: "(u64 \<Rightarrow> u64 \<Rightarrow> u64) \<Rightarrow> u64 set \<Rightarrow> mm_state \<Rightarrow> bool" where
  "owner_rel ub S s \<longleftrightarrow> mm_inv ub s \<and> owned s = S"

lemma owner_step:
  assumes "owner_rel ub S s" and "owner_spec c S = Some (r, S')"
  shows "\<exists>s'. mm_impl c s = Inr (r, s') \<and> owner_rel ub S' s'"
proof -
  have inv: "mm_inv ub s" "owned s = S" using assms(1) by (simp_all add: owner_rel_def)
  then have init: "initialized s" by (simp add: mm_inv_def)
  note find = mm_find_owned [OF inv(1)]
  show ?thesis
  proof (cases c)
    case (Malloc sz q p)
    show ?thesis
    proof (cases "sz mod 4096 = 0 \<and> p \<noteq> 0")
      case True
      then have p: "p \<notin> owned s" "card (live_entries s) < 4095" "r = (p, [Spdk_malloc sz])" "S' = insert p S"
        using assms(2) Malloc inv(2) card_owned [OF inv(1)] by (auto split: if_splits)
      obtain e where "e < 4095" "e \<notin> live_entries s" using free_entry [OF inv(1) p(2)] by blast
      then obtain s' where "spdkfs_malloc (\<lambda>_. q) (\<lambda>_. p) sz s = Inr (p, [Spdk_malloc sz], s')" "mm_inv ub s'"
          "owned s' = insert p (owned s)"
        using mm_malloc_spdk [OF inv(1), of sz "\<lambda>_. p" e "\<lambda>_. q"] True p(1) by blast
      then show ?thesis
        using Malloc init inv(2) p(3,4)
        by (intro exI [of _ s']) (simp add: mm_impl_def interposed_malloc_def spdkfs_mm_inited_def owner_rel_def)
    next
      case False
      then show ?thesis
        using Malloc init inv assms(2)
        by (auto simp: mm_impl_def interposed_malloc_def spdkfs_mm_inited_def spdkfs_malloc_def owner_rel_def split: if_splits)
    qed
  next
    case (Free p)
    show ?thesis
    proof (cases "p \<in> owned s")
      case True
      then obtain s' where "spdkfs_free p s = Inr ([Spdk_free p], s')" "mm_inv ub s'" "owned s' = owned s - {p}"
        using mm_free_owned [OF inv(1)] by blast
      then show ?thesis
        using Free True init inv(2) assms(2)
        by (intro exI [of _ s']) (simp add: mm_impl_def interposed_free_def spdkfs_mm_inited_def owner_rel_def)
    next
      case False
      then have "spdkfs_free p s = Inr ([U_free p], s)" using find [of p] by (simp add: spdkfs_free_def)
      then show ?thesis
        using Free False init inv assms(2)
        by (auto simp: mm_impl_def interposed_free_def spdkfs_mm_inited_def owner_rel_def)
    qed
  next
    case (Realloc p sz q r)
    then show ?thesis
      using init inv find [of p] assms(2)
      by (auto simp: mm_impl_def interposed_realloc_def spdkfs_realloc_def spdkfs_mm_inited_def owner_rel_def split: if_splits)
  qed
qed

interpretation allocator: simulation owner_spec mm_impl "owner_rel ub" for ub
  by unfold_locales (rule owner_step)

section \<open>Properties\<close>

text \<open>C10. Any history of allocations and releases that the specification covers runs without a fault. Each
  call goes to the allocator the memory belongs to, and at the end the table and the tree hold
  exactly the buffers that are out.\<close>

theorem allocation_history:
  assumes "mm_inv ub s" and "spec_calls owner_spec cs (owned s) = Some (rs, S)"
  shows "\<exists>s'. run_calls mm_impl cs s = Inr (rs, s') \<and> mm_inv ub s' \<and> owned s' = S"
  using allocator.calls_refine [of ub "owned s" s cs rs S] assms by (simp add: owner_rel_def)

theorem allocation_history_witness:
  "\<exists>s'. run_calls mm_impl [Malloc 8192 1 131072, Malloc 100 7 0, Realloc 131072 4096 2 131072, Free 7, Free 65536, Malloc 4096 1 65536]
       example_mm =
     Inr ([(131072, [Spdk_malloc 8192]), (7, [U_malloc 100]), (131072, [Spdk_realloc 131072 4096]), (0, [U_free 7]),
       (0, [Spdk_free 65536]), (65536, [Spdk_malloc 4096])], s') \<and> owned s' = {65536, 131072}"
proof -
  have "spec_calls owner_spec [Malloc 8192 1 131072, Malloc 100 7 0, Realloc 131072 4096 2 131072, Free 7, Free 65536,
      Malloc 4096 1 65536] (owned example_mm) =
    Some ([(131072, [Spdk_malloc 8192]), (7, [U_malloc 100]), (131072, [Spdk_realloc 131072 4096]), (0, [U_free 7]),
       (0, [Spdk_free 65536]), (65536, [Spdk_malloc 4096])], {65536, 131072})"
    by (simp add: example_mm(2) insert_Diff_if)
  from allocation_history [OF example_mm(1) this] show ?thesis by blast
qed

end
