(* ===== verification/Fio_Job.thy ===== *)
theory Fio_Job
  imports Session Fio_Plugin
begin

text \<open>
  A fio job: the benchmark program prepares and queues one I/O after another. On an open file of the
  volume every I/O becomes a seek to the start and a transfer on the abstract file, whatever offset
  it has. A job of writes therefore leaves nothing but its last block.
\<close>

section \<open>A job on the abstract file\<close>

definition fio_spec :: "volume \<Rightarrow> io_u \<Rightarrow> afile \<Rightarrow> (u8 list \<times> afile) option" where
  "fio_spec v io a =
     (let a0 = a\<lparr>a_pos := 0\<rparr>
      in case io_ddir io of
           DDIR_READ \<Rightarrow> map_option (\<lambda>(x, a'). (snd x, a')) (afile_call v (Read_call (xfer_buf io) (xfer_mem io) (xfer_buflen io)) a0)
         | DDIR_WRITE \<Rightarrow> map_option (\<lambda>(x, a'). (snd x, a')) (afile_call v (Write_call (xfer_buf io) (xfer_mem io) (xfer_buflen io)) a0)
         | DDIR_TRIM \<Rightarrow> Some (xfer_mem io, a0)
         | DDIR_SYNC \<Rightarrow> Some (xfer_mem io, a0))"

text \<open>What fio does with one I/O: prepare, then queue; the result is the memory of the I/O.\<close>

definition fio_io :: "'b spdk \<Rightarrow> int \<Rightarrow> io_u \<Rightarrow> fio_file \<times> 'b globals \<Rightarrow> (u8 list \<times> (fio_file \<times> 'b globals)) res" where
  "fio_io L errno io s =
     bind_res (fio_spdk_syncio_prep L (fst s) io (snd s)) (\<lambda>(r, g1).
     bind_res (fio_spdk_syncio_queue L errno (fst s) io g1) (\<lambda>(st, ff, io', calls, g2). Inr (xfer_mem io', (ff, g2))))"

definition job_rel :: "'b spdk \<Rightarrow> volume \<Rightarrow> blob \<Rightarrow> ('b \<Rightarrow> u8 list \<Rightarrow> bool) \<Rightarrow> int \<Rightarrow> afile \<Rightarrow> fio_file \<times> 'b globals \<Rightarrow> bool" where
  "job_rel L v blb holds fd a s \<longleftrightarrow> fio_fd (fst s) = fd \<and> session_rel L v blb holds fd a (snd s)"

lemma finish_io_keeps:
  obtains ff io' calls where "finish_io errno f io ret g = (FIO_Q_COMPLETED, ff, io', calls, g)" and "fio_fd ff = fio_fd f"
    and "xfer_mem io' = xfer_mem io"
  by (cases "finish_io errno f io ret g") (auto simp: finish_io_def fio_io_end_def Let_def split: if_splits)

lemma prep_step:
  assumes "session_rel L v blb holds fd a g" and "fio_fd f = fd"
  obtains g1 where "fio_spdk_syncio_prep L f io g = Inr (0, g1)" and "session_rel L v blb holds fd (a\<lparr>a_pos := 0\<rparr>) g1"
proof -
  have "afile_call v (Seek_call 0 SEEK_SET) a = Some ((0, []), a\<lparr>a_pos := 0\<rparr>)" by (simp add: seek_target_def)
  then obtain g1 where "file_call L fd (Seek_call 0 SEEK_SET) g = Inr ((0, []), g1)" "session_rel L v blb holds fd (a\<lparr>a_pos := 0\<rparr>) g1"
    using call_step [OF assms(1)] by blast
  then show thesis
    using that [of g1] assms(2) by (auto simp: file_call_def fio_spdk_syncio_prep_def bind_res_Inr_iff)
qed

lemma job_step:
  assumes "job_rel L v blb holds fd a s" and "fio_spec v io a = Some (mem, a')"
  shows "\<exists>s'. fio_io L errno io s = Inr (mem, s') \<and> job_rel L v blb holds fd a' s'"
proof -
  obtain f g where s: "s = (f, g)" by (cases s)
  have rel: "fio_fd f = fd" "session_rel L v blb holds fd a g" using assms(1) by (simp_all add: job_rel_def s)
  obtain g1 where g1: "fio_spdk_syncio_prep L f io g = Inr (0, g1)" "session_rel L v blb holds fd (a\<lparr>a_pos := 0\<rparr>) g1"
    by (rule prep_step [OF rel(2,1)])
  have "\<exists>st ff io' calls g2. fio_spdk_syncio_queue L errno f io g1 = Inr (st, ff, io', calls, g2) \<and> fio_fd ff = fd \<and>
      xfer_mem io' = mem \<and> session_rel L v blb holds fd a' g2"
  proof (cases "io_ddir io")
    case DDIR_READ
    let ?c = "Read_call (xfer_buf io) (xfer_mem io) (xfer_buflen io)"
    obtain n where "afile_call v ?c (a\<lparr>a_pos := 0\<rparr>) = Some ((n, mem), a')"
      using assms(2) DDIR_READ by (auto simp: fio_spec_def Let_def simp del: afile_call.simps)
    then obtain g2 where g2: "file_call L fd ?c g1 = Inr ((n, mem), g2)" "session_rel L v blb holds fd a' g2"
      using call_step [OF g1(2)] by blast
    then have "monopoly_read L fd (xfer_buf io) (xfer_mem io) (xfer_buflen io) g1 = Inr (n, mem, g2)"
      by (auto simp: file_call_def bind_res_Inr_iff)
    then show ?thesis
      using DDIR_READ rel(1) g2(2) finish_io_keeps [of errno f "io\<lparr>xfer_mem := mem\<rparr>" "int_of_ssize n" g2]
      by (fastforce simp: fio_spdk_syncio_queue_def)
  next
    case DDIR_WRITE
    let ?c = "Write_call (xfer_buf io) (xfer_mem io) (xfer_buflen io)"
    obtain n where "afile_call v ?c (a\<lparr>a_pos := 0\<rparr>) = Some ((n, mem), a')"
      using assms(2) DDIR_WRITE by (auto simp: fio_spec_def Let_def simp del: afile_call.simps)
    then obtain g2 where g2: "file_call L fd ?c g1 = Inr ((n, mem), g2)" "session_rel L v blb holds fd a' g2"
      using call_step [OF g1(2)] by blast
    then have "monopoly_write L fd (xfer_buf io) (xfer_mem io) (xfer_buflen io) g1 = Inr (n, mem, g2)"
      by (auto simp: file_call_def bind_res_Inr_iff)
    then show ?thesis
      using DDIR_WRITE rel(1) g2(2) finish_io_keeps [of errno f "io\<lparr>xfer_mem := mem\<rparr>" "int_of_ssize n" g2]
      by (fastforce simp: fio_spdk_syncio_queue_def)
  next
    case DDIR_TRIM
    then show ?thesis using assms(2) rel(1) g1(2) by (simp add: fio_spec_def fio_spdk_syncio_queue_def)
  next
    case DDIR_SYNC
    then show ?thesis
      using assms(2) rel(1) g1(2) finish_io_keeps [of errno f io 0 g1]
      by (fastforce simp: fio_spec_def fio_spdk_syncio_queue_def)
  qed
  then show ?thesis using g1(1) by (fastforce simp: fio_io_def job_rel_def s)
qed

interpretation job: simulation "fio_spec v" "fio_io L errno" "job_rel L v blb holds fd" for v L errno blb holds fd
  by unfold_locales (rule job_step)

section \<open>Write jobs\<close>

text \<open>The I/Os of a job that writes blocks of \<open>k\<close> bytes.\<close>

definition block_write :: "volume \<Rightarrow> nat \<Rightarrow> io_u \<Rightarrow> bool" where
  "block_write v k io \<longleftrightarrow> io_ddir io = DDIR_WRITE \<and> aligned_size v (xfer_buflen io) = k \<and> xfer_buf io \<noteq> 0 \<and> k \<le> length (xfer_mem io)"

lemma write_spec:
  assumes "block_write v k io" and "0 < k" and "k \<le> length (a_data a)" and "k < 2 ^ 63"
  shows "\<exists>sz. fio_spec v io a = Some (xfer_mem io, \<lparr>a_data = take k (xfer_mem io) @ drop k (a_data a), a_size = sz, a_pos = k\<rparr>)"
  using assms by (simp add: fio_spec_def block_write_def write_allowed_def Let_def)

lemma write_job_spec:
  assumes "\<forall>io \<in> set ios. block_write v k io" and "0 < k" and "k < 2 ^ 63" and "k \<le> length (a_data a)"
  shows "\<exists>a'. spec_calls (fio_spec v) ios a = Some (map xfer_mem ios, a') \<and>
    a_data a' = (if ios = [] then a_data a else take k (xfer_mem (last ios)) @ drop k (a_data a))"
  using assms(1,4)
proof (induction ios arbitrary: a)
  case Nil
  then show ?case by simp
next
  case (Cons io ios)
  have io: "block_write v k io" using Cons.prems(1) by simp
  obtain sz where one: "fio_spec v io a =
      Some (xfer_mem io, \<lparr>a_data = take k (xfer_mem io) @ drop k (a_data a), a_size = sz, a_pos = k\<rparr>)"
    using write_spec [OF io assms(2) Cons.prems(2) assms(3)] by blast
  let ?a = "\<lparr>a_data = take k (xfer_mem io) @ drop k (a_data a), a_size = sz, a_pos = k\<rparr>"
  have k: "length (take k (xfer_mem io)) = k" using io by (simp add: block_write_def)
  then have "k \<le> length (a_data ?a)" by simp
  then obtain a' where "spec_calls (fio_spec v) ios ?a = Some (map xfer_mem ios, a')"
      "a_data a' = (if ios = [] then a_data ?a else take k (xfer_mem (last ios)) @ drop k (a_data ?a))"
    using Cons.IH [of ?a] Cons.prems(1) by auto
  then show ?case using one k by simp
qed

section \<open>Properties\<close>

text \<open>C35. A job of one or more writes of \<open>k\<close> bytes each, at whatever offsets, to a file with at least \<open>k\<close> bytes:
  every I/O completes with its memory unchanged, and at the end only the first \<open>k\<close> bytes of the file
  are new; they are those of the last I/O. The engine has written every block over the one before.\<close>

theorem fio_write_job:
  assumes "session_rel L v blb holds fd a g" and "fio_fd f = fd" and "ios \<noteq> []" and "\<forall>io \<in> set ios. block_write v k io"
    and "0 < k" and "k < 2 ^ 63" and "k \<le> length (a_data a)"
  shows "\<exists>f' g' a'. run_calls (fio_io L errno) ios (f, g) = Inr (map xfer_mem ios, (f', g')) \<and>
     session_rel L v blb holds fd a' g' \<and> a_data a' = take k (xfer_mem (last ios)) @ drop k (a_data a)"
proof -
  obtain a' where a': "spec_calls (fio_spec v) ios a = Some (map xfer_mem ios, a')"
      "a_data a' = take k (xfer_mem (last ios)) @ drop k (a_data a)"
    using write_job_spec [OF assms(4-7)] assms(3) by auto
  have "job_rel L v blb holds fd a (f, g)" using assms(1,2) by (simp add: job_rel_def)
  from job.calls_refine [OF this a'(1), of errno] show ?thesis using a'(2) by (auto simp: job_rel_def)
qed

definition block_io :: "u8 \<Rightarrow> u64 \<Rightarrow> io_u" where
  "block_io b off = \<lparr>io_offset = off, xfer_buf = 1, xfer_mem = replicate 512 b, xfer_buflen = 512, io_ddir = DDIR_WRITE,
     io_resid = 0, io_error = 0\<rparr>"

lemma rw_rel: "session_rel (mem_lib 512 1024) demo_volume 1 (mem_holds 1024 1) 0
    \<lparr>a_data = replicate 1024 0, a_size = 1024, a_pos = 0\<rparr> (open_globals rw_file)"
  using mem_keeps_bytes [of 512 1024 1] mem_grows_bytes [of 1024 8192 512 1] mm_start_find
  by (auto simp: session_rel_def volume_defs afile_ok_def stands_for_def demo_volume_def rw_file_def
      calm_iff mem_holds_def example_disk_def)

theorem fio_write_job_witness:
  "\<exists>f' g' a'. run_calls (fio_io (mem_lib 512 1024) 0) [block_io 65 0, block_io 66 512] (example_fio_file, open_globals rw_file) =
     Inr ([replicate 512 65, replicate 512 66], (f', g')) \<and>
     session_rel (mem_lib 512 1024) demo_volume 1 (mem_holds 1024 1) 0 a' g' \<and> a_data a' = replicate 512 66 @ replicate 512 0"
proof -
  have "\<forall>io \<in> set [block_io 65 0, block_io 66 512]. block_write demo_volume 512 io"
    by (simp add: block_write_def block_io_def aligned_size_def demo_volume_def)
  moreover have "fio_fd example_fio_file = 0" by (simp add: example_fio_file_def)
  ultimately have "\<exists>f' g' a'. run_calls (fio_io (mem_lib 512 1024) 0) [block_io 65 0, block_io 66 512]
        (example_fio_file, open_globals rw_file) = Inr (map xfer_mem [block_io 65 0, block_io 66 512], (f', g')) \<and>
     session_rel (mem_lib 512 1024) demo_volume 1 (mem_holds 1024 1) 0 a' g' \<and>
     a_data a' = take 512 (xfer_mem (last [block_io 65 0, block_io 66 512])) @ drop 512 (replicate 1024 0)"
    using fio_write_job [OF rw_rel, of example_fio_file "[block_io 65 0, block_io 66 512]" 512 0] by simp
  then show ?thesis by (simp add: block_io_def)
qed

end
