(* ===== verification/Posix_Refine.thy ===== *)
theory Posix_Refine
  imports Fs_Refine Interface
begin

text \<open>
  What a program sees through the interposed names: a process made of the abstract file system and
  the kernel. A path under \<^verbatim>\<open>spdkfs/\<close> and a number of at least 10086 lead to the file system, with the
  numbers shifted, and every other path and number to the kernel; neither disturbs the other.
\<close>

section \<open>The calls\<close>

text \<open>A path and flags; a descriptor; a descriptor, the address of a buffer, the memory there and a
  length; a descriptor, an offset and its origin; a path.\<close>

datatype posix_call =
    P_open "u8 list" u32
  | P_close int
  | P_read int u64 "u8 list" u64
  | P_write int u64 "u8 list" u64
  | P_lseek int u64 int
  | P_unlink "u8 list"

text \<open>A number; a byte count or position with the memory; nothing meaningful.\<close>

datatype posix_result = Number int | Count "u64 \<times> u8 list" | Nothing

definition posix_impl ::
  "'b spdk \<Rightarrow> 'k kernel \<Rightarrow> env \<Rightarrow> u64 \<Rightarrow> posix_call \<Rightarrow> ('b, 'k) process \<Rightarrow> (posix_result \<times> ('b, 'k) process) res" where
  "posix_impl L K e va c p =
     (case c of
        P_open path flags \<Rightarrow> bind_res (spdk_open L K e va path flags p) (\<lambda>(r, p'). Inr (Number r, p'))
      | P_close fd \<Rightarrow> bind_res (spdk_close L K e fd p) (\<lambda>(r, p'). Inr (Number r, p'))
      | P_read fd buf mem n \<Rightarrow> bind_res (spdk_read L K fd buf mem n p) (\<lambda>(r, mem', p'). Inr (Count (r, mem'), p'))
      | P_write fd buf mem n \<Rightarrow> bind_res (spdk_write L K fd buf mem n p) (\<lambda>(r, mem', p'). Inr (Count (r, mem'), p'))
      | P_lseek fd off whence \<Rightarrow> bind_res (spdk_lseek L K fd off whence p) (\<lambda>(r, p'). Inr (Count (r, []), p'))
      | P_unlink path \<Rightarrow> bind_res (spdk_unlink L K e path p) (\<lambda>(r, p').
          Inr (if spdk_ptop_blobfile path = Inr True \<and> find_dir e path (g_root (p_fs p)) \<noteq> - 1 then Nothing else Number r, p')))"

section \<open>The specification\<close>

definition on_volume :: "u8 list \<Rightarrow> bool" where
  "on_volume path \<longleftrightarrow> take 7 path = spdkfs_prefix"

lemma on_volume_blobfile:
  assumes "0 \<notin> set path"
  shows "spdk_ptop_blobfile path = Inr (on_volume path)"
proof -
  have "(\<exists>rest. path = spdkfs_prefix @ rest) \<longleftrightarrow> on_volume path"
  proof
    assume "on_volume path"
    then have "path = spdkfs_prefix @ drop 7 path" unfolding on_volume_def by (metis append_take_drop_id)
    then show "\<exists>rest. path = spdkfs_prefix @ rest" by blast
  qed (auto simp: on_volume_def spdkfs_prefix_def)
  then show ?thesis using blobfile_iff [OF assms] by simp
qed

text \<open>Opening a path makes the file when there is none.\<close>

definition open_as :: "u8 list \<Rightarrow> afs \<Rightarrow> fs_call" where
  "open_as path a = (if path \<in> fst ` set (s_names a) then Open_file path else Make path)"

definition io_call_of :: "posix_call \<Rightarrow> (int \<times> io_call) option" where
  "io_call_of c =
     (case c of
        P_read fd buf mem n \<Rightarrow> Some (fd, Read_call buf mem n)
      | P_write fd buf mem n \<Rightarrow> Some (fd, Write_call buf mem n)
      | P_lseek fd off whence \<Rightarrow> Some (fd, Seek_call off whence)
      | _ \<Rightarrow> None)"

text \<open>The call on the file system that a call is, if it is one, and the answer of the kernel otherwise.\<close>

definition fs_call_of :: "posix_call \<Rightarrow> afs \<Rightarrow> fs_call option" where
  "fs_call_of c a =
     (case c of
        P_open path flags \<Rightarrow> if on_volume path then Some (open_as path a) else None
      | P_unlink path \<Rightarrow> if on_volume path then Some (Remove path) else None
      | P_close fd \<Rightarrow> if TESTFD \<le> fd then Some (Close_file (nat (fd - TESTFD))) else None
      | _ \<Rightarrow> (case io_call_of c of
                None \<Rightarrow> None
              | Some (fd, io) \<Rightarrow> if TESTFD \<le> fd then Some (Io (nat (fd - TESTFD)) io) else None))"

definition kernel_answer :: "'k kernel \<Rightarrow> u64 \<Rightarrow> posix_call \<Rightarrow> 'k \<Rightarrow> posix_result \<times> 'k" where
  "kernel_answer K va c k =
     (case c of
        P_open path flags \<Rightarrow> apfst Number (real_open K path flags va k)
      | P_close fd \<Rightarrow> apfst Number (sys_close K fd k)
      | P_read fd buf mem n \<Rightarrow> (case sys_read K fd mem n k of (r, mem', k') \<Rightarrow> (Count (r, mem'), k'))
      | P_write fd buf mem n \<Rightarrow> (case sys_write K fd mem n k of (r, k') \<Rightarrow> (Count (r, mem), k'))
      | P_lseek fd off whence \<Rightarrow> apfst (\<lambda>r. Count (r, [])) (sys_lseek K fd off whence k)
      | P_unlink path \<Rightarrow> apfst Number (sys_unlink K path k))"

text \<open>How the result of the file system reaches the program: a number is shifted when it comes from an
  open, a read count goes through an \<^verbatim>\<open>int\<close>, and closing returns 0.\<close>

definition result_of :: "posix_call \<Rightarrow> fs_result \<Rightarrow> posix_result" where
  "result_of c r =
     (case r of
        Fd x \<Rightarrow> Number (case c of P_open path flags \<Rightarrow> TESTFD + x | _ \<Rightarrow> x)
      | Moved x \<Rightarrow> Count (case c of P_read fd buf mem n \<Rightarrow> (c_int (fst x), snd x) | _ \<Rightarrow> x)
      | Done \<Rightarrow> (case c of P_close fd \<Rightarrow> Number 0 | _ \<Rightarrow> Nothing))"

definition path_of :: "posix_call \<Rightarrow> u8 list" where
  "path_of c = (case c of P_open path flags \<Rightarrow> path | P_unlink path \<Rightarrow> path | _ \<Rightarrow> [])"

definition posix_allowed :: "volume \<Rightarrow> posix_call \<Rightarrow> afs \<times> 'k \<Rightarrow> bool" where
  "posix_allowed v c s \<longleftrightarrow> 0 \<notin> set (path_of c) \<and>
     (case fs_call_of c (fst s) of None \<Rightarrow> True | Some fc \<Rightarrow> fs_allowed v fc (fst s))"

definition posix_spec :: "volume \<Rightarrow> 'k kernel \<Rightarrow> u64 \<Rightarrow> posix_call \<Rightarrow> afs \<times> 'k \<Rightarrow> posix_result \<Rightarrow> afs \<times> 'k \<Rightarrow> bool" where
  "posix_spec v K va c s r s' \<longleftrightarrow>
     (case fs_call_of c (fst s) of
        None \<Rightarrow> (r, snd s') = kernel_answer K va c (snd s) \<and> fst s' = fst s
      | Some fc \<Rightarrow> (\<exists>x. fs_spec v fc (fst s) x (fst s') \<and> r = result_of c x) \<and> snd s' = snd s)"

definition process_rel ::
  "'b spdk \<Rightarrow> volume \<Rightarrow> env \<Rightarrow> (nat \<Rightarrow> 'b \<Rightarrow> contents \<Rightarrow> handles \<Rightarrow> bool) \<Rightarrow> afs \<times> 'k \<Rightarrow> ('b, 'k) process \<Rightarrow> bool" where
  "process_rel L v e M s p \<longleftrightarrow> fs_rel L v e M (fst s) (p_fs p) \<and> p_kernel p = snd s \<and> p_open_found p"

section \<open>The steps\<close>

lemma close_returns_0: "monopoly_close L e fd g = Inr (r, g') \<Longrightarrow> r = 0"
  by (auto simp: monopoly_close_def bind_res_def split: sum.splits)

text \<open>A call that stays with the kernel.\<close>

lemma kernel_step:
  assumes "process_rel L v e M s p" and "0 \<notin> set (path_of c)" and "fs_call_of c (fst s) = None"
  shows "\<exists>r s' p'. posix_impl L K e va c p = Inr (r, p') \<and> posix_spec v K va c s r s' \<and> process_rel L v e M s' p'"
proof -
  obtain r k where k: "kernel_answer K va c (snd s) = (r, k)" by (cases "kernel_answer K va c (snd s)")
  have p: "p_kernel p = snd s" "p_open_found p" using assms(1) by (simp_all add: process_rel_def)
  have "posix_impl L K e va c p = Inr (r, p\<lparr>p_kernel := k\<rparr>)"
    using assms(2,3) k p on_volume_blobfile
    by (auto simp: posix_impl_def kernel_answer_def fs_call_of_def io_call_of_def path_of_def on_kernel_def spdk_open_def
        spdk_close_def spdk_read_def spdk_write_def spdk_lseek_def spdk_unlink_def apfst_def map_prod_def
        split: posix_call.splits if_splits prod.splits)
  moreover have "posix_spec v K va c s r (fst s, k)" using assms(3) k by (simp add: posix_spec_def)
  moreover have "process_rel L v e M (fst s, k) (p\<lparr>p_kernel := k\<rparr>)" using assms(1) by (simp add: process_rel_def)
  ultimately show ?thesis by blast
qed

text \<open>An open of a path of the volume is a creation, or an open when the name is taken.\<close>

lemma open_as_step:
  assumes "fs_rel L v e M a (p_fs p)" and "fs_allowed v (open_as path a) a" and "spdk_ptop_blobfile path = Inr True"
    and "fs_impl L e (open_as path a) (p_fs p) = Inr (x, g')" and "fs_spec v (open_as path a) a x a'"
  shows "\<exists>fd. x = Fd fd \<and> spdk_open L K e va path flags p = Inr (TESTFD + fd, p\<lparr>p_fs := g'\<rparr>)"
proof -
  obtain V H hnd where rel: "fs_world L v e M" "calm_globals v (p_fs p)" "names_rel v a (g_root (p_fs p))"
    by (rule fs_relE [OF assms(1)])
  note cg = calm_globalsD [OF rel(2)]
  show ?thesis
  proof (cases "path \<in> fst ` set (s_names a)")
    case True
    then have o': "open_as path a = Open_file path" by (simp add: open_as_def)
    then obtain fd where fd: "x = Fd fd" "monopoly_open L e path (p_fs p) = Inr (fd, g')"
      using assms(4) by (auto simp: fs_impl_def bind_res_def split: sum.splits)
    obtain i where "map_of (s_names a) path = Some i" using True by (metis map_of_eq_None_iff not_None_eq)
    then obtain k bs sz where "spdkfs_dir_lookup (g_root (p_fs p)) path = Inr (int k)"
      using names_found [OF rel(3)] assms(2) o' by (metis fs_allowed.simps(2))
    moreover have "d_initialized (g_root (p_fs p))" using rel(3) by (simp add: names_rel_def)
    ultimately have "monopoly_create L e path (p_fs p) = Inr (- 1, p_fs p)" using create_existing [OF cg(2)] by blast
    then show ?thesis using fd spdk_open_blobfile [OF assms(3) cg(3)] by simp
  next
    case False
    then have o': "open_as path a = Make path" by (simp add: open_as_def)
    then obtain fd where fd: "x = Fd (int fd)" using assms(5) False by auto
    then have "monopoly_create L e path (p_fs p) = Inr (int fd, g')"
      using assms(4) o' by (auto simp: fs_impl_def bind_res_def split: sum.splits)
    then show ?thesis using fd spdk_open_blobfile [OF assms(3) cg(3)] by simp
  qed
qed

lemma volume_step:
  assumes "process_rel L v e M s p" and "0 \<notin> set (path_of c)" and "fs_call_of c (fst s) = Some fc" and "fs_allowed v fc (fst s)"
  shows "\<exists>r s' p'. posix_impl L K e va c p = Inr (r, p') \<and> posix_spec v K va c s r s' \<and> process_rel L v e M s' p'"
proof -
  have p: "fs_rel L v e M (fst s) (p_fs p)" "p_kernel p = snd s" "p_open_found p" using assms(1) by (simp_all add: process_rel_def)
  obtain x a' g' where x: "fs_impl L e fc (p_fs p) = Inr (x, g')" "fs_spec v fc (fst s) x a'" "fs_rel L v e M a' g'"
    using fs_step_refines [OF p(1) assms(4)] by blast
  have "posix_impl L K e va c p = Inr (result_of c x, p\<lparr>p_fs := g'\<rparr>)"
  proof (cases c)
    case (P_open path flags)
    then have o': "spdk_ptop_blobfile path = Inr True" "fc = open_as path (fst s)"
      using assms(2,3) on_volume_blobfile [of path] by (auto simp: fs_call_of_def path_of_def split: if_splits)
    then obtain fd where "x = Fd fd" "spdk_open L K e va path flags p = Inr (TESTFD + fd, p\<lparr>p_fs := g'\<rparr>)"
      using open_as_step [OF p(1) _ o'(1)] assms(4) x(1,2) by blast
    then show ?thesis using P_open by (simp add: posix_impl_def result_of_def)
  next
    case (P_close fd)
    then have fd: "\<not> fd < TESTFD" "fc = Close_file (nat (fd - TESTFD))"
      using assms(3) by (auto simp: fs_call_of_def split: if_splits)
    then obtain r where "monopoly_close L e (fd - TESTFD) (p_fs p) = Inr (r, g')" "x = Done"
      using x(1) by (auto simp: fs_impl_def bind_res_def split: sum.splits)
    then show ?thesis using P_close fd(1) close_returns_0 by (auto simp: posix_impl_def result_of_def spdk_close_def on_fs_def)
  next
    case (P_unlink path)
    then have o': "spdk_ptop_blobfile path = Inr True" "fc = Remove path"
      using assms(2,3) on_volume_blobfile [of path] by (auto simp: fs_call_of_def path_of_def split: if_splits)
    then obtain r where "monopoly_unlink L e path (p_fs p) = Inr (r, g')"
        "x = (if find_dir e path (g_root (p_fs p)) = - 1 then Fd r else Done)"
      using x(1) by (auto simp: fs_impl_def bind_res_def split: sum.splits)
    then show ?thesis using P_unlink o'(1) by (auto simp: posix_impl_def result_of_def spdk_unlink_def on_fs_def)
  next
    case (P_read fd buf mem n)
    then have fd: "\<not> fd < TESTFD" "fc = Io (nat (fd - TESTFD)) (Read_call buf mem n)"
      using assms(3) by (auto simp: fs_call_of_def io_call_of_def split: if_splits)
    then show ?thesis using P_read x(1)
      by (auto simp: fs_impl_def file_call_def bind_res_def posix_impl_def result_of_def spdk_read_def split: sum.splits)
  next
    case (P_write fd buf mem n)
    then have fd: "\<not> fd < TESTFD" "fc = Io (nat (fd - TESTFD)) (Write_call buf mem n)"
      using assms(3) by (auto simp: fs_call_of_def io_call_of_def split: if_splits)
    then show ?thesis using P_write x(1)
      by (auto simp: fs_impl_def file_call_def bind_res_def posix_impl_def result_of_def spdk_write_def split: sum.splits)
  next
    case (P_lseek fd off whence)
    then have fd: "\<not> fd < TESTFD" "fc = Io (nat (fd - TESTFD)) (Seek_call off whence)"
      using assms(3) by (auto simp: fs_call_of_def io_call_of_def split: if_splits)
    then show ?thesis using P_lseek x(1)
      by (auto simp: fs_impl_def file_call_def bind_res_def posix_impl_def result_of_def spdk_lseek_def on_fs_def split: sum.splits)
  qed
  moreover have "posix_spec v K va c s (result_of c x) (a', snd s)" using assms(3) x(2) by (auto simp: posix_spec_def)
  moreover have "process_rel L v e M (a', snd s) (p\<lparr>p_fs := g'\<rparr>)" using p x(3) by (simp add: process_rel_def)
  ultimately show ?thesis by blast
qed

lemma posix_step_refines:
  assumes "process_rel L v e M s p" and "posix_allowed v c s"
  shows "\<exists>r s' p'. posix_impl L K e va c p = Inr (r, p') \<and> posix_spec v K va c s r s' \<and> process_rel L v e M s' p'"
  using kernel_step [OF assms(1)] volume_step [OF assms(1)] assms(2) unfolding posix_allowed_def
  by (cases "fs_call_of c (fst s)") auto

interpretation posix: loose_simulation "posix_allowed v" "posix_spec v K va" "posix_impl L K e va" "process_rel L v e M"
  for L K v e M va
  by unfold_locales (rule posix_step_refines)


section \<open>An example\<close>

text \<open>A program that has a file of the kernel and one of the volume open at the same time.\<close>

definition mixed_client :: "posix_result list \<Rightarrow> posix_call option" where
  "mixed_client rs =
     (case rs of
        [] \<Rightarrow> Some (P_open [47, 116] 0)
      | [Number k] \<Rightarrow> Some (P_open one_name 0)
      | [Number k, Number fd] \<Rightarrow> Some (P_write fd 1 (replicate 1024 65) 1024)
      | [Number k, Number fd, _] \<Rightarrow> Some (P_write k 1 [7, 8] 2)
      | [Number k, Number fd, _, _] \<Rightarrow> Some (P_write fd 1 (replicate 1024 66) 1024)
      | [Number k, Number fd, _, _, _] \<Rightarrow> Some (P_close fd)
      | [_, _, _, _, _, _] \<Rightarrow> Some (P_open one_name 64)
      | [_, _, _, _, _, _, Number fd] \<Rightarrow> Some (P_read fd 1 (replicate 2048 0) 2048)
      | _ \<Rightarrow> None)"

lemma eight_calls: "8 = Suc (Suc (Suc (Suc (Suc (Suc (Suc (Suc 0)))))))"
  by simp

lemmas posix_simps = posix_allowed_def posix_spec_def fs_call_of_def io_call_of_def path_of_def kernel_answer_def
  result_of_def open_as_def on_volume_def

lemma mixed_paths: "take 7 one_name = spdkfs_prefix" "[47, 116] \<noteq> spdkfs_prefix" "name_ok one_name" "0 \<notin> set one_name"
  by (simp_all add: one_name_def spdkfs_prefix_def name_ok_def SPDK_MAX_NAME_COUNT_def)

lemma mixed_served:
  "client_served (posix_allowed (small_volume 2048)) (posix_spec (small_volume 2048) count_kernel 0) mixed_client 8 [] (empty_fs 10, 3)"
  unfolding eight_calls
  by (auto simp: mixed_client_def mixed_paths posix_simps empty_fs_def dir_limit_def small_io count_kernel_def apfst_def TESTFD_def)

lemma mixed_result:
  assumes "client_result (posix_spec (small_volume 2048) count_kernel 0) mixed_client 8 [] (empty_fs 10, 3) rs s"
  shows "\<exists>fd1 fd2. rs = [Number 3, Number fd1, Count (1024, replicate 1024 65), Count (2, [7, 8]),
     Count (1024, replicate 1024 66), Number 0, Number fd2, Count (1024, replicate 1024 65 @ replicate 1024 0)] \<and>
     TESTFD \<le> fd1 \<and> TESTFD \<le> fd2"
  using assms unfolding eight_calls
  by (auto simp: mixed_client_def mixed_paths posix_simps empty_fs_def small_io count_kernel_def apfst_def TESTFD_def c_int_def)


end
