(* ===== verification/Fio_Engine.thy ===== *)
theory Fio_Engine
  imports Posix_Refine Hello_Reactor
begin

text \<open>
  The two fio engines as fio sees them: a table of functions that is registered when the plugin is
  loaded. Whatever fio calls through either table, in whatever order, is a sequence of calls on the
  abstract file system; the engine of \<^verbatim>\<open>hello_spin_reactor.c\<close> has the descriptors of the interposed
  library and the other one its own.
\<close>

section \<open>The tables\<close>

datatype fio_flag = FIO_SYNCIO | FIO_RAWIO | FIO_NOEXTEND | FIO_NODISKUTIL | FIO_MEMALIGN

text \<open>The functions get the file, and work on the state \<open>'s\<close> of the process.\<close>

record 's ioengine_ops =
  eng_name :: string
  eng_version :: int
  eng_flags :: "fio_flag set"
  eng_prep :: "fio_file \<Rightarrow> io_u \<Rightarrow> 's \<Rightarrow> (int \<times> 's) res"
  eng_queue :: "fio_file \<Rightarrow> io_u \<Rightarrow> 's \<Rightarrow> (fio_q_status \<times> fio_file \<times> io_u \<times> fio_call list \<times> 's) res"
  eng_open_file :: "u8 list \<Rightarrow> fio_file \<Rightarrow> 's \<Rightarrow> (int \<times> fio_file \<times> 's) res"
  eng_close_file :: "fio_file \<Rightarrow> 's \<Rightarrow> (int \<times> fio_file \<times> 's) res"
  eng_get_file_size :: "fio_file \<Rightarrow> int \<times> fio_file"
  eng_invalidate :: "fio_file \<Rightarrow> int"

text \<open>\<^verbatim>\<open>.flags\<close> is initialised twice, and the second initialiser counts. \<open>version\<close> is fio's
  \<^verbatim>\<open>FIO_IOOPS_VERSION\<close>.\<close>

definition ioengine_spdk_rw :: "int \<Rightarrow> 'b spdk \<Rightarrow> env \<Rightarrow> int \<Rightarrow> 'b globals ioengine_ops" where
  "ioengine_spdk_rw version L e errno =
     \<lparr>eng_name = ''spdk_sync'', eng_version = version, eng_flags = {FIO_SYNCIO},
      eng_prep = fio_spdk_syncio_prep L, eng_queue = fio_spdk_syncio_queue L errno,
      eng_open_file = spdk_open_file L e, eng_close_file = spdk_close_file L e,
      eng_get_file_size = spdk_get_file_size, eng_invalidate = spdkfs_fio_invalidate\<rparr>"

definition ioengine_hello ::
  "int \<Rightarrow> (u8 list \<Rightarrow> u32 \<Rightarrow> u32 \<Rightarrow> ('b, 'k) process \<Rightarrow> (int \<times> ('b, 'k) process) res) \<Rightarrow>
     (int \<Rightarrow> ('b, 'k) process \<Rightarrow> (int \<times> ('b, 'k) process) res) \<Rightarrow>
     'b spdk \<Rightarrow> 'k kernel \<Rightarrow> int \<Rightarrow> ('b, 'k) process ioengine_ops"
where
  "ioengine_hello version ext_open ext_close L K errno =
     \<lparr>eng_name = ''spdk_sync'', eng_version = version, eng_flags = {FIO_SYNCIO},
      eng_prep = hello_prep L K, eng_queue = hello_queue L K errno,
      eng_open_file = hello_open_file ext_open, eng_close_file = hello_close_file ext_close,
      eng_get_file_size = hello_get_file_size, eng_invalidate = hello_invalidate\<rparr>"

text \<open>Loading and unloading a plugin hands its table to fio, whose two functions and their state \<open>'r\<close>
  are parameters.\<close>

definition spdk_fio_register ::
  "('b globals ioengine_ops \<Rightarrow> 'r \<Rightarrow> 'r) \<Rightarrow> int \<Rightarrow> 'b spdk \<Rightarrow> env \<Rightarrow> int \<Rightarrow> 'r \<Rightarrow> 'r"
where
  "spdk_fio_register register_ioengine version L e errno r = register_ioengine (ioengine_spdk_rw version L e errno) r"

definition spdk_fio_unregister ::
  "('b globals ioengine_ops \<Rightarrow> 'r \<Rightarrow> 'r) \<Rightarrow> int \<Rightarrow> 'b spdk \<Rightarrow> env \<Rightarrow> int \<Rightarrow> 'r \<Rightarrow> 'r"
where
  "spdk_fio_unregister unregister_ioengine version L e errno r =
     unregister_ioengine (ioengine_spdk_rw version L e errno) r"

definition hello_fio_register ::
  "(('b, 'k) process ioengine_ops \<Rightarrow> 'r \<Rightarrow> 'r) \<Rightarrow> int \<Rightarrow>
     (u8 list \<Rightarrow> u32 \<Rightarrow> u32 \<Rightarrow> ('b, 'k) process \<Rightarrow> (int \<times> ('b, 'k) process) res) \<Rightarrow>
     (int \<Rightarrow> ('b, 'k) process \<Rightarrow> (int \<times> ('b, 'k) process) res) \<Rightarrow>
     'b spdk \<Rightarrow> 'k kernel \<Rightarrow> int \<Rightarrow> 'r \<Rightarrow> 'r"
where
  "hello_fio_register register_ioengine version ext_open ext_close L K errno r =
     register_ioengine (ioengine_hello version ext_open ext_close L K errno) r"

definition hello_fio_unregister ::
  "(('b, 'k) process ioengine_ops \<Rightarrow> 'r \<Rightarrow> 'r) \<Rightarrow> int \<Rightarrow>
     (u8 list \<Rightarrow> u32 \<Rightarrow> u32 \<Rightarrow> ('b, 'k) process \<Rightarrow> (int \<times> ('b, 'k) process) res) \<Rightarrow>
     (int \<Rightarrow> ('b, 'k) process \<Rightarrow> (int \<times> ('b, 'k) process) res) \<Rightarrow>
     'b spdk \<Rightarrow> 'k kernel \<Rightarrow> int \<Rightarrow> 'r \<Rightarrow> 'r"
where
  "hello_fio_unregister unregister_ioengine version ext_open ext_close L K errno r =
     unregister_ioengine (ioengine_hello version ext_open ext_close L K errno) r"

section \<open>Calls through a table\<close>

datatype engine_call = Eng_open "u8 list" | Eng_close | Eng_io io_u | Eng_size | Eng_invalidate

datatype engine_result = Returned int | Completed fio_q_status io_u "fio_call list"

text \<open>An I/O is prepared and then queued.\<close>

definition engine_impl ::
  "'s ioengine_ops \<Rightarrow> engine_call \<Rightarrow> fio_file \<times> 's \<Rightarrow> (engine_result \<times> (fio_file \<times> 's)) res"
where
  "engine_impl eng c s = (case s of (f, g) \<Rightarrow>
     (case c of
        Eng_open nm \<Rightarrow> bind_res (eng_open_file eng nm f g) (\<lambda>(r, f', g'). Inr (Returned r, (f', g')))
      | Eng_close \<Rightarrow> bind_res (eng_close_file eng f g) (\<lambda>(r, f', g'). Inr (Returned r, (f', g')))
      | Eng_io io \<Rightarrow> bind_res (eng_prep eng f io g) (\<lambda>(r, g1).
          bind_res (eng_queue eng f io g1) (\<lambda>(st, f', io', calls, g2). Inr (Completed st io' calls, (f', g2))))
      | Eng_size \<Rightarrow> (case eng_get_file_size eng f of (r, f') \<Rightarrow> Inr (Returned r, (f', g)))
      | Eng_invalidate \<Rightarrow> Inr (Returned (eng_invalidate eng f), (f, g))))"

section \<open>The specification\<close>

text \<open>The transfer of an I/O, after the seek to the start: the call and what fio is told.\<close>

definition transfer_of :: "io_u \<Rightarrow> io_call option" where
  "transfer_of io =
     (case io_ddir io of
        DDIR_READ \<Rightarrow> Some (Read_call (xfer_buf io) (xfer_mem io) (xfer_buflen io))
      | DDIR_WRITE \<Rightarrow> Some (Write_call (xfer_buf io) (xfer_mem io) (xfer_buflen io))
      | _ \<Rightarrow> None)"

definition told :: "int \<Rightarrow> io_u \<Rightarrow> u64 \<times> u8 list \<Rightarrow> fio_file \<Rightarrow> engine_result \<times> fio_file" where
  "told errno io x f =
     (case fio_io_end errno (Some f) (io\<lparr>xfer_mem := snd x\<rparr>) (int_of_ssize (fst x)) of
        (st, f', io', calls) \<Rightarrow> (Completed st io' calls, (case f' of None \<Rightarrow> f | Some y \<Rightarrow> y)))"

text \<open>The state is fio's file and the file system; \<open>base\<close> is what an engine adds to a descriptor.\<close>

definition engine_fd :: "int \<Rightarrow> fio_file \<Rightarrow> nat" where
  "engine_fd base f = nat (fio_fd f - base)"

definition rewound :: "nat \<Rightarrow> afs \<Rightarrow> afs" where
  "rewound fd a = (case s_open a fd of None \<Rightarrow> a | Some o' \<Rightarrow> a\<lparr>s_open := (s_open a)(fd \<mapsto> o'\<lparr>o_pos := 0\<rparr>)\<rparr>)"

definition engine_allowed :: "volume \<Rightarrow> int \<Rightarrow> engine_call \<Rightarrow> fio_file \<times> afs \<Rightarrow> bool" where
  "engine_allowed v base c s = (case s of (f, a) \<Rightarrow>
     (case c of
        Eng_open nm \<Rightarrow> fs_allowed v (open_as nm a) a
      | Eng_close \<Rightarrow> base \<le> fio_fd f \<and> fs_allowed v (Close_file (engine_fd base f)) a
      | Eng_io io \<Rightarrow> base \<le> fio_fd f \<and> engine_fd base f \<in> dom (s_open a) \<and>
          (case transfer_of io of None \<Rightarrow> True
           | Some x \<Rightarrow> fs_allowed v (Io (engine_fd base f) x) (rewound (engine_fd base f) a))
      | _ \<Rightarrow> True))"

definition io_spec ::
  "volume \<Rightarrow> int \<Rightarrow> nat \<Rightarrow> io_u \<Rightarrow> fio_file \<Rightarrow> afs \<Rightarrow> engine_result \<Rightarrow> fio_file \<Rightarrow> afs \<Rightarrow> bool"
where
  "io_spec v errno fd io f a r f' a' =
     (case transfer_of io of
        None \<Rightarrow> a' = rewound fd a \<and>
          (r, f') = (if io_ddir io = DDIR_TRIM then (Completed FIO_Q_COMPLETED io [Io_u_trim], f)
                     else told errno io (0, xfer_mem io) f)
      | Some x \<Rightarrow> \<exists>y. fs_spec v (Io fd x) (rewound fd a) (Moved y) a' \<and> (r, f') = told errno io y f)"

definition engine_spec ::
  "volume \<Rightarrow> int \<Rightarrow> int \<Rightarrow> engine_call \<Rightarrow> fio_file \<times> afs \<Rightarrow> engine_result \<Rightarrow> fio_file \<times> afs \<Rightarrow> bool"
where
  "engine_spec v base errno c s r s' = (case s of (f, a) \<Rightarrow> (case s' of (f', a') \<Rightarrow>
     (case c of
        Eng_open nm \<Rightarrow> \<exists>fd. fs_spec v (open_as nm a) a (Fd fd) a' \<and> r = Returned 0 \<and> f' = f\<lparr>fio_fd := base + fd\<rparr>
      | Eng_close \<Rightarrow> fs_spec v (Close_file (engine_fd base f)) a Done a' \<and> r = Returned 0 \<and> f' = f\<lparr>fio_fd := - 1\<rparr>
      | Eng_io io \<Rightarrow> io_spec v errno (engine_fd base f) io f a r f' a'
      | Eng_size \<Rightarrow> a' = a \<and> r = Returned 0 \<and> f' = f\<lparr>real_file_size := 2000000, size_known := True\<rparr>
      | Eng_invalidate \<Rightarrow> a' = a \<and> r = Returned 0 \<and> f' = f)))"

section \<open>The engine over the file system\<close>

lemma rewound_after:
  assumes "s_open a fd = Some o'"
  shows "after_io (moved_bytes (Seek_call 0 SEEK_SET) (0, [])) fd o' ((view a o')\<lparr>a_pos := 0\<rparr>) a = rewound fd a"
  using assms by (cases o') (simp add: after_io_def moved_bytes_def rewound_def view_def)

lemma seek_rewinds:
  assumes "fs_rel L v e M a g" and "fd \<in> dom (s_open a)" and "fio_fd f = int fd"
  obtains g1 where "fio_spdk_syncio_prep L f io g = Inr (0, g1)" and "fs_rel L v e M (rewound fd a) g1"
proof -
  obtain o' where o': "s_open a fd = Some o'" using assms(2) by blast
  have "afile_call v (Seek_call 0 SEEK_SET) (view a o') = Some ((0, []), (view a o')\<lparr>a_pos := 0\<rparr>)" by (simp add: seek_target_def)
  from io_fs_step [OF assms(1) o' this] obtain g1 where
    "fs_impl L e (Io fd (Seek_call 0 SEEK_SET)) g = Inr (Moved (0, []), g1)" "fs_rel L v e M (rewound fd a) g1"
    unfolding rewound_after [OF o'] by blast
  then show thesis
    using that [of g1] assms(3)
    by (auto simp: fs_impl_def file_call_def fio_spdk_syncio_prep_def bind_res_Inr_iff)
qed

text \<open>A transfer on the file system through the table, with what fio is told.\<close>

lemma finish_told:
  "finish_io errno f (io\<lparr>xfer_mem := snd x\<rparr>) (int_of_ssize (fst x)) g = (st, f', io', calls, g') \<longleftrightarrow>
     told errno io x f = (Completed st io' calls, f') \<and> g' = g"
  by (auto simp: finish_io_def told_def split: prod.splits)

lemma queue_transfers:
  assumes "transfer_of io = Some x" and "fs_impl L e (Io fd x) g = Inr (Moved y, g2)" and "fio_fd f = int fd"
  shows "\<exists>st f' io' calls. fio_spdk_syncio_queue L errno f io g = Inr (st, f', io', calls, g2) \<and>
     told errno io y f = (Completed st io' calls, f')"
proof -
  obtain st f' io' calls g' where fin: "finish_io errno f (io\<lparr>xfer_mem := snd y\<rparr>) (int_of_ssize (fst y)) g2 = (st, f', io', calls, g')"
    by (metis prod_cases5)
  then have "told errno io y f = (Completed st io' calls, f')" "g' = g2" by (simp_all add: finish_told)
  moreover have "fio_spdk_syncio_queue L errno f io g =
      Inr (finish_io errno f (io\<lparr>xfer_mem := snd y\<rparr>) (int_of_ssize (fst y)) g2)"
    using assms
    by (cases "io_ddir io") (auto simp: transfer_of_def fs_impl_def file_call_def fio_spdk_syncio_queue_def bind_res_Inr_iff)
  ultimately show ?thesis using fin by auto
qed

lemma queue_other:
  assumes "transfer_of io = None"
  shows "\<exists>st f' io' calls. fio_spdk_syncio_queue L errno f io g = Inr (st, f', io', calls, g) \<and>
     (Completed st io' calls, f') = (if io_ddir io = DDIR_TRIM then (Completed FIO_Q_COMPLETED io [Io_u_trim], f)
       else told errno io (0, xfer_mem io) f)"
proof (cases "io_ddir io")
  case DDIR_SYNC
  obtain st f' io' calls g' where fin: "finish_io errno f (io\<lparr>xfer_mem := xfer_mem io\<rparr>) 0 g = (st, f', io', calls, g')"
    by (metis prod_cases5)
  have "int_of_ssize 0 = 0" by (simp add: int_of_ssize_def)
  then have "told errno io (0, xfer_mem io) f = (Completed st io' calls, f')" "g' = g"
    using fin finish_told [of errno f "(0, xfer_mem io)" io g st f' io' calls g'] by simp_all
  then show ?thesis using fin DDIR_SYNC by (simp add: fio_spdk_syncio_queue_def)
qed (use assms in \<open>simp_all add: transfer_of_def fio_spdk_syncio_queue_def\<close>)

lemma plugin_io:
  assumes "fs_rel L v e M a g" and "fd \<in> dom (s_open a)" and "fio_fd f = int fd"
    and "\<And>x. transfer_of io = Some x \<Longrightarrow> fs_allowed v (Io fd x) (rewound fd a)"
  shows "\<exists>g1 st f' io' calls g2 a'. fio_spdk_syncio_prep L f io g = Inr (0, g1) \<and>
     fio_spdk_syncio_queue L errno f io g1 = Inr (st, f', io', calls, g2) \<and>
     io_spec v errno fd io f a (Completed st io' calls) f' a' \<and> fs_rel L v e M a' g2"
proof -
  obtain g1 where g1: "fio_spdk_syncio_prep L f io g = Inr (0, g1)" "fs_rel L v e M (rewound fd a) g1"
    by (rule seek_rewinds [OF assms(1-3)])
  show ?thesis
  proof (cases "transfer_of io")
    case None
    then show ?thesis using g1 queue_other [OF None, of L errno f g1] unfolding io_spec_def by fastforce
  next
    case (Some x)
    obtain r a' g2 where x: "fs_impl L e (Io fd x) g1 = Inr (r, g2)" "fs_spec v (Io fd x) (rewound fd a) r a'" "fs_rel L v e M a' g2"
      using fs_step_refines [OF g1(2) assms(4) [OF Some]] by blast
    obtain y where "r = Moved y" using x(2) by auto
    then show ?thesis
      using g1(1) queue_transfers [OF Some _ assms(3), of L e g1 y g2 errno] x Some unfolding io_spec_def by fastforce
  qed
qed

lemma open_as_result: "fs_spec v (open_as nm a) a x a' \<Longrightarrow> \<exists>fd. x = Fd (int fd)"
  by (auto simp: open_as_def split: option.splits if_splits dest!: weak_map_of_SomeI)

text \<open>Opening through the table: an open, and a creation when there is no such name.\<close>

lemma plugin_open:
  assumes "fs_rel L v e M a g" and "fs_allowed v (open_as nm a) a"
  shows "\<exists>fd a' g'. spdk_open_file L e nm f g = Inr (0, f\<lparr>fio_fd := fd\<rparr>, g') \<and> fs_spec v (open_as nm a) a (Fd fd) a' \<and>
     fs_rel L v e M a' g'"
proof -
  obtain x a' g' where x: "fs_impl L e (open_as nm a) g = Inr (x, g')" "fs_spec v (open_as nm a) a x a'" "fs_rel L v e M a' g'"
    using fs_step_refines [OF assms] by blast
  obtain fd where fd: "x = Fd (int fd)" using open_as_result [OF x(2)] by blast
  have "spdk_open_file L e nm f g = Inr (0, f\<lparr>fio_fd := int fd\<rparr>, g')"
  proof (cases "nm \<in> fst ` set (s_names a)")
    case True
    then show ?thesis
      using x(1) fd by (auto simp: open_as_def fs_impl_def spdk_open_file_def bind_res_Inr_iff)
  next
    case False
    then have make: "monopoly_create L e nm g = Inr (int fd, g')" and nm: "name_ok nm"
      using x(1) fd assms(2) by (auto simp: open_as_def fs_impl_def bind_res_Inr_iff)
    obtain rel: "calm_globals v g" "names_rel v a (g_root g)" by (rule fs_relE [OF assms(1)])
    have "map_of (s_names a) nm = None" using False by (simp add: map_of_eq_None_iff)
    from names_missing(1) [OF rel(2) nm this] have "monopoly_open L e nm g = Inr (- 1, g)"
      using calm_globalsD(2) [OF rel(1)] by (simp add: monopoly_open_def workdir_def)
    then show ?thesis using make by (simp add: spdk_open_file_def)
  qed
  then show ?thesis using x(2,3) fd by blast
qed

definition plugin_rel ::
  "'b spdk \<Rightarrow> volume \<Rightarrow> env \<Rightarrow> (nat \<Rightarrow> 'b \<Rightarrow> contents \<Rightarrow> handles \<Rightarrow> bool) \<Rightarrow> fio_file \<times> afs \<Rightarrow> fio_file \<times> 'b globals \<Rightarrow> bool"
where
  "plugin_rel L v e M s t \<longleftrightarrow> fst s = fst t \<and> fs_rel L v e M (snd s) (snd t)"

lemma plugin_step:
  assumes "plugin_rel L v e M s t" and "engine_allowed v 0 c s"
  shows "\<exists>r s' t'. engine_impl (ioengine_spdk_rw version L e errno) c t = Inr (r, t') \<and>
     engine_spec v 0 errno c s r s' \<and> plugin_rel L v e M s' t'"
proof -
  obtain f a g where st: "s = (f, a)" "t = (f, g)" using assms(1) by (cases s; cases t) (auto simp: plugin_rel_def)
  have rel: "fs_rel L v e M a g" using assms(1) by (simp add: plugin_rel_def st)
  show ?thesis
  proof (cases c)
    case (Eng_open nm)
    then have "fs_allowed v (open_as nm a) a" using assms(2) by (simp add: engine_allowed_def st)
    from plugin_open [OF rel this, of f] show ?thesis
      using Eng_open by (fastforce simp: engine_impl_def engine_spec_def plugin_rel_def ioengine_spdk_rw_def st)
  next
    case Eng_close
    then have ok: "0 \<le> fio_fd f" "fs_allowed v (Close_file (engine_fd 0 f)) a" using assms(2) by (simp_all add: engine_allowed_def st)
    obtain r a' g' where c: "fs_impl L e (Close_file (engine_fd 0 f)) g = Inr (r, g')" "fs_spec v (Close_file (engine_fd 0 f)) a r a'"
        "fs_rel L v e M a' g'"
      using fs_step_refines [OF rel ok(2)] by blast
    then have "\<exists>x. monopoly_close L e (fio_fd f) g = Inr (x, g') \<and> r = Done"
      using ok(1) by (auto simp: fs_impl_def engine_fd_def bind_res_Inr_iff)
    then show ?thesis
      using Eng_close c(2,3)
      by (fastforce simp: engine_impl_def engine_spec_def plugin_rel_def ioengine_spdk_rw_def spdk_close_file_def st)
  next
    case (Eng_io io)
    then have ok: "0 \<le> fio_fd f" "engine_fd 0 f \<in> dom (s_open a)" "fio_fd f = int (engine_fd 0 f)"
        "\<And>x. transfer_of io = Some x \<Longrightarrow> fs_allowed v (Io (engine_fd 0 f) x) (rewound (engine_fd 0 f) a)"
      using assms(2) by (auto simp: engine_allowed_def engine_fd_def st)
    from plugin_io [OF rel ok(2-4), where errno = errno] show ?thesis
      using Eng_io by (fastforce simp: engine_impl_def engine_spec_def plugin_rel_def ioengine_spdk_rw_def st)
  next
    case Eng_size
    then show ?thesis using rel
      by (simp add: engine_impl_def engine_spec_def plugin_rel_def ioengine_spdk_rw_def spdk_get_file_size_def st)
  next
    case Eng_invalidate
    then show ?thesis using rel
      by (simp add: engine_impl_def engine_spec_def plugin_rel_def ioengine_spdk_rw_def spdkfs_fio_invalidate_def st)
  qed
qed

interpretation plugin: loose_simulation "engine_allowed v 0" "engine_spec v 0 errno"
    "engine_impl (ioengine_spdk_rw version L e errno)" "plugin_rel L v e M"
  for v errno version L e M
  by unfold_locales (rule plugin_step)

section \<open>The engine over the interposed calls\<close>

text \<open>The descriptor plays no part in what fio is told.\<close>

lemma told_fd:
  assumes "told errno io y (f\<lparr>fio_fd := x\<rparr>) = (r, f')"
  shows "told errno io y f = (r, f'\<lparr>fio_fd := fio_fd f\<rparr>)"
  using assms by (cases f) (auto simp: told_def fio_io_end_def Let_def split: if_splits)

lemma io_spec_fd:
  assumes "io_spec v errno n io (f\<lparr>fio_fd := x\<rparr>) a r f' a'"
  shows "io_spec v errno n io f a r (f'\<lparr>fio_fd := fio_fd f\<rparr>) a'"
proof (cases "transfer_of io")
  case None
  show ?thesis
  proof (cases "io_ddir io = DDIR_TRIM")
    case True
    then show ?thesis using assms None by (cases f) (simp add: io_spec_def)
  next
    case False
    then have "told errno io (0, xfer_mem io) (f\<lparr>fio_fd := x\<rparr>) = (r, f')" "a' = rewound n a"
      using assms None by (simp_all add: io_spec_def)
    from told_fd [OF this(1)] this(2) show ?thesis using False None by (simp add: io_spec_def)
  qed
next
  case (Some z)
  then obtain y where y: "fs_spec v (Io n z) (rewound n a) (Moved y) a'" "told errno io y (f\<lparr>fio_fd := x\<rparr>) = (r, f')"
    using assms by (auto simp: io_spec_def)
  show ?thesis using y(1) told_fd [OF y(2)] Some by (auto simp: io_spec_def)
qed

definition hello_rel ::
  "'b spdk \<Rightarrow> volume \<Rightarrow> env \<Rightarrow> (nat \<Rightarrow> 'b \<Rightarrow> contents \<Rightarrow> handles \<Rightarrow> bool) \<Rightarrow> 'k \<Rightarrow> fio_file \<times> afs \<Rightarrow>
     fio_file \<times> ('b, 'k) process \<Rightarrow> bool"
where
  "hello_rel L v e M k s t \<longleftrightarrow> fst s = fst t \<and> fs_rel L v e M (snd s) (p_fs (snd t)) \<and> p_kernel (snd t) = k"

definition hello_allowed :: "volume \<Rightarrow> engine_call \<Rightarrow> fio_file \<times> afs \<Rightarrow> bool" where
  "hello_allowed v c s \<longleftrightarrow> engine_allowed v TESTFD c s \<and> (case c of Eng_open nm \<Rightarrow> on_volume nm | _ \<Rightarrow> True)"

lemma hello_io:
  assumes "fs_rel L v e M a (p_fs p)" and "n \<in> dom (s_open a)" and "fio_fd f = TESTFD + int n"
    and "\<And>x. transfer_of io = Some x \<Longrightarrow> fs_allowed v (Io n x) (rewound n a)"
  shows "\<exists>p1 st f' io' calls a' g2. hello_prep L K f io p = Inr (0, p1) \<and>
     hello_queue L K errno f io p1 = Inr (st, f', io', calls, p\<lparr>p_fs := g2\<rparr>) \<and>
     io_spec v errno n io f a (Completed st io' calls) f' a' \<and> fs_rel L v e M a' g2"
proof -
  let ?f = "f\<lparr>fio_fd := int n\<rparr>"
  have fd: "fio_fd ?f = int n" by simp
  obtain g1 st f' io' calls g2 a' where io: "fio_spdk_syncio_prep L ?f io (p_fs p) = Inr (0, g1)"
      "fio_spdk_syncio_queue L errno ?f io g1 = Inr (st, f', io', calls, g2)"
      "io_spec v errno n io ?f a (Completed st io' calls) f' a'" "fs_rel L v e M a' g2"
    using plugin_io [OF assms(1,2) fd assms(4), where errno = errno] by blast
  let ?p = "p\<lparr>p_fs := g1\<rparr>"
  have "hello_prep L K f io p = Inr (0, ?p)"
    using io(1) assms(3)
    by (auto simp: hello_prep_def fio_spdk_syncio_prep_def spdk_lseek_def on_fs_def bind_res_Inr_iff)
  moreover have "hello_queue L K errno f io ?p = Inr (st, f'\<lparr>fio_fd := fio_fd f\<rparr>, io', calls, p\<lparr>p_fs := g2\<rparr>)"
    using hello_queue_process [OF assms(3), of L K errno io ?p] io(2) assms(3) by (simp add: on_process_def)
  ultimately show ?thesis using io_spec_fd [OF io(3)] io(4) by blast
qed

text \<open>The two functions that the engine calls by names which nothing defines are taken to be the
  interposed open and close.\<close>

definition spin_engine ::
  "int \<Rightarrow> 'b spdk \<Rightarrow> 'k kernel \<Rightarrow> env \<Rightarrow> u64 \<Rightarrow> int \<Rightarrow> ('b, 'k) process ioengine_ops"
where
  "spin_engine version L K e va errno =
     ioengine_hello version (\<lambda>path flags mode. spdk_open L K e va path flags) (spdk_close L K e) L K errno"

lemma hello_step:
  assumes "hello_rel L v e M k s t" and "hello_allowed v c s"
  shows "\<exists>r s' t'. engine_impl (spin_engine version L K e va errno) c t = Inr (r, t') \<and>
     engine_spec v TESTFD errno c s r s' \<and> hello_rel L v e M k s' t'"
proof -
  obtain f a p where st: "s = (f, a)" "t = (f, p)" using assms(1) by (cases s; cases t) (auto simp: hello_rel_def)
  have rel: "fs_rel L v e M a (p_fs p)" "p_kernel p = k" using assms(1) by (simp_all add: hello_rel_def st)
  note defs = engine_impl_def engine_spec_def hello_rel_def spin_engine_def ioengine_hello_def st
  show ?thesis
  proof (cases c)
    case (Eng_open nm)
    then have ok: "fs_allowed v (open_as nm a) a" "on_volume nm"
      using assms(2) by (simp_all add: engine_allowed_def hello_allowed_def st)
    then have "0 \<notin> set nm" by (auto simp: open_as_def name_ok_def split: if_splits)
    then have blob: "spdk_ptop_blobfile nm = Inr True" using on_volume_blobfile ok(2) by simp
    obtain x a' g' where x: "fs_impl L e (open_as nm a) (p_fs p) = Inr (x, g')" "fs_spec v (open_as nm a) a x a'" "fs_rel L v e M a' g'"
      using fs_step_refines [OF rel(1) ok(1)] by blast
    obtain fd where "x = Fd fd" "spdk_open L K e va nm O_CREAT p = Inr (TESTFD + fd, p\<lparr>p_fs := g'\<rparr>)"
      using open_as_step [OF rel(1) ok(1) blob x(1,2)] by blast
    then show ?thesis
      using Eng_open x(2,3) rel(2) by (fastforce simp: defs hello_open_file_def)
  next
    case Eng_close
    then have ok: "TESTFD \<le> fio_fd f" "fs_allowed v (Close_file (engine_fd TESTFD f)) a"
      using assms(2) by (simp_all add: engine_allowed_def hello_allowed_def st)
    obtain r a' g' where c: "fs_impl L e (Close_file (engine_fd TESTFD f)) (p_fs p) = Inr (r, g')"
        "fs_spec v (Close_file (engine_fd TESTFD f)) a r a'" "fs_rel L v e M a' g'"
      using fs_step_refines [OF rel(1) ok(2)] by blast
    then obtain x where "monopoly_close L e (fio_fd f - TESTFD) (p_fs p) = Inr (x, g')" "r = Done"
      using ok(1) by (auto simp: fs_impl_def engine_fd_def bind_res_Inr_iff)
    then show ?thesis
      using Eng_close c(2,3) ok(1) rel(2) by (fastforce simp: defs hello_close_file_def spdk_close_def on_fs_def)
  next
    case (Eng_io io)
    then have ok: "engine_fd TESTFD f \<in> dom (s_open a)" "fio_fd f = TESTFD + int (engine_fd TESTFD f)"
        "\<And>x. transfer_of io = Some x \<Longrightarrow> fs_allowed v (Io (engine_fd TESTFD f) x) (rewound (engine_fd TESTFD f) a)"
      using assms(2) by (auto simp: engine_allowed_def hello_allowed_def engine_fd_def st)
    from hello_io [where p = p, OF rel(1) ok, where errno = errno and K = K] show ?thesis
      using Eng_io rel(2) by (fastforce simp: defs)
  next
    case Eng_size
    then show ?thesis using rel by (simp add: defs hello_get_file_size_def)
  next
    case Eng_invalidate
    then show ?thesis using rel by (simp add: defs hello_invalidate_def)
  qed
qed

interpretation spin: loose_simulation "hello_allowed v" "engine_spec v TESTFD errno"
    "engine_impl (spin_engine version L K e va errno)" "hello_rel L v e M k"
  for v errno version L K e va M k
  by unfold_locales (rule hello_step)

section \<open>Properties\<close>



section \<open>An example\<close>

text \<open>Two writes at the offsets 0 and 1024 of a new file, and a read at 1024 after opening it again. Both
  writes go to the start of the file and neither raises its stored size above 0, so the read moves nothing.\<close>

definition unit_io :: "fio_ddir \<Rightarrow> u8 \<Rightarrow> u64 \<Rightarrow> io_u" where
  "unit_io d b off = \<lparr>io_offset = off, xfer_buf = 1, xfer_mem = replicate 1024 b, xfer_buflen = 1024, io_ddir = d,
     io_resid = 0, io_error = 0\<rparr>"

definition engine_client :: "engine_result list \<Rightarrow> engine_call option" where
  "engine_client rs =
     (case length rs of
        0 \<Rightarrow> Some (Eng_open one_name)
      | Suc 0 \<Rightarrow> Some (Eng_io (unit_io DDIR_WRITE 65 0))
      | Suc (Suc 0) \<Rightarrow> Some (Eng_io (unit_io DDIR_WRITE 66 1024))
      | Suc (Suc (Suc 0)) \<Rightarrow> Some Eng_close
      | Suc (Suc (Suc (Suc 0))) \<Rightarrow> Some (Eng_open one_name)
      | Suc (Suc (Suc (Suc (Suc 0)))) \<Rightarrow> Some (Eng_io (unit_io DDIR_READ 0 1024))
      | _ \<Rightarrow> None)"

lemma unit_told:
  "told errno (unit_io DDIR_WRITE b off) (1024, replicate 1024 c) f =
     (Completed FIO_Q_COMPLETED (unit_io DDIR_WRITE c off) [], f\<lparr>engine_pos := off + 1024\<rparr>)"
  "told errno (unit_io DDIR_READ b off) (0, replicate 1024 b) f =
     (Completed FIO_Q_COMPLETED ((unit_io DDIR_READ b off)\<lparr>io_resid := 1024\<rparr>) [], f\<lparr>engine_pos := off\<rparr>)"
  by (simp_all add: told_def unit_io_def fio_io_end_def report_error_def int_of_ssize_def)

lemma unit_transfer:
  "transfer_of (unit_io DDIR_WRITE b off) = Some (Write_call 1 (replicate 1024 b) 1024)"
  "transfer_of (unit_io DDIR_READ b off) = Some (Read_call 1 (replicate 1024 b) 1024)"
  by (simp_all add: transfer_of_def unit_io_def)

text \<open>The volume with the one file of the example, and what each call does to it.\<close>

definition unit_fs :: "blob_id \<Rightarrow> u8 list \<Rightarrow> (nat \<times> nat) option \<Rightarrow> afs" where
  "unit_fs i d h = \<lparr>s_names = [(one_name, i)], s_clean = True, s_spare = 9, s_files = [i \<mapsto> (d, 0)],
     s_open = (case h of None \<Rightarrow> Map.empty | Some (fd, p) \<Rightarrow> [fd \<mapsto> \<lparr>o_id = i, o_size = 0, o_pos = p\<rparr>])\<rparr>"

lemmas engine_simps = engine_allowed_def engine_spec_def engine_fd_def open_as_def unit_fs_def mixed_paths

lemma unit_open_new:
  "engine_allowed (small_volume 2048) base (Eng_open one_name) (f, empty_fs 10)"
  "engine_spec (small_volume 2048) base errno (Eng_open one_name) (f, empty_fs 10) r s \<longleftrightarrow>
     (\<exists>fd i. fd < 256 \<and> r = Returned 0 \<and> s = (f\<lparr>fio_fd := base + int fd\<rparr>, unit_fs i [] (Some (fd, 0))))"
  by (auto simp: engine_simps empty_fs_def dir_limit_def)

lemma unit_open_again:
  "engine_allowed (small_volume 2048) base (Eng_open one_name) (f, unit_fs i d None)"
  "engine_spec (small_volume 2048) base errno (Eng_open one_name) (f, unit_fs i d None) r s \<longleftrightarrow>
     (\<exists>fd. fd < 256 \<and> r = Returned 0 \<and> s = (f\<lparr>fio_fd := base + int fd\<rparr>, unit_fs i d (Some (fd, 0))))"
  by (auto simp: engine_simps)

lemma unit_close:
  assumes "fio_fd f = base + int fd"
  shows "engine_allowed (small_volume 2048) base Eng_close (f, unit_fs i d (Some (fd, p)))"
    and "engine_spec (small_volume 2048) base errno Eng_close (f, unit_fs i d (Some (fd, p))) r s \<longleftrightarrow>
     r = Returned 0 \<and> s = (f\<lparr>fio_fd := - 1\<rparr>, unit_fs i d None)"
  using assms by (auto simp: engine_simps)

lemma unit_rewound: "rewound fd (unit_fs i d (Some (fd, p))) = unit_fs i d (Some (fd, 0))"
  by (simp add: rewound_def unit_fs_def)

lemma engine_fd_of [simp]: "fio_fd f = base + int fd \<Longrightarrow> engine_fd base f = fd"
  by (simp add: engine_fd_def)

lemma unit_moves:
  assumes "d = [] \<or> length d = 1024"
  shows "fs_allowed (small_volume 2048) (Io fd (Write_call 1 (replicate 1024 b) 1024)) (unit_fs i d (Some (fd, 0)))"
    and "fs_spec (small_volume 2048) (Io fd (Write_call 1 (replicate 1024 b) 1024)) (unit_fs i d (Some (fd, 0))) x a \<longleftrightarrow>
     x = Moved (1024, replicate 1024 b) \<and> a = unit_fs i (replicate 1024 b) (Some (fd, 1024))"
    and "fs_allowed (small_volume 2048) (Io fd (Read_call 1 (replicate 1024 b) 1024)) (unit_fs i d (Some (fd, 0)))"
    and "fs_spec (small_volume 2048) (Io fd (Read_call 1 (replicate 1024 b) 1024)) (unit_fs i d (Some (fd, 0))) x a \<longleftrightarrow>
     x = Moved (0, replicate 1024 b) \<and> a = unit_fs i d (Some (fd, 0))"
  using assms by (auto simp: unit_fs_def small_io)

lemmas unit_io_simps = engine_allowed_def engine_spec_def io_spec_def unit_transfer unit_rewound unit_moves unit_told

lemma unit_write:
  assumes "fio_fd f = base + int fd" and "d = [] \<or> length d = 1024"
  shows "engine_allowed (small_volume 2048) base (Eng_io (unit_io DDIR_WRITE b off)) (f, unit_fs i d (Some (fd, p)))"
    and "engine_spec (small_volume 2048) base errno (Eng_io (unit_io DDIR_WRITE b off)) (f, unit_fs i d (Some (fd, p))) r s \<longleftrightarrow>
     r = Completed FIO_Q_COMPLETED (unit_io DDIR_WRITE b off) [] \<and>
     s = (f\<lparr>engine_pos := off + 1024\<rparr>, unit_fs i (replicate 1024 b) (Some (fd, 1024)))"
proof -
  have "fd \<in> dom (s_open (unit_fs i d (Some (fd, p))))" by (simp add: unit_fs_def)
  then show "engine_allowed (small_volume 2048) base (Eng_io (unit_io DDIR_WRITE b off)) (f, unit_fs i d (Some (fd, p)))"
    using assms by (simp add: unit_io_simps del: fs_allowed.simps)
qed (use assms in \<open>auto simp: unit_io_simps simp del: fs_spec.simps\<close>)

lemma unit_read:
  assumes "fio_fd f = base + int fd" and "d = [] \<or> length d = 1024"
  shows "engine_allowed (small_volume 2048) base (Eng_io (unit_io DDIR_READ b off)) (f, unit_fs i d (Some (fd, p)))"
    and "engine_spec (small_volume 2048) base errno (Eng_io (unit_io DDIR_READ b off)) (f, unit_fs i d (Some (fd, p))) r s \<longleftrightarrow>
     r = Completed FIO_Q_COMPLETED ((unit_io DDIR_READ b off)\<lparr>io_resid := 1024\<rparr>) [] \<and>
     s = (f\<lparr>engine_pos := off\<rparr>, unit_fs i d (Some (fd, 0)))"
proof -
  have "fd \<in> dom (s_open (unit_fs i d (Some (fd, p))))" by (simp add: unit_fs_def)
  then show "engine_allowed (small_volume 2048) base (Eng_io (unit_io DDIR_READ b off)) (f, unit_fs i d (Some (fd, p)))"
    using assms by (simp add: unit_io_simps del: fs_allowed.simps)
qed (use assms in \<open>auto simp: unit_io_simps simp del: fs_spec.simps\<close>)

definition engine_answers :: "engine_result list" where
  "engine_answers = [Returned 0, Completed FIO_Q_COMPLETED (unit_io DDIR_WRITE 65 0) [],
     Completed FIO_Q_COMPLETED (unit_io DDIR_WRITE 66 1024) [], Returned 0, Returned 0,
     Completed FIO_Q_COMPLETED ((unit_io DDIR_READ 0 1024)\<lparr>io_resid := 1024\<rparr>) []]"

lemmas unit_calls = unit_open_new unit_open_again unit_close unit_write unit_read

lemma engine_result:
  assumes "client_result (engine_spec (small_volume 2048) base errno) engine_client 6 [] (f, empty_fs 10) rs s"
  shows "rs = engine_answers"
  using assms unfolding six_calls by (auto simp: engine_client_def unit_calls engine_answers_def)

lemma engine_served:
  "client_served (engine_allowed (small_volume 2048) base) (engine_spec (small_volume 2048) base errno) engine_client 6 []
     (f, empty_fs 10)"
  unfolding six_calls by (auto simp: engine_client_def unit_calls)

lemma hello_served:
  "client_served (hello_allowed (small_volume 2048)) (engine_spec (small_volume 2048) TESTFD errno) engine_client 6 []
     (f, empty_fs 10)"
  unfolding six_calls by (auto simp: engine_client_def unit_calls hello_allowed_def mixed_paths on_volume_def)




end
