(* ===== verification/Unlinked.thy ===== *)
theory Unlinked
  imports Restart
begin

text \<open>
  Removing a file in a process that has not added one. \<^verbatim>\<open>monopoly_unlink\<close> changes the entries in memory
  without marking the directory dirty, so unloading does not write them, and the next process finds
  the name again, without its file.
\<close>

section \<open>The root in the store\<close>

text \<open>What \<open>M\<close> says of the library includes the attribute of the super blob; and what a process leaves is
  there at the next mount. With the former, the latter includes the attribute.\<close>

definition root_attribute ::
  "'b spdk \<Rightarrow> (nat \<Rightarrow> 'b \<Rightarrow> contents \<Rightarrow> handles \<Rightarrow> bool) \<Rightarrow> blob_id \<Rightarrow> xattr_value \<Rightarrow> bool"
where
  "root_attribute L M si x \<longleftrightarrow> (\<forall>r b V H h n. M r b V H \<and> H h = Some (si, n) \<longrightarrow> get_xattr L b h dir_xattr = Some x)"

definition survives ::
  "'b spdk \<Rightarrow> (nat \<Rightarrow> 'b \<Rightarrow> contents \<Rightarrow> handles \<Rightarrow> bool) \<Rightarrow> blob_id \<Rightarrow> ('b \<Rightarrow> 'b \<Rightarrow> blob \<Rightarrow> bool) \<Rightarrow> bool"
where
  "survives L M si remounts \<longleftrightarrow> (\<forall>r b V H h. M r b V H \<and> H h = Some (si, 1) \<longrightarrow>
     unloads L h b (\<lambda>b3. \<forall>b' h'. remounts b3 b' h' \<longrightarrow> M r b' V [h' \<mapsto> (si, 1)]))"

text \<open>The entries in memory are those in the super blob.\<close>

definition root_on_disk ::
  "volume \<Rightarrow> (nat \<Rightarrow> 'b \<Rightarrow> contents \<Rightarrow> handles \<Rightarrow> bool) \<Rightarrow> 'b globals \<Rightarrow> bool"
where
  "root_on_disk v M g \<longleftrightarrow> (\<forall>r V H. M r (lib (g_thread g)) V H \<longrightarrow>
     (\<exists>D x. V (v_super v) = Some (D, x) \<and> in_range (v_unit v) D 0 (d_size (dir_persist (g_root g))) \<and>
        take (unat (d_size (dir_persist (g_root g)))) D = dirents (g_root g)))"

lemma unload_clean:
  assumes "idle (g_thread g)" and "\<not> stack_done e" and "mm_inv ub (g_mm g)" and "\<not> d_dirty (g_root g)"
    and "unloads L (d_blob (g_root g)) (lib (g_thread g)) P"
  obtains g' where "unload_simple_spdk_fs L e g = Inr ([], g')" and "P (lib (g_thread g'))"
proof -
  obtain k1 c1 b1 k2 c2 b2 k3 c3 b3 where c:
    "lib_completes L k1 (submit L (Blob_close (d_blob (g_root g))) (lib (g_thread g))) c1 b1" "k1 < POLLER_MAX_TIME"
    "lib_completes L k2 (submit L Bs_unload (free_io_channel L b1)) c2 b2" "k2 < POLLER_MAX_TIME"
    "lib_completes L k3 (submit L Subsystem_fini b2) c3 b3" "k3 < POLLER_MAX_TIME" "P b3"
    using assms(5) unfolding unloads_def by blast
  obtain th1 where "simple_dir_close L False (g_root g) (g_thread g) = Inr th1" "settled b1 th1"
    using dir_close_clean [OF assms(1,4) c(1,2)] by blast
  from unload_closed [OF this assms(2,3) c(3-6)] show thesis
    using that c(7) by (auto simp: settled_def)
qed

text \<open>Loading the root when its attribute and its bytes are those of a directory.\<close>

lemma reload_names:
  assumes "fs_world L v e M" and "names_rel v a dir" and "M r b V [h \<mapsto> (v_super v, 1)]" and "V (v_super v) = Some (D, x)"
    and "get_xattr L b h dir_xattr = Some (Dir_ctx (dir_persist dir))" and "in_range (v_unit v) D 0 (d_size (dir_persist dir))"
    and "take (unat (d_size (dir_persist dir))) D = dirents dir" and "starts su h"
  obtains p b' where "load_simple_spdk_fs L e2 su junk b k = Inr (Running p)" and "p_kernel p = k" and "g_workdir_set (p_fs p)"
    and "names_rel v a (g_root (p_fs p))" and "settled b' (g_thread (p_fs p))" and "M r b' V [h \<mapsto> (v_super v, 1)]"
proof -
  let ?root = "junk\<lparr>d_blob := h, d_has_fs := True, dir_persist := dir_persist dir, dirents := dirents dir,
      d_initialized := True, d_dirty := False\<rparr>"
  obtain th b' where l: "load_root L e2 junk h (idle_thread b) = Inr (?root, th)" "settled b' th"
      "M r b' V [h \<mapsto> (v_super v, 1)]"
    using load_finds [where V = V and M = M, OF fs_worldD(1) [OF assms(1)] assms(3-6), of e2 junk] unfolding assms(7) by blast
  have "names_rel v a ?root" by (rule names_rel_same [OF assms(2)]) simp_all
  then show thesis
    using that boot_process [OF assms(8) l(1), of k] l(2,3) by auto
qed


section \<open>Properties\<close>

lemma open_missing:
  assumes "g_workdir_set g" and "idle (g_thread g)" and "\<not> stack_done e" and "spdkfs_dir_lookup (g_root g) nm = Inr (int k)"
    and "dirent_id (g_root g) k = Inr i" and "lib_completes L n (submit L (Bs_open_blob i) (lib (g_thread g))) c b"
    and "n < POLLER_MAX_TIME" and "get_xattr L b (c_blob c) file_xattr = None"
  shows "monopoly_open L e nm g = Inl Uninit_read"
proof -
  obtain th where "blob_open L False (junk_blob e) i (g_thread g) = Inr (bserrno c = 0, c_blob c, th)" "settled b th"
    using blob_open_correct_aux [OF assms(2,6,7), of "junk_blob e"] by blast
  then show ?thesis
    using assms(1,3,4,5,8) by (simp add: monopoly_open_def workdir_def simple_fs_open_def settled_def)
qed

text \<open>The next process, when the root it loads still has a name whose blob is gone.\<close>

lemma stale_name:
  assumes "fs_world L v e M" and "names_rel v a dir" and "M r b V [h \<mapsto> (v_super v, 1)]" and "V (v_super v) = Some (D, x)"
    and "get_xattr L b h dir_xattr = Some (Dir_ctx (dir_persist dir))" and "in_range (v_unit v) D 0 (d_size (dir_persist dir))"
    and "take (unat (d_size (dir_persist dir))) D = dirents dir" and "starts su h" and "name_ok nm" and "map_of (s_names a) nm = Some i"
    and "\<not> stack_done e2" and "V i = None"
  shows "\<exists>p. load_simple_spdk_fs L e2 su junk b k = Inr (Running p) \<and>
     dir_holds (v_unit v) (g_root (p_fs p)) (s_names a) \<and>
     (\<exists>V. V i = None \<and> M r (lib (g_thread (p_fs p))) V [h \<mapsto> (v_super v, 1)]) \<and>
     monopoly_create L e2 nm (p_fs p) = Inr (- 1, p_fs p) \<and>
     (\<forall>n c b'. lib_completes L n (submit L (Bs_open_blob i) (lib (g_thread (p_fs p)))) c b' \<and> n < POLLER_MAX_TIME \<and>
        get_xattr L b' (c_blob c) file_xattr = None \<longrightarrow> monopoly_open L e2 nm (p_fs p) = Inl Uninit_read)"
proof -
  obtain p b' where p: "load_simple_spdk_fs L e2 su junk b k = Inr (Running p)" "g_workdir_set (p_fs p)"
      "names_rel v a (g_root (p_fs p))" "settled b' (g_thread (p_fs p))" "M r b' V [h \<mapsto> (v_super v, 1)]"
    by (rule reload_names [OF assms(1-8)])
  obtain j where j: "spdkfs_dir_lookup (g_root (p_fs p)) nm = Inr (int j)" "dirent_id (g_root (p_fs p)) j = Inr i"
    by (rule names_found [OF p(3) assms(9,10)])
  have n: "d_initialized (g_root (p_fs p))" "dir_holds (v_unit v) (g_root (p_fs p)) (s_names a)"
    using p(3) by (simp_all add: names_rel_def)
  have th: "idle (g_thread (p_fs p))" "lib (g_thread (p_fs p)) = b'" using p(4) by (simp_all add: settled_def)
  show ?thesis
  proof (intro exI [of _ p] conjI exI [of _ V] allI impI)
    show "monopoly_create L e2 nm (p_fs p) = Inr (- 1, p_fs p)" by (rule create_existing [OF p(2) n(1) j(1)])
    fix n c b'' assume "lib_completes L n (submit L (Bs_open_blob i) (lib (g_thread (p_fs p)))) c b'' \<and> n < POLLER_MAX_TIME \<and>
        get_xattr L b'' (c_blob c) file_xattr = None"
    then show "monopoly_open L e2 nm (p_fs p) = Inl Uninit_read"
      using open_missing [OF p(2) th(1) assms(11) j] by blast
  qed (use p n assms(12) th(2) in simp_all)
qed



section \<open>An example\<close>

text \<open>The volume of one file after a restart: the entries are stored, and the root is clean.\<close>

definition stored_disk :: mem_bs where
  "stored_disk = one_file_disk\<lparr>bs_data := (bs_data one_file_disk)(1 \<mapsto> with_entries one_file_dir (replicate 8192 0)),
     bs_xattr := (bs_xattr one_file_disk)(1 := [dir_xattr \<mapsto> Dir_ctx (dir_persist one_file_dir)])\<rparr>"

definition stored_globals :: "mem_bs globals" where
  "stored_globals = one_file_globals\<lparr>g_thread := idle_thread stored_disk, g_root := one_file_dir\<lparr>d_dirty := False\<rparr>\<rparr>"

definition root_kept :: "mem_bs \<Rightarrow> bool" where
  "root_kept b \<longleftrightarrow> bs_xattr b 1 dir_xattr = Some (Dir_ctx (dir_persist one_file_dir)) \<and> bs_xattr b 0 file_xattr = None"

definition kept_fs :: "nat \<Rightarrow> mem_bs \<Rightarrow> contents \<Rightarrow> handles \<Rightarrow> bool" where
  "kept_fs = (\<lambda>r b V H. mem_fs 2048 r b V H \<and> root_kept b)"

lemma submit_xattr: "bs_xattr (mem_submit u cl r b) = bs_xattr b"
  by (cases r) (auto split: option.splits)

lemma root_lasting: "lasting (mem_lib u cl) root_kept"
proof -
  have "dir_xattr \<noteq> file_xattr" by (simp add: dir_xattr_def file_xattr_def)
  then show ?thesis by (auto simp: lasting_def root_kept_def submit_xattr)
qed

lemma kept_world: "fs_world (mem_lib 1024 2048) (small_volume 2048) lookup_env kept_fs"
proof -
  have "fs_world (mem_lib 1024 2048) (small_volume 2048) lookup_env (mem_fs 2048)" by (rule small_world) simp_all
  then show ?thesis unfolding fs_world_def kept_fs_def using blobstore_last [OF _ root_lasting] by blast
qed

lemma kept_attribute: "root_attribute (mem_lib 1024 2048) kept_fs 1 (Dir_ctx (dir_persist one_file_dir))"
  unfolding root_attribute_def kept_fs_def root_kept_def using mem_fsD(6) by fastforce

lemma kept_survives: "survives (mem_lib 1024 2048) kept_fs 1 mem_remounts"
  unfolding survives_def unloads_def
proof (intro allI impI)
  fix r b V H h assume "kept_fs r b V H \<and> H h = Some (1, 1)"
  then have m: "mem_fs 2048 r b V H" "root_kept b" "H h = Some (1, 1)" by (simp_all add: kept_fs_def)
  let ?L = "mem_lib 1024 2048" and ?b = "b\<lparr>bs_pending := None\<rparr>" and ?c = "\<lambda>i. \<lparr>bserrno = 0, c_blobid = i, c_blob = i, c_data = []\<rparr>"
  have 1: "lib_completes ?L 0 (submit ?L (Blob_close h) b) (?c h) ?b"
    "lib_completes ?L 0 (submit ?L Bs_unload (free_io_channel ?L ?b)) (?c 0) ?b"
    "lib_completes ?L 0 (submit ?L Subsystem_fini ?b) (?c 0) ?b" "0 < POLLER_MAX_TIME"
    by (simp_all add: answer_def POLLER_MAX_TIME_def)
  have "V 1 \<noteq> None" using mem_fsD(6) [OF m(1,3)] by blast
  then have "mem_fs 2048 r ?b V [1 \<mapsto> (1, 1)]" using mem_fsD [OF m(1)] by (auto simp: mem_fs_def split: if_splits)
  then have 2: "\<forall>b' h'. mem_remounts ?b b' h' \<longrightarrow> kept_fs r b' V [h' \<mapsto> (1, 1)]"
    using m(2) by (simp add: mem_remounts_def kept_fs_def root_kept_def)
  show "\<exists>k1 c1 b1 k2 c2 b2 k3 c3 b3.
     lib_completes ?L k1 (submit ?L (Blob_close h) b) c1 b1 \<and> k1 < POLLER_MAX_TIME \<and>
     lib_completes ?L k2 (submit ?L Bs_unload (free_io_channel ?L b1)) c2 b2 \<and> k2 < POLLER_MAX_TIME \<and>
     lib_completes ?L k3 (submit ?L Subsystem_fini b2) c3 b3 \<and> k3 < POLLER_MAX_TIME \<and>
     (\<forall>b' h'. mem_remounts b3 b' h' \<longrightarrow> kept_fs r b' V [h' \<mapsto> (1, 1)])"
    using 1 2 by blast
qed

lemma stored_entries:
  "unat (d_size (dir_persist one_file_dir)) = 1024" "length (dirents one_file_dir) = 1024"
  "take 1024 (with_entries one_file_dir (replicate 8192 0)) = dirents one_file_dir"
  "length (with_entries one_file_dir (replicate 8192 0)) = 8192"
proof -
  have r: "length (dirents one_file_dir) = unat (d_size (dir_persist one_file_dir))"
    using dir_holdsD(1) [OF one_file_dir(1)] by (simp add: dir_room_def)
  have "sizeof_dirent \<le> length (dirents one_file_dir)" using held_entries [OF one_file_dir(1), of 0] by simp
  then have "0 < unat (d_size (dir_persist one_file_dir))" using r by (simp add: sizeof_dirent_def)
  then have "1024 \<le> unat (d_size (dir_persist one_file_dir))" using one_file_dir(5) by (rule dvd_imp_le [rotated])
  then show sz: "unat (d_size (dir_persist one_file_dir)) = 1024" using one_file_dir(7) by simp
  then show len: "length (dirents one_file_dir) = 1024" using r by simp
  then show "take 1024 (with_entries one_file_dir (replicate 8192 0)) = dirents one_file_dir"
      "length (with_entries one_file_dir (replicate 8192 0)) = 8192"
    using entries_stored [of one_file_dir "replicate 8192 0"] by simp_all
qed

lemma stored_fs:
  "kept_fs 10 stored_disk
     [1 \<mapsto> (with_entries one_file_dir (replicate 8192 0), None),
      2 \<mapsto> (replicate 2048 65, Some (File_ctx (example_persist\<lparr>f_size := 1024\<rparr>)))] [1 \<mapsto> (1, 1)]"
proof -
  have "dir_xattr \<noteq> file_xattr" by (simp add: dir_xattr_def file_xattr_def)
  then show ?thesis
    using stored_entries(4)
    by (auto simp: kept_fs_def root_kept_def mem_fs_def stored_disk_def one_file_disk_def mem_empty_def split: if_splits)
qed

lemma stored_simps [simp]:
  "g_thread stored_globals = idle_thread stored_disk" "g_root stored_globals = one_file_dir\<lparr>d_dirty := False\<rparr>"
  "g_mm stored_globals = g_mm one_file_globals" "g_fdtable stored_globals = g_fdtable one_file_globals"
  "g_workdir_set stored_globals = g_workdir_set one_file_globals" "g_buffer stored_globals = g_buffer one_file_globals"
  by (simp_all add: stored_globals_def)

lemma stored_rel: "fs_rel (mem_lib 1024 2048) (small_volume 2048) lookup_env kept_fs one_file_fs stored_globals"
proof -
  obtain rel: "calm_globals (small_volume 2048) one_file_globals" "names_rel (small_volume 2048) one_file_fs (g_root one_file_globals)"
      "live_fds (g_fdtable one_file_globals) = dom (s_open one_file_fs)"
    by (rule fs_relE [OF one_file_rel])
  show ?thesis
  proof (rule fs_relI [OF kept_world])
    show "calm_globals (small_volume 2048) stored_globals" using rel(1) by (simp add: calm_globals_def)
    show "names_rel (small_volume 2048) one_file_fs (g_root stored_globals)"
      by (rule names_rel_same [OF rel(2)])
        (use one_file_dir(3) in \<open>simp_all add: one_file_globals_def example_globals_def\<close>)
    show "store_rel (small_volume 2048) kept_fs
     [1 \<mapsto> (with_entries one_file_dir (replicate 8192 0), None),
      2 \<mapsto> (replicate 2048 65, Some (File_ctx (example_persist\<lparr>f_size := 1024\<rparr>)))] [1 \<mapsto> (1, 1)] (\<lambda>_. 0) one_file_fs stored_globals"
      using stored_fs one_file_dir(4)
      by (auto simp: store_rel_def one_file_fs_def files_rel_def handles_rel_def root_rel_def small_volume_def split: if_splits)
  qed (use rel(3) in simp)
qed

lemma stored_root: "root_on_disk (small_volume 2048) kept_fs stored_globals"
  unfolding root_on_disk_def
proof (intro allI impI)
  let ?p = "dir_persist (g_root stored_globals)"
  fix r V H assume "kept_fs r (lib (g_thread stored_globals)) V H"
  then have "map_option fst (V 1) = bs_data stored_disk 1" using mem_fsD(3) [of 2048 r stored_disk V H] by (simp add: kept_fs_def)
  then obtain D x where D: "V 1 = Some (D, x)" "D = with_entries one_file_dir (replicate 8192 0)"
    by (auto simp: stored_disk_def)
  have "d_size ?p \<noteq> 0" using stored_entries(1) by auto
  then have "in_range 1024 D 0 (d_size ?p)" using stored_entries D(2) by (simp add: in_range_def)
  then show "\<exists>D x. V (v_super (small_volume 2048)) = Some (D, x) \<and> in_range (v_unit (small_volume 2048)) D 0 (d_size ?p) \<and>
      take (unat (d_size ?p)) D = dirents (g_root stored_globals)"
    using D stored_entries by (simp add: small_volume_def)
qed


end
